(* ===== verification/Prelude.thy ===== *)
theory Prelude
  imports Main "HOL-Library.Word" "HOL-Library.Multiset"
begin

text \<open>
  Shared vocabulary of the development: the scalar types of the \<open>statement\<close> service, its
  exceptions as values, the SQL idioms every repository uses (\<open>ORDER BY\<close>, \<open>LIMIT\<close>,
  \<open>scalar_one_or_none\<close>) and the list lemmas the component theories share.

  \<^item> a UUID is a 128-bit word: equality and the byte-wise order of PostgreSQL's \<open>uuid\<close> are
    those of the unsigned word;
  \<^item> money is an \<open>int\<close> of hundredths: every \<open>Decimal\<close> the service stores or accepts has at
    most two decimal places (\<open>Numeric(16, 2)\<close>, \<open>Field(decimal_places=2)\<close>);
  \<^item> a timestamp is an \<open>int\<close> of microseconds;
  \<^item> Python's \<open>int\<close> is \<open>int\<close>; text is \<open>string\<close>, one \<open>char\<close> per code point, so names are
    limited to code points below 256 in the model.
\<close>

type_synonym uuid = "128 word"
type_synonym money = int
type_synonym timestamp = int

section \<open>Exceptions as values\<close>

text \<open>
  Every raise the modelled code can perform or let pass. The text of an error message is kept as
  the data it is formatted from. \<open>StrOf e\<close> is Python's \<open>str(e)\<close>.
\<close>

datatype exc =
    IntegrityError string
  | DataError string
  | StaleDataError
  | MultipleResultsFound
  | NoResultFound
  | InvalidRequestError
  | CompileError "string list"
  | ValueError
  | TypeError
  | ValidationError
  | InvalidTokenError
  | InvalidIssuerError
  | RuntimeError
  | RetryRequested "int option" reason
  | TerminalJobError reason
  | LastAttemptError reason
  | HTTPException nat reason
  | OtherException string
and reason =
    AccountNotFound uuid
  | AccountNotActive uuid
  | LedgerNotFound uuid
  | InsufficientFunds uuid uuid money
  | Undecodable string reason
  | EmptyPayload
  | Message string
  | StrOf exc

section \<open>Query idioms\<close>

text \<open>\<open>Result.scalar_one_or_none()\<close> and \<open>Result.scalar_one()\<close>.\<close>

fun scalar_one_or_none :: "'a list \<Rightarrow> exc + 'a option" where
  "scalar_one_or_none [] = Inr None"
| "scalar_one_or_none [x] = Inr (Some x)"
| "scalar_one_or_none (x # y # xs) = Inl MultipleResultsFound"

fun scalar_one :: "'a list \<Rightarrow> exc + 'a" where
  "scalar_one [] = Inl NoResultFound"
| "scalar_one [x] = Inr x"
| "scalar_one (x # y # xs) = Inl MultipleResultsFound"

text \<open>\<open>ORDER BY f ASC\<close> and \<open>ORDER BY f DESC\<close> on an integer column, \<open>LIMIT n\<close>.\<close>

definition order_by :: "('a \<Rightarrow> int) \<Rightarrow> 'a list \<Rightarrow> 'a list" where
  "order_by f xs = sort_key f xs"

definition order_by_desc :: "('a \<Rightarrow> int) \<Rightarrow> 'a list \<Rightarrow> 'a list" where
  "order_by_desc f xs = sort_key (\<lambda>x. - f x) xs"

text \<open>PostgreSQL refuses a negative limit; \<open>Verifier\<close> says when one can get there, the other limits are positive.\<close>

definition sql_limit :: "int \<Rightarrow> 'a list \<Rightarrow> 'a list" where
  "sql_limit n xs = take (nat n) xs"

lemma scalar_one_or_none_take1 [simp]:
  "scalar_one_or_none (take (Suc 0) xs) = Inr (case xs of [] \<Rightarrow> None | x # _ \<Rightarrow> Some x)"
  by (cases xs) auto

lemma sql_limit_1 [simp]: "sql_limit 1 xs = take (Suc 0) xs"
  by (simp add: sql_limit_def)

text \<open>A filter on a column whose values are distinct selects at most one row.\<close>

lemma filter_distinct_key:
  assumes "distinct (map f xs)"
  shows "filter (\<lambda>x. f x = k) xs = (case find (\<lambda>x. f x = k) xs of None \<Rightarrow> [] | Some x \<Rightarrow> [x])"
  using assms
proof (induction xs)
  case Nil
  then show ?case by simp
next
  case (Cons x xs)
  have "filter (\<lambda>y. f y = f x) xs = []"
    using Cons.prems by (auto simp: filter_empty_conv rev_image_eqI)
  with Cons show ?case by auto
qed

lemma scalar_one_or_none_distinct:
  assumes "distinct (map f xs)"
  shows "scalar_one_or_none (filter (\<lambda>x. f x = k) xs) = Inr (find (\<lambda>x. f x = k) xs)"
  using filter_distinct_key [OF assms, of k] by (simp split: option.splits)

lemma find_distinct_key:
  assumes "distinct (map f xs)" "x \<in> set xs"
  shows "find (\<lambda>y. f y = f x) xs = Some x"
  using assms by (induction xs) (auto simp: rev_image_eqI)

lemma find_SomeD: "find P xs = Some x \<Longrightarrow> x \<in> set xs \<and> P x"
  by (induction xs) (auto split: if_splits)

lemma distinct_map_snoc:
  "distinct (map f (xs @ [x])) \<longleftrightarrow> distinct (map f xs) \<and> \<not> list_ex (\<lambda>y. f y = f x) xs"
  by (simp add: list_ex_iff image_iff) metis

section \<open>Sorting by a key\<close>

lemma mset_order_by [simp]: "mset (order_by f xs) = mset xs"
  by (simp add: order_by_def)

lemma set_order_by [simp]: "set (order_by f xs) = set xs"
  by (simp add: order_by_def)

lemma length_order_by [simp]: "length (order_by f xs) = length xs"
  by (simp add: order_by_def)

lemma sorted_order_by [simp]: "sorted (map f (order_by f xs))"
  by (simp add: order_by_def)

lemma order_by_Nil_iff [simp]: "order_by f xs = [] \<longleftrightarrow> xs = []"
  by (metis length_0_conv length_order_by)

lemma distinct_map_inj_on: "distinct (map f xs) \<Longrightarrow> inj_on f (set xs)"
  by (simp add: distinct_map)

lemma order_by_unique:
  assumes "mset xs = mset ys" "distinct (map f xs)" "sorted (map f ys)"
  shows "order_by f xs = ys"
  unfolding order_by_def
  using assms by (intro sort_key_inj_key_eq) (auto simp: distinct_map)

lemma distinct_order_by [simp]: "distinct (map f (order_by g xs)) \<longleftrightarrow> distinct (map f xs)"
proof -
  have "mset (map f (order_by g xs)) = mset (map f xs)" by simp
  then show ?thesis by (rule mset_eq_imp_distinct_iff)
qed

lemma sorted_map_uminus: "sorted (map (\<lambda>x. - (f x :: int)) (rev xs)) \<longleftrightarrow> sorted (map f xs)"
  by (induction xs) (auto simp: sorted_append)

lemma order_by_desc_rev:
  assumes "distinct (map f xs)"
  shows "order_by_desc f xs = rev (order_by f xs)"
proof -
  have "order_by (\<lambda>x. - f x) xs = rev (order_by f xs)"
  proof (rule order_by_unique)
    have "map (\<lambda>x. - f x) xs = map uminus (map f xs)" by simp
    with assms show "distinct (map (\<lambda>x. - f x) xs)"
      by (simp add: distinct_map inj_on_def)
    show "sorted (map (\<lambda>x. - f x) (rev (order_by f xs)))"
      by (simp only: sorted_map_uminus sorted_order_by)
  qed simp
  then show ?thesis by (simp add: order_by_desc_def order_by_def)
qed

lemma order_by_snoc:
  assumes "distinct (map f xs)" "\<And>x. x \<in> set xs \<Longrightarrow> f x < f y"
  shows "order_by f (xs @ [y]) = order_by f xs @ [y]"
proof (rule order_by_unique)
  show "distinct (map f (xs @ [y]))"
    using assms by force
  show "sorted (map f (order_by f xs @ [y]))"
    using assms(2) by (auto simp: sorted_append less_imp_le)
qed simp

lemma distinct_filter_key:
  "distinct (map (\<lambda>r. (f r, g r)) xs) \<Longrightarrow> distinct (map g (filter (\<lambda>r. f r = i) xs))"
  by (induction xs) (auto simp: image_iff)

lemma order_by_filter: "order_by f (filter P xs) = filter P (order_by f xs)"
  by (simp add: order_by_def filter_sort)

lemma order_by_cong: "mset xs = mset ys \<Longrightarrow> distinct (map f xs) \<Longrightarrow> order_by f xs = order_by f ys"
  by (rule order_by_unique) simp_all

lemma hd_rev_last: "(case rev xs of [] \<Rightarrow> None | x # _ \<Rightarrow> Some x) =
    (if xs = [] then None else Some (last xs))"
  by (cases xs rule: rev_cases) auto

lemma sorted_distinct_strict:
  "sorted (map f xs) \<Longrightarrow> distinct (map f xs) \<Longrightarrow> sorted_wrt (<) (map f xs)"
  by (simp add: strict_sorted_iff)

end
