(* ===== verification/Entities.thy ===== *)
theory Entities
  imports Prelude
begin

text \<open>
  The entities and enumerations: \<open>domain/entities/account.py\<close>, \<open>domain/entities/customer.py\<close>,
  \<open>domain/enum.py\<close>, \<open>app/enums/account.py\<close> and the verification tables of
  \<open>infra/models/account.py\<close>. Each class is a record whose fields are its mapped columns, with a
  prefix per table; each \<open>StrEnum\<close> is a datatype with its \<open>value\<close> and its lookup by value,
  which raises \<open>ValueError\<close>.
\<close>

section \<open>Enumerations\<close>

datatype customer_account_status = Acc_ACTIVE | Acc_DISABLED | Acc_DELETED

fun account_status_value :: "customer_account_status \<Rightarrow> string" where
  "account_status_value Acc_ACTIVE = ''active''"
| "account_status_value Acc_DISABLED = ''disabled''"
| "account_status_value Acc_DELETED = ''deleted''"

datatype ledger_operation_type = Op_CREATE | Op_DEPOSIT | Op_WITHDRAWAL

fun operation_type_value :: "ledger_operation_type \<Rightarrow> string" where
  "operation_type_value Op_CREATE = ''create''"
| "operation_type_value Op_DEPOSIT = ''deposit''"
| "operation_type_value Op_WITHDRAWAL = ''withdrawal''"

datatype customer_status = Cust_ACTIVE | Cust_DISABLED

fun customer_status_value :: "customer_status \<Rightarrow> string" where
  "customer_status_value Cust_ACTIVE = ''active''"
| "customer_status_value Cust_DISABLED = ''disabled''"

definition customer_status_of :: "string \<Rightarrow> exc + customer_status" where
  "customer_status_of s =
     (if s = customer_status_value Cust_ACTIVE then Inr Cust_ACTIVE
      else if s = customer_status_value Cust_DISABLED then Inr Cust_DISABLED
      else Inl ValueError)"

datatype ledger_discrepancy_kind = ANCHOR_BALANCE | GAP | BALANCE | GAP_BALANCE

fun discrepancy_kind_value :: "ledger_discrepancy_kind \<Rightarrow> string" where
  "discrepancy_kind_value ANCHOR_BALANCE = ''anchor_balance''"
| "discrepancy_kind_value GAP = ''gap''"
| "discrepancy_kind_value BALANCE = ''balance''"
| "discrepancy_kind_value GAP_BALANCE = ''gap_balance''"

definition discrepancy_kind_of :: "string \<Rightarrow> exc + ledger_discrepancy_kind" where
  "discrepancy_kind_of s =
     (if s = discrepancy_kind_value ANCHOR_BALANCE then Inr ANCHOR_BALANCE
      else if s = discrepancy_kind_value GAP then Inr GAP
      else if s = discrepancy_kind_value BALANCE then Inr BALANCE
      else if s = discrepancy_kind_value GAP_BALANCE then Inr GAP_BALANCE
      else Inl ValueError)"

datatype currency = USD | EUR | GBP | UAH | JPY

fun currency_value :: "currency \<Rightarrow> string" where
  "currency_value USD = ''USD''"
| "currency_value EUR = ''EUR''"
| "currency_value GBP = ''GBP''"
| "currency_value UAH = ''UAH''"
| "currency_value JPY = ''JPY''"

lemma customer_status_roundtrip [simp]: "customer_status_of (customer_status_value s) = Inr s"
  by (cases s) (simp_all add: customer_status_of_def)

lemma discrepancy_kind_roundtrip [simp]: "discrepancy_kind_of (discrepancy_kind_value k) = Inr k"
  by (cases k) (simp_all add: discrepancy_kind_of_def)

section \<open>Tables\<close>

record customer =
  c_id :: uuid
  c_email :: string
  c_name :: "string option"
  c_status :: customer_status
  c_created_at :: timestamp
  c_updated_at :: "timestamp option"

text \<open>
  \<open>version\<close> is the column \<open>persistence/versioned_history.py\<close> adds to every versioned table;
  a row is inserted with its default 1.
\<close>

record customer_account =
  a_id :: uuid
  a_customer_id :: uuid
  a_currency :: string
  a_name :: "string option"
  a_status :: customer_account_status
  a_created_at :: timestamp
  a_updated_at :: timestamp
  a_updated_by :: uuid
  a_version :: int

record customer_account_ledger =
  l_account_id :: uuid
  l_no :: int
  l_amount :: money
  l_balance :: money
  l_operation_type :: ledger_operation_type
  l_operation_id :: uuid
  l_created_at :: timestamp
  l_created_by :: "uuid option"

record customer_account_ledger_verified =
  v_account_id :: uuid
  v_through_no :: int
  v_balance :: money
  v_verified_at :: timestamp

record customer_account_ledger_discrepancy =
  d_id :: int
  d_account_id :: uuid
  d_no :: int
  d_kind :: ledger_discrepancy_kind
  d_prev_no :: int
  d_expected_balance :: "money option"
  d_actual_balance :: money
  d_detected_at :: timestamp
  d_resolved_at :: "timestamp option"
  d_resolved_by :: "uuid option"

section \<open>Constructors of the entities\<close>

definition customer_create ::
  "uuid \<Rightarrow> string \<Rightarrow> string option \<Rightarrow> customer_status \<Rightarrow> timestamp \<Rightarrow> timestamp option \<Rightarrow> customer"
where
  "customer_create entity_id email name status created_at updated_at =
     \<lparr>c_id = entity_id, c_email = email, c_name = name, c_status = status,
      c_created_at = created_at, c_updated_at = updated_at\<rparr>"

definition account_create ::
  "timestamp \<Rightarrow> uuid \<Rightarrow> uuid \<Rightarrow> string \<Rightarrow> string option \<Rightarrow> uuid \<Rightarrow> customer_account"
where
  "account_create now entity_id customer_id currency name updated_by =
     \<lparr>a_id = entity_id, a_customer_id = customer_id, a_currency = currency, a_name = name,
      a_status = Acc_ACTIVE, a_created_at = now, a_updated_at = now, a_updated_by = updated_by,
      a_version = 1\<rparr>"

definition ledger_create :: "timestamp \<Rightarrow> uuid \<Rightarrow> uuid option \<Rightarrow> customer_account_ledger" where
  "ledger_create now account_id created_by =
     \<lparr>l_account_id = account_id, l_no = 1, l_amount = 0, l_balance = 0,
      l_operation_type = Op_CREATE, l_operation_id = account_id, l_created_at = now,
      l_created_by = created_by\<rparr>"

definition ledger_follow ::
  "timestamp \<Rightarrow> customer_account_ledger \<Rightarrow> money \<Rightarrow> ledger_operation_type \<Rightarrow> uuid \<Rightarrow> uuid option
    \<Rightarrow> customer_account_ledger"
where
  "ledger_follow now previous amount operation_type operation_id created_by =
     \<lparr>l_account_id = l_account_id previous, l_no = l_no previous + 1, l_amount = amount,
      l_balance = l_balance previous + amount, l_operation_type = operation_type,
      l_operation_id = operation_id, l_created_at = now, l_created_by = created_by\<rparr>"

lemma ledger_create_sel [simp]:
  "l_account_id (ledger_create now a c) = a"
  "l_no (ledger_create now a c) = 1"
  "l_amount (ledger_create now a c) = 0"
  "l_balance (ledger_create now a c) = 0"
  "l_operation_type (ledger_create now a c) = Op_CREATE"
  "l_operation_id (ledger_create now a c) = a"
  "l_created_at (ledger_create now a c) = now"
  "l_created_by (ledger_create now a c) = c"
  by (simp_all add: ledger_create_def)

lemma ledger_follow_sel [simp]:
  "l_account_id (ledger_follow now p am ty oid c) = l_account_id p"
  "l_no (ledger_follow now p am ty oid c) = l_no p + 1"
  "l_amount (ledger_follow now p am ty oid c) = am"
  "l_balance (ledger_follow now p am ty oid c) = l_balance p + am"
  "l_operation_type (ledger_follow now p am ty oid c) = ty"
  "l_operation_id (ledger_follow now p am ty oid c) = oid"
  "l_created_at (ledger_follow now p am ty oid c) = now"
  "l_created_by (ledger_follow now p am ty oid c) = c"
  by (simp_all add: ledger_follow_def)

lemma account_create_sel [simp]:
  "a_id (account_create now e c cur n u) = e"
  "a_customer_id (account_create now e c cur n u) = c"
  "a_currency (account_create now e c cur n u) = cur"
  "a_name (account_create now e c cur n u) = n"
  "a_status (account_create now e c cur n u) = Acc_ACTIVE"
  "a_created_at (account_create now e c cur n u) = now"
  "a_updated_at (account_create now e c cur n u) = now"
  "a_updated_by (account_create now e c cur n u) = u"
  "a_version (account_create now e c cur n u) = 1"
  by (simp_all add: account_create_def)

end
