(* ===== verification/VersionedHistory.thy ===== *)
theory VersionedHistory
  imports Prelude
begin

text \<open>
  \<open>persistence/versioned_history.py\<close>: the history table derived from a mapped table
  (\<open>_history_mapper\<close>), the snapshot taken of a changed object before it is flushed
  (\<open>create_version\<close>) and the \<open>before_flush\<close> listener.

  SQLAlchemy's \<open>attributes.get_history\<close> is not code of the repository: it is the parameter
  \<open>get_history\<close>, of which the locale \<open>attribute_history\<close> states the documented behaviour on
  loaded scalar attributes. It maps the values an object was loaded with, its present values and an
  attribute to the triple (added, unchanged, deleted).
\<close>

section \<open>The history table of a mapped table\<close>

text \<open>A foreign key names the table it refers to and the columns there.\<close>

datatype constraint_kind = PrimaryKeyC | is_foreign: ForeignKeyC string "string list" | UniqueC | CheckC

record 't column =
  col_name :: string
  col_type :: 't
  col_nullable :: bool
  col_unique :: bool
  col_has_default :: bool
  col_autoincrement :: bool
  col_primary_key :: bool
  col_version_meta :: bool

text \<open>\<open>ix_column_flag\<close>: the index comes from \<open>index=True\<close> of its column; \<open>ix_where\<close>: the column that a
  partial index requires to be \<open>NULL\<close>.\<close>

record index =
  ix_name :: "string option"
  ix_columns :: "string list"
  ix_unique :: bool
  ix_where :: "string option"
  ix_column_flag :: bool

record 't table =
  tab_name :: string
  tab_columns :: "'t column list"
  tab_indexes :: "index list"
  tab_constraints :: "(constraint_kind \<times> string list) list"

definition is_versioning_col :: "'t column \<Rightarrow> bool" where
  "is_versioning_col c = col_version_meta c"

text \<open>
  \<open>Table.to_metadata\<close> copies an index with its name, but an index that comes from a column's flag is
  made anew with the copied column, under the name the naming convention \<open>ix_naming\<close> gives it there.
\<close>

definition copied_index :: "(string \<Rightarrow> string list \<Rightarrow> string option) \<Rightarrow> string \<Rightarrow> index \<Rightarrow> index" where
  "copied_index ix_naming table i =
     (if ix_column_flag i then i\<lparr>ix_name := ix_naming table (ix_columns i)\<rparr> else i)"

definition history_index :: "index \<Rightarrow> index" where
  "history_index i =
     i\<lparr>ix_name := (case ix_name i of None \<Rightarrow> None | Some n \<Rightarrow> Some (n @ ''_history'')),
       ix_unique := False\<rparr>"

definition history_column :: "'t column \<Rightarrow> 't column" where
  "history_column c = c\<lparr>col_unique := False, col_has_default := False, col_autoincrement := False\<rparr>"

definition version_column :: "'t \<Rightarrow> 't column" where
  "version_column int_type =
     \<lparr>col_name = ''version'', col_type = int_type, col_nullable = False, col_unique = False,
      col_has_default = False, col_autoincrement = False, col_primary_key = True,
      col_version_meta = True\<rparr>"

definition changed_column :: "'t \<Rightarrow> 't column" where
  "changed_column datetime_type =
     \<lparr>col_name = ''changed'', col_type = datetime_type, col_nullable = True, col_unique = False,
      col_has_default = True, col_autoincrement = False, col_primary_key = False,
      col_version_meta = True\<rparr>"

text \<open>
  A primary-key column appended to a table joins its primary-key constraint, as
  \<open>Table.append_column\<close> does.
\<close>

fun extend_primary_key :: "string \<Rightarrow> (constraint_kind \<times> string list) list
    \<Rightarrow> (constraint_kind \<times> string list) list" where
  "extend_primary_key c [] = []"
| "extend_primary_key c ((PrimaryKeyC, cs) # ks) = (PrimaryKeyC, cs @ [c]) # extend_primary_key c ks"
| "extend_primary_key c (k # ks) = k # extend_primary_key c ks"

definition history_table :: "(string \<Rightarrow> string list \<Rightarrow> string option) \<Rightarrow> 't \<Rightarrow> 't \<Rightarrow> 't table \<Rightarrow> 't table" where
  "history_table ix_naming int_type datetime_type t =
     \<lparr>tab_name = tab_name t @ ''_history'',
      tab_columns = map history_column (tab_columns t)
        @ [version_column int_type, changed_column datetime_type],
      tab_indexes = map (\<lambda>i. history_index (copied_index ix_naming (tab_name t @ ''_history'') i)) (tab_indexes t),
      tab_constraints = extend_primary_key ''version''
        (filter (\<lambda>k. fst k = PrimaryKeyC \<or> is_foreign (fst k)) (tab_constraints t))\<rparr>"

text \<open>The column the mapped table itself gains: its default 1 is the version of a new row.\<close>

definition versioned_table :: "'t \<Rightarrow> 't table \<Rightarrow> 't table" where
  "versioned_table int_type t =
     t\<lparr>tab_columns := filter (\<lambda>c. col_name c \<noteq> ''version'') (tab_columns t)
        @ [\<lparr>col_name = ''version'', col_type = int_type, col_nullable = False, col_unique = False,
            col_has_default = True, col_autoincrement = False, col_primary_key = False,
            col_version_meta = False\<rparr>]\<rparr>"

section \<open>Objects and their versions\<close>

text \<open>
  An ORM object: the attribute values it was loaded with, its present values and its
  \<open>version\<close>. A history row holds the attributes \<open>create_version\<close> copied and the version they
  belong to.
\<close>

record ('k, 'v) orm_object =
  obj_loaded :: "'k \<rightharpoonup> 'v"
  obj_current :: "'k \<rightharpoonup> 'v"
  obj_version :: int

record ('k, 'v) history_row =
  hist_attrs :: "'k \<rightharpoonup> 'v"
  hist_version :: int
  hist_changed :: timestamp

text \<open>
  What \<open>create_version\<close> reads of the two mappers: one level per class of the inheritance
  chain (whether it shares its parent's table, and the columns of its history table), the property
  each column is mapped to, and for every relationship whether it changed and which of its local
  columns carry a foreign key.
\<close>

record ('c, 'k) history_mapper =
  hm_levels :: "(bool \<times> 'c list) list"
  hm_versioning :: "'c \<Rightarrow> bool"
  hm_property :: "'c \<Rightarrow> 'k option"
  hm_relationships :: "(bool \<times> bool list) list"

type_synonym ('k, 'v) get_history =
  "('k \<rightharpoonup> 'v) \<Rightarrow> ('k \<rightharpoonup> 'v) \<Rightarrow> 'k \<Rightarrow> 'v list \<times> 'v list \<times> 'v list"

fun scan_columns ::
  "('c, 'k) history_mapper \<Rightarrow> ('k \<Rightarrow> 'v list \<times> 'v list \<times> 'v list) \<Rightarrow> 'c list
    \<Rightarrow> ('k \<rightharpoonup> 'v) \<times> bool \<Rightarrow> ('k \<rightharpoonup> 'v) \<times> bool"
where
  "scan_columns m gh [] acc = acc"
| "scan_columns m gh (c # cs) (attr, changed) =
     (if hm_versioning m c then scan_columns m gh cs (attr, changed)
      else case hm_property m c of
        None \<Rightarrow> scan_columns m gh cs (attr, changed)
      | Some k \<Rightarrow>
          (case gh k of
            (_, _, d # _) \<Rightarrow> scan_columns m gh cs (attr(k \<mapsto> d), True)
          | (_, u # _, []) \<Rightarrow> scan_columns m gh cs (attr(k \<mapsto> u), changed)
          | (a # _, [], []) \<Rightarrow> scan_columns m gh cs (attr(k \<mapsto> a), True)
          | ([], [], []) \<Rightarrow> scan_columns m gh cs (attr, changed)))"

fun scan_levels ::
  "('c, 'k) history_mapper \<Rightarrow> ('k \<Rightarrow> 'v list \<times> 'v list \<times> 'v list) \<Rightarrow> (bool \<times> 'c list) list
    \<Rightarrow> ('k \<rightharpoonup> 'v) \<times> bool \<Rightarrow> ('k \<rightharpoonup> 'v) \<times> bool"
where
  "scan_levels m gh [] acc = acc"
| "scan_levels m gh ((single, cols) # ls) acc =
     (if single then scan_levels m gh ls acc
      else scan_levels m gh ls (scan_columns m gh cols acc))"

definition relationship_changed :: "(bool \<times> bool list) list \<Rightarrow> bool" where
  "relationship_changed rels = list_ex (\<lambda>(has_changes, fks). has_changes \<and> list_ex (\<lambda>b. b) fks) rels"

text \<open>
  \<open>create_version obj session deleted\<close>: the object as it leaves and the history row it adds to
  the session, if any.
\<close>

definition create_version ::
  "('c, 'k) history_mapper \<Rightarrow> ('k, 'v) get_history \<Rightarrow> timestamp \<Rightarrow> bool \<Rightarrow> ('k, 'v) orm_object
    \<Rightarrow> ('k, 'v) orm_object \<times> ('k, 'v) history_row option"
where
  "create_version m gh now deleted obj =
     (let (attr, obj_changed) =
        scan_levels m (gh (obj_loaded obj) (obj_current obj)) (hm_levels m) (Map.empty, False);
        obj_changed = (obj_changed \<or> relationship_changed (hm_relationships m))
      in if \<not> obj_changed \<and> \<not> deleted then (obj, None)
         else (obj\<lparr>obj_version := obj_version obj + 1\<rparr>,
               Some \<lparr>hist_attrs = attr, hist_version = obj_version obj, hist_changed = now\<rparr>))"

text \<open>
  The \<open>before_flush\<close> listener over the dirty and the deleted objects of a session; the flag of an
  entry says whether its class has a \<open>__history_mapper__\<close>.
\<close>

definition version_entry ::
  "('c, 'k) history_mapper \<Rightarrow> ('k, 'v) get_history \<Rightarrow> timestamp \<Rightarrow> bool \<Rightarrow> bool \<times> ('k, 'v) orm_object
    \<Rightarrow> (bool \<times> ('k, 'v) orm_object) \<times> ('k, 'v) history_row option"
where
  "version_entry m gh now deleted e =
     (if fst e then (let (obj, h) = create_version m gh now deleted (snd e) in ((True, obj), h))
      else (e, None))"

definition before_flush ::
  "('c, 'k) history_mapper \<Rightarrow> ('k, 'v) get_history \<Rightarrow> timestamp
    \<Rightarrow> (bool \<times> ('k, 'v) orm_object) list \<Rightarrow> (bool \<times> ('k, 'v) orm_object) list
    \<Rightarrow> (bool \<times> ('k, 'v) orm_object) list \<times> (bool \<times> ('k, 'v) orm_object) list
       \<times> ('k, 'v) history_row list"
where
  "before_flush m gh now dirty deleted =
     (let vd = map (version_entry m gh now False) dirty;
          vx = map (version_entry m gh now True) deleted
      in (map fst vd, map fst vx, List.map_filter snd vd @ List.map_filter snd vx))"

section \<open>The contract of \<open>get_history\<close>\<close>

text \<open>
  The documented behaviour of \<open>get_history\<close> on an attribute that is loaded: an unchanged value is
  reported as unchanged, a changed one as added together with the loaded one as deleted.
\<close>

locale attribute_history =
  fixes get_history :: "('k, 'v) get_history"
  assumes unchanged: "loaded k = Some v \<Longrightarrow> present k = Some v \<Longrightarrow>
      get_history loaded present k = ([], [v], [])"
    and changed: "loaded k = Some v \<Longrightarrow> present k = Some w \<Longrightarrow> v \<noteq> w \<Longrightarrow>
      get_history loaded present k = ([w], [], [v])"

text \<open>The keys one level of the mapper copies, and those of the whole chain.\<close>

definition column_keys :: "('c, 'k) history_mapper \<Rightarrow> 'c list \<Rightarrow> 'k list" where
  "column_keys m cols = List.map_filter (hm_property m) (filter (\<lambda>c. \<not> hm_versioning m c) cols)"

fun level_keys :: "('c, 'k) history_mapper \<Rightarrow> (bool \<times> 'c list) list \<Rightarrow> 'k list" where
  "level_keys m [] = []"
| "level_keys m ((single, cols) # ls) = (if single then [] else column_keys m cols) @ level_keys m ls"

definition mapper_keys :: "('c, 'k) history_mapper \<Rightarrow> 'k list" where
  "mapper_keys m = level_keys m (hm_levels m)"

definition fully_loaded :: "'k set \<Rightarrow> ('k, 'v) orm_object \<Rightarrow> bool" where
  "fully_loaded ks obj \<longleftrightarrow> ks \<subseteq> dom (obj_loaded obj) \<and> ks \<subseteq> dom (obj_current obj)"

lemma column_keys_Nil [simp]: "column_keys m [] = []"
  by (simp add: column_keys_def map_filter_def)

lemma column_keys_Cons:
  "column_keys m (c # cs) =
     (if hm_versioning m c then column_keys m cs
      else case hm_property m c of None \<Rightarrow> column_keys m cs | Some k \<Rightarrow> k # column_keys m cs)"
  by (simp add: column_keys_def map_filter_def split: option.splits)

lemma restrict_map_dom: "l |` dom l = l"
  by (auto simp: restrict_map_def fun_eq_iff dom_def)

lemma restrict_map_merge: "l |` A ++ l |` B = l |` (A \<union> B)"
  by (auto simp: fun_eq_iff map_add_def restrict_map_def split: option.splits)

lemma map_upd_merge: "l k = Some v \<Longrightarrow> attr(k \<mapsto> v) ++ l |` A = attr ++ l |` insert k A"
  by (auto simp: fun_eq_iff map_add_def restrict_map_def split: option.splits)

context attribute_history
begin

lemma scan_columns_eq:
  assumes "set (column_keys m cols) \<subseteq> dom l" "set (column_keys m cols) \<subseteq> dom p"
  shows "scan_columns m (get_history l p) cols (attr, ch) =
    (attr ++ (l |` set (column_keys m cols)),
     ch \<or> list_ex (\<lambda>k. l k \<noteq> p k) (column_keys m cols))"
  using assms
proof (induction cols arbitrary: attr ch)
  case Nil
  then show ?case by simp
next
  case (Cons c cs)
  show ?case
  proof (cases "hm_versioning m c \<or> hm_property m c = None")
    case True
    with Cons show ?thesis by (auto simp: column_keys_Cons)
  next
    case False
    then obtain k where k: "hm_property m c = Some k" "\<not> hm_versioning m c" by auto
    with Cons.prems obtain v w where vw: "l k = Some v" "p k = Some w"
      by (auto simp: column_keys_Cons)
    have keys: "column_keys m (c # cs) = k # column_keys m cs"
      using k by (simp add: column_keys_Cons)
    have merge: "attr(k \<mapsto> v) ++ l |` set (column_keys m cs)
        = attr ++ l |` insert k (set (column_keys m cs))"
      using vw(1) by (rule map_upd_merge)
    have IH: "scan_columns m (get_history l p) cs (attr(k \<mapsto> v), b) =
        (attr(k \<mapsto> v) ++ l |` set (column_keys m cs), b \<or> list_ex (\<lambda>k. l k \<noteq> p k) (column_keys m cs))"
      for b by (rule Cons.IH) (use Cons.prems keys in auto)
    show ?thesis
    proof (cases "v = w")
      case True
      then have "get_history l p k = ([], [v], [])" using unchanged vw by simp
      with k IH [of ch] merge keys vw True show ?thesis by simp
    next
      case False
      then have "get_history l p k = ([w], [], [v])" using changed vw by simp
      with k IH [of True] merge keys vw False show ?thesis by simp
    qed
  qed
qed

lemma scan_levels_eq:
  assumes "set (level_keys m ls) \<subseteq> dom l \<inter> dom p"
  shows "scan_levels m (get_history l p) ls (attr, ch) =
    (attr ++ (l |` set (level_keys m ls)), ch \<or> list_ex (\<lambda>k. l k \<noteq> p k) (level_keys m ls))"
  using assms
proof (induction ls arbitrary: attr ch)
  case Nil
  then show ?case by simp
next
  case (Cons lv ls)
  obtain s cols where lv: "lv = (s, cols)" by (cases lv)
  show ?case
  proof (cases s)
    case True
    with Cons lv show ?thesis by simp
  next
    case False
    with Cons.prems lv have sub: "set (column_keys m cols) \<subseteq> dom l" "set (column_keys m cols) \<subseteq> dom p"
      by auto
    show ?thesis
      using Cons lv False
      by (simp add: scan_columns_eq [OF sub] restrict_map_merge flip: map_add_assoc)
  qed
qed

lemma create_version_eq:
  assumes "fully_loaded (set (mapper_keys m)) obj"
  shows "create_version m get_history now deleted obj =
    (if list_ex (\<lambda>k. obj_loaded obj k \<noteq> obj_current obj k) (mapper_keys m)
        \<or> relationship_changed (hm_relationships m) \<or> deleted
     then (obj\<lparr>obj_version := obj_version obj + 1\<rparr>,
           Some \<lparr>hist_attrs = obj_loaded obj |` set (mapper_keys m),
                 hist_version = obj_version obj, hist_changed = now\<rparr>)
     else (obj, None))"
proof -
  have "scan_levels m (get_history (obj_loaded obj) (obj_current obj)) (hm_levels m) (Map.empty, False) =
      (obj_loaded obj |` set (mapper_keys m),
       list_ex (\<lambda>k. obj_loaded obj k \<noteq> obj_current obj k) (mapper_keys m))"
    using scan_levels_eq [of m "hm_levels m" "obj_loaded obj" "obj_current obj" Map.empty False] assms
    by (simp add: mapper_keys_def fully_loaded_def)
  then show ?thesis by (simp add: create_version_def Let_def)
qed

end

text \<open>
  The behaviour of SQLAlchemy's scalar attributes, an instance of the contract: the witnesses below
  and the examples of other theories run on it.
\<close>

definition scalar_history :: "('k, 'v) get_history" where
  "scalar_history l p k =
     (case (l k, p k) of
        (None, None) \<Rightarrow> ([], [], [])
      | (None, Some w) \<Rightarrow> ([w], [], [])
      | (Some v, None) \<Rightarrow> ([], [], [v])
      | (Some v, Some w) \<Rightarrow> if v = w then ([], [v], []) else ([w], [], [v]))"

interpretation scalar: attribute_history scalar_history
  by unfold_locales (simp_all add: scalar_history_def)

section \<open>A sequence of edits and the history it leaves\<close>

text \<open>
  One unit of work per edit: the attributes get the values of the edit, the object is flushed (the
  listener may add a history row) and its present values become the loaded ones.
\<close>

definition flush_edit ::
  "('c, 'k) history_mapper \<Rightarrow> ('k, 'v) get_history \<Rightarrow> timestamp \<Rightarrow> ('k \<rightharpoonup> 'v)
    \<Rightarrow> ('k, 'v) orm_object \<times> ('k, 'v) history_row list \<Rightarrow> ('k, 'v) orm_object \<times> ('k, 'v) history_row list"
where
  "flush_edit m gh now new s =
     (let (obj, h) = create_version m gh now False ((fst s)\<lparr>obj_current := new\<rparr>)
      in (obj\<lparr>obj_loaded := obj_current obj\<rparr>, snd s @ (case h of None \<Rightarrow> [] | Some r \<Rightarrow> [r])))"

definition flush_edits ::
  "('c, 'k) history_mapper \<Rightarrow> ('k, 'v) get_history \<Rightarrow> timestamp \<Rightarrow> ('k \<rightharpoonup> 'v) list
    \<Rightarrow> ('k, 'v) orm_object \<times> ('k, 'v) history_row list \<Rightarrow> ('k, 'v) orm_object \<times> ('k, 'v) history_row list"
where
  "flush_edits m gh now edits s = fold (flush_edit m gh now) edits s"

text \<open>The versions \<open>v, v + 1, \<dots>\<close> of \<open>n\<close> consecutive history rows.\<close>

definition versions_from :: "int \<Rightarrow> nat \<Rightarrow> int list" where
  "versions_from v n = map (\<lambda>i. v + int i) [0..<n]"

lemma versions_from_0 [simp]: "versions_from v 0 = []"
  by (simp add: versions_from_def)

lemma versions_from_Suc: "versions_from v (Suc n) = v # versions_from (v + 1) n"
  by (simp add: versions_from_def upt_conv_Cons map_Suc_upt [symmetric] del: upt_Suc)

definition plain_mapper :: "('c, 'k) history_mapper \<Rightarrow> bool" where
  "plain_mapper m \<longleftrightarrow> \<not> relationship_changed (hm_relationships m)"

definition complete_state :: "('c, 'k) history_mapper \<Rightarrow> ('k \<rightharpoonup> 'v) \<Rightarrow> bool" where
  "complete_state m st \<longleftrightarrow> dom st = set (mapper_keys m)"

lemma complete_state_neq:
  assumes "complete_state m a" "complete_state m b"
  shows "list_ex (\<lambda>k. a k \<noteq> b k) (mapper_keys m) \<longleftrightarrow> a \<noteq> b"
proof -
  have "a k = b k" if "k \<notin> set (mapper_keys m)" for k
    using assms that by (metis complete_state_def domIff)
  then show ?thesis by (auto simp: list_ex_iff fun_eq_iff)
qed

context attribute_history
begin

lemma flush_edit_step:
  assumes "plain_mapper m" "complete_state m (obj_loaded obj)" "complete_state m new"
  shows "flush_edit m get_history now new (obj, hs) =
    (if obj_loaded obj = new then (obj\<lparr>obj_loaded := new, obj_current := new\<rparr>, hs)
     else (obj\<lparr>obj_loaded := new, obj_current := new, obj_version := obj_version obj + 1\<rparr>,
           hs @ [\<lparr>hist_attrs = obj_loaded obj, hist_version = obj_version obj, hist_changed = now\<rparr>]))"
proof -
  have "fully_loaded (set (mapper_keys m)) (obj\<lparr>obj_current := new\<rparr>)"
    using assms by (simp add: fully_loaded_def complete_state_def)
  moreover have "obj_loaded obj |` set (mapper_keys m) = obj_loaded obj"
    using assms(2) restrict_map_dom [of "obj_loaded obj"] by (simp add: complete_state_def)
  ultimately show ?thesis
    using assms complete_state_neq [OF assms(2,3)]
    by (simp add: flush_edit_def create_version_eq plain_mapper_def Let_def)
qed

lemma flush_edits_history:
  assumes "plain_mapper m" "complete_state m (obj_loaded obj)"
    and "list_all (complete_state m) edits"
    and "flush_edits m get_history now edits (obj, hs) = (obj', hs')"
  shows "\<exists>new. hs' = hs @ new
    \<and> map hist_attrs new @ [obj_loaded obj'] = remdups_adj (obj_loaded obj # edits)
    \<and> map hist_version new = versions_from (obj_version obj) (length new)
    \<and> obj_version obj' = obj_version obj + int (length new)"
  using assms(2-)
proof (induction edits arbitrary: obj hs)
  case Nil
  then show ?case by (auto simp: flush_edits_def)
next
  case (Cons e es)
  show ?case
  proof (cases "obj_loaded obj = e")
    case True
    let ?o = "obj\<lparr>obj_loaded := e, obj_current := e\<rparr>"
    have "flush_edits m get_history now es (?o, hs) = (obj', hs')"
      using Cons.prems True assms(1) by (simp add: flush_edits_def flush_edit_step)
    with Cons.IH [of ?o hs] Cons.prems True show ?thesis by simp
  next
    case False
    let ?o = "obj\<lparr>obj_loaded := e, obj_current := e, obj_version := obj_version obj + 1\<rparr>"
    let ?h = "\<lparr>hist_attrs = obj_loaded obj, hist_version = obj_version obj, hist_changed = now\<rparr>"
    have "flush_edits m get_history now es (?o, hs @ [?h]) = (obj', hs')"
      using Cons.prems False assms(1) by (simp add: flush_edits_def flush_edit_step)
    with Cons.IH [of ?o "hs @ [?h]"] Cons.prems obtain new where
      new: "hs' = hs @ [?h] @ new"
        "map hist_attrs new @ [obj_loaded obj'] = remdups_adj (e # es)"
        "map hist_version new = versions_from (obj_version obj + 1) (length new)"
        "obj_version obj' = obj_version obj + 1 + int (length new)"
      by auto
    show ?thesis
      using new False by (intro exI [of _ "?h # new"]) (simp add: versions_from_Suc)
  qed
qed

end

section \<open>Properties\<close>

text \<open>Before a changed object is flushed, \<open>create_version\<close> archives exactly the values it was
  loaded with, for every column of the history tables, under the version it was loaded at, and
  raises the object's version by one; an object without a net change, without a changed
  relationship and not deleted is left alone and archives nothing.\<close>

lemma create_version_archives_loaded_state:
  assumes "attribute_history get_history" "fully_loaded (set (mapper_keys m)) obj"
  shows "create_version m get_history now deleted obj =
    (if (\<exists>k \<in> set (mapper_keys m). obj_loaded obj k \<noteq> obj_current obj k)
        \<or> relationship_changed (hm_relationships m) \<or> deleted
     then (obj\<lparr>obj_version := obj_version obj + 1\<rparr>,
           Some \<lparr>hist_attrs = obj_loaded obj |` set (mapper_keys m),
                 hist_version = obj_version obj, hist_changed = now\<rparr>)
     else (obj, None))"
  using attribute_history.create_version_eq [OF assms, of now deleted]
  by (simp add: list_ex_iff)

definition example_mapper :: "(nat, nat) history_mapper" where
  "example_mapper =
     \<lparr>hm_levels = [(False, [0, 1, 2])], hm_versioning = (\<lambda>c. c = 2), hm_property = Some,
      hm_relationships = [(False, [True])]\<rparr>"

lemma example_mapper_keys: "mapper_keys example_mapper = [0, 1]"
  by (simp add: mapper_keys_def example_mapper_def column_keys_def map_filter_def)

lemma create_version_archives_loaded_state_witness:
  "create_version example_mapper scalar_history 7 False
     \<lparr>obj_loaded = [0 \<mapsto> ''id'', 1 \<mapsto> ''before''], obj_current = [0 \<mapsto> ''id'', 1 \<mapsto> ''after''],
      obj_version = 1\<rparr> =
   (\<lparr>obj_loaded = [0 \<mapsto> ''id'', 1 \<mapsto> ''before''], obj_current = [0 \<mapsto> ''id'', 1 \<mapsto> ''after''],
      obj_version = 2\<rparr>,
    Some \<lparr>hist_attrs = [0 \<mapsto> ''id'', 1 \<mapsto> ''before''] |` {0, 1}, hist_version = 1, hist_changed = 7\<rparr>)"
proof -
  have "fully_loaded (set (mapper_keys example_mapper))
      \<lparr>obj_loaded = [0 \<mapsto> ''id'', 1 \<mapsto> ''before''], obj_current = [0 \<mapsto> ''id'', 1 \<mapsto> ''after''],
       obj_version = 1\<rparr>"
    by (simp add: fully_loaded_def example_mapper_keys)
  from create_version_archives_loaded_state [OF scalar.attribute_history_axioms this, of 7 False]
  show ?thesis by (simp add: example_mapper_keys)
qed

text \<open>C10: Over any sequence of edits of one object the history is a faithful audit log: the archived
  states followed by the final state are exactly the successive distinct states the object went
  through, and their versions are dense: \<open>v, v + 1, \<dots>\<close> up to the one before the final
  version. An edit that changes nothing leaves no row and does not move the version.\<close>

theorem history_replays_every_state:
  assumes "attribute_history get_history" "plain_mapper m"
    and "complete_state m (obj_loaded obj)" "list_all (complete_state m) edits"
    and "flush_edits m get_history now edits (obj, []) = (obj', hist)"
  shows "map hist_attrs hist @ [obj_loaded obj'] = remdups_adj (obj_loaded obj # edits)
    \<and> map hist_version hist = versions_from (obj_version obj) (length hist)
    \<and> obj_version obj' = obj_version obj + int (length hist)"
  using attribute_history.flush_edits_history [OF assms] by auto

theorem history_replays_every_state_witness:
  "\<exists>obj' hist.
     flush_edits example_mapper scalar_history 7
       [[0 \<mapsto> ''id'', 1 \<mapsto> ''b''], [0 \<mapsto> ''id'', 1 \<mapsto> ''b''], [0 \<mapsto> ''id'', 1 \<mapsto> ''c'']]
       (\<lparr>obj_loaded = [0 \<mapsto> ''id'', 1 \<mapsto> ''a''], obj_current = [0 \<mapsto> ''id'', 1 \<mapsto> ''a''],
         obj_version = 1\<rparr>, []) = (obj', hist)
     \<and> map hist_attrs hist @ [obj_loaded obj'] =
         [[0 \<mapsto> ''id'', 1 \<mapsto> ''a''], [0 \<mapsto> ''id'', 1 \<mapsto> ''b''], [0 \<mapsto> ''id'', 1 \<mapsto> ''c'']]
     \<and> map hist_version hist = [1, 2] \<and> obj_version obj' = 3"
proof -
  let ?o = "\<lparr>obj_loaded = [0 \<mapsto> ''id'', 1 \<mapsto> ''a''], obj_current = [0 \<mapsto> ''id'', 1 \<mapsto> ''a''],
         obj_version = 1\<rparr> :: (nat, string) orm_object"
  let ?es = "[[0 \<mapsto> ''id'', 1 \<mapsto> ''b''], [0 \<mapsto> ''id'', 1 \<mapsto> ''b''], [0 \<mapsto> ''id'', 1 \<mapsto> ''c'']] :: (nat \<rightharpoonup> string) list"
  obtain obj' hist where r: "flush_edits example_mapper scalar_history 7 ?es (?o, []) = (obj', hist)"
    by fastforce
  have pm: "plain_mapper example_mapper"
    by (simp add: plain_mapper_def example_mapper_def relationship_changed_def)
  have cs: "complete_state example_mapper (obj_loaded ?o)" "list_all (complete_state example_mapper) ?es"
    by (simp_all add: complete_state_def example_mapper_keys insert_commute)
  have ne: "[0 \<mapsto> ''id'', Suc 0 \<mapsto> ''a''] \<noteq> ([0 \<mapsto> ''id'', Suc 0 \<mapsto> ''b''] :: nat \<rightharpoonup> string)"
    "[0 \<mapsto> ''id'', Suc 0 \<mapsto> ''b''] \<noteq> ([0 \<mapsto> ''id'', Suc 0 \<mapsto> ''c''] :: nat \<rightharpoonup> string)"
    by (auto dest: fun_cong [of _ _ "Suc 0"])
  note h = history_replays_every_state [OF scalar.attribute_history_axioms pm cs r]
  from h have states: "map hist_attrs hist @ [obj_loaded obj'] =
      [[0 \<mapsto> ''id'', 1 \<mapsto> ''a''], [0 \<mapsto> ''id'', 1 \<mapsto> ''b''], [0 \<mapsto> ''id'', 1 \<mapsto> ''c'']]"
    using ne by simp
  then have "length (map hist_attrs hist @ [obj_loaded obj']) = 3" by simp
  then have len: "length hist = 2" by simp
  have "map hist_version hist = [1, 2]"
    using h len by (simp add: versions_from_def numeral_2_eq_2)
  moreover have "obj_version obj' = 3"
    using h len by simp
  ultimately show ?thesis
    using r states by (intro exI [of _ obj'] exI [of _ hist] conjI)
qed

text \<open>The history table copies every column of the versioned table without its unique flag,
  default and autoincrement, keeps only primary-key and foreign-key constraints, has only
  non-unique indexes, and extends the primary key by \<open>version\<close>: several versions of one row can be
  stored, and no two rows of one version.\<close>

lemma history_table_admits_every_version:
  assumes "filter (\<lambda>k. fst k = PrimaryKeyC) (tab_constraints t) = [(PrimaryKeyC, pk)]"
  shows "filter (\<lambda>k. fst k = PrimaryKeyC) (tab_constraints (history_table nm it dt t))
      = [(PrimaryKeyC, pk @ [''version''])]
    \<and> filter (\<lambda>k. fst k = UniqueC \<or> fst k = CheckC) (tab_constraints (history_table nm it dt t)) = []
    \<and> list_all (\<lambda>i. \<not> ix_unique i) (tab_indexes (history_table nm it dt t))
    \<and> list_all (\<lambda>c. \<not> col_unique c) (tab_columns (history_table nm it dt t))
    \<and> map col_name (tab_columns (history_table nm it dt t))
        = map col_name (tab_columns t) @ [''version'', ''changed'']"
proof -
  have pk: "filter (\<lambda>k. fst k = PrimaryKeyC) (extend_primary_key c ks)
      = map (\<lambda>k. (PrimaryKeyC, snd k @ [c])) (filter (\<lambda>k. fst k = PrimaryKeyC) ks)" for c ks
    by (induction c ks rule: extend_primary_key.induct) auto
  have other: "filter (\<lambda>k. fst k = UniqueC \<or> fst k = CheckC) (extend_primary_key c ks)
      = filter (\<lambda>k. fst k = UniqueC \<or> fst k = CheckC) ks" for c ks
    by (induction c ks rule: extend_primary_key.induct) auto
  have pred: "(fst k = PrimaryKeyC \<or> is_foreign (fst k)) \<and> fst k = PrimaryKeyC \<longleftrightarrow> fst k = PrimaryKeyC"
    "(fst k = PrimaryKeyC \<or> is_foreign (fst k)) \<and> (fst k = UniqueC \<or> fst k = CheckC) \<longleftrightarrow> False"
    for k :: "constraint_kind \<times> string list" by auto
  show ?thesis
    using assms
    by (simp add: history_table_def pk other pred history_index_def history_column_def
        version_column_def changed_column_def list_all_iff comp_def)
qed

lemma history_table_admits_every_version_witness:
  "filter (\<lambda>k. fst k = PrimaryKeyC) (tab_constraints (history_table (\<lambda>_ _. None) () ()
     \<lparr>tab_name = ''t'', tab_columns = [], tab_indexes = [],
      tab_constraints = [(PrimaryKeyC, [''id'']), (UniqueC, [''a'', ''b''])]\<rparr>))
   = [(PrimaryKeyC, [''id'', ''version''])]"
proof -
  let ?t = "\<lparr>tab_name = ''t'', tab_columns = [], tab_indexes = [],
      tab_constraints = [(PrimaryKeyC, [''id'']), (UniqueC, [''a'', ''b''])]\<rparr> :: unit table"
  have "filter (\<lambda>k. fst k = PrimaryKeyC) (tab_constraints ?t) = [(PrimaryKeyC, [''id''])]" by simp
  from history_table_admits_every_version [OF this, of "\<lambda>_ _. None" "()" "()"] show ?thesis by simp
qed

end
