(* ===== verification/Store.thy ===== *)
theory Store
  imports Entities VersionedHistory
begin

text \<open>
  The database the service works on: one list of rows per table, in no particular order, with the
  constraints the table definitions of \<open>domain/entities\<close> and \<open>infra/models/account.py\<close> declare,
  enforced on every write. A write of a transaction takes the transaction's view of the database and
  returns the new view or the exception; a transaction that ends with an exception leaves the
  database as it was.
\<close>

section \<open>The versioned account entity\<close>

datatype account_attr =
    At_id | At_customer_id | At_currency | At_name | At_status | At_created_at | At_updated_at
  | At_updated_by

text \<open>The attributes are finitely many, so rows of attributes can be compared.\<close>

instantiation account_attr :: enum
begin

definition "enum_account_attr = [At_id, At_customer_id, At_currency, At_name, At_status, At_created_at, At_updated_at, At_updated_by]"

definition "enum_all_account_attr P = list_all P (enum_class.enum :: account_attr list)"

definition "enum_ex_account_attr P = list_ex P (enum_class.enum :: account_attr list)"

instance
proof
  have "a \<in> set (enum_class.enum :: account_attr list)" for a by (cases a) (simp_all add: enum_account_attr_def)
  then show univ: "(UNIV :: account_attr set) = set enum_class.enum" by blast
  show "distinct (enum_class.enum :: account_attr list)" by (simp add: enum_account_attr_def)
  show "enum_class.enum_all P \<longleftrightarrow> Ball UNIV P" for P :: "account_attr \<Rightarrow> bool"
    by (simp add: enum_all_account_attr_def univ list_all_iff)
  show "enum_class.enum_ex P \<longleftrightarrow> Bex UNIV P" for P :: "account_attr \<Rightarrow> bool"
    by (simp add: enum_ex_account_attr_def univ list_ex_iff)
qed

end

datatype cell =
    V_uuid uuid
  | V_text "string option"
  | V_status customer_account_status
  | V_time timestamp

fun account_attrs :: "customer_account \<Rightarrow> account_attr \<Rightarrow> cell option" where
  "account_attrs a At_id = Some (V_uuid (a_id a))"
| "account_attrs a At_customer_id = Some (V_uuid (a_customer_id a))"
| "account_attrs a At_currency = Some (V_text (Some (a_currency a)))"
| "account_attrs a At_name = Some (V_text (a_name a))"
| "account_attrs a At_status = Some (V_status (a_status a))"
| "account_attrs a At_created_at = Some (V_time (a_created_at a))"
| "account_attrs a At_updated_at = Some (V_time (a_updated_at a))"
| "account_attrs a At_updated_by = Some (V_uuid (a_updated_by a))"

fun account_property :: "string \<Rightarrow> account_attr option" where
  "account_property c =
     (if c = ''id'' then Some At_id else if c = ''customer_id'' then Some At_customer_id
      else if c = ''currency'' then Some At_currency else if c = ''name'' then Some At_name
      else if c = ''status'' then Some At_status else if c = ''created_at'' then Some At_created_at
      else if c = ''updated_at'' then Some At_updated_at
      else if c = ''updated_by'' then Some At_updated_by else None)"

text \<open>
  The mapper of \<open>CustomerAccount\<close>: one table, the columns of its history table in order, and the
  relationship \<open>customer\<close> over the foreign key \<open>customer_id\<close>, which no operation assigns.
\<close>

definition account_mapper :: "(string, account_attr) history_mapper" where
  "account_mapper =
     \<lparr>hm_levels = [(False, [''id'', ''customer_id'', ''currency'', ''name'', ''status'',
        ''created_at'', ''updated_at'', ''updated_by'', ''version'', ''changed''])],
      hm_versioning = (\<lambda>c. c = ''version'' \<or> c = ''changed''),
      hm_property = account_property,
      hm_relationships = [(False, [True])]\<rparr>"

definition account_keys :: "account_attr list" where
  "account_keys = [At_id, At_customer_id, At_currency, At_name, At_status, At_created_at,
     At_updated_at, At_updated_by]"

lemma mapper_keys_account: "mapper_keys account_mapper = account_keys"
  by (simp add: mapper_keys_def account_mapper_def column_keys_def map_filter_def account_keys_def)

lemma set_account_keys [simp]: "set account_keys = UNIV"
proof -
  have "k \<in> set account_keys" for k by (cases k) (simp_all add: account_keys_def)
  then show ?thesis by blast
qed

lemma dom_account_attrs [simp]: "dom (account_attrs a) = UNIV"
proof -
  have "account_attrs a k \<noteq> None" for k by (cases k) simp_all
  then show ?thesis by blast
qed

lemma plain_account_mapper [simp]: "relationship_changed (hm_relationships account_mapper) = False"
  by (simp add: relationship_changed_def account_mapper_def)

lemma account_attrs_inject:
  "account_attrs a = account_attrs b \<longleftrightarrow> a\<lparr>a_version := v\<rparr> = b\<lparr>a_version := v\<rparr>"
proof
  assume eq: "account_attrs a = account_attrs b"
  have "account_attrs a k = account_attrs b k" for k using eq by simp
  from this [of At_id] this [of At_customer_id] this [of At_currency] this [of At_name]
    this [of At_status] this [of At_created_at] this [of At_updated_at] this [of At_updated_by]
  show "a\<lparr>a_version := v\<rparr> = b\<lparr>a_version := v\<rparr>" by simp
next
  assume eq: "a\<lparr>a_version := v\<rparr> = b\<lparr>a_version := v\<rparr>"
  have "account_attrs (a\<lparr>a_version := v\<rparr>) k = account_attrs a k" for a k by (cases k) simp_all
  then show "account_attrs a = account_attrs b" using eq by (metis ext)
qed

section \<open>The database\<close>

record db =
  customers :: "customer list"
  accounts :: "customer_account list"
  account_history :: "(account_attr, cell) history_row list"
  ledger :: "customer_account_ledger list"
  verified :: "customer_account_ledger_verified list"
  discrepancies :: "customer_account_ledger_discrepancy list"
  next_discrepancy_id :: int

definition empty_db :: db where
  "empty_db = \<lparr>customers = [], accounts = [], account_history = [], ledger = [], verified = [],
     discrepancies = [], next_discrepancy_id = 1\<rparr>"

section \<open>Column types\<close>

text \<open>\<open>Numeric(precision=16, scale=2)\<close>: at most 14 digits before the point; \<open>BigInteger\<close>.\<close>

definition numeric_ok :: "money \<Rightarrow> bool" where
  "numeric_ok x \<longleftrightarrow> \<bar>x\<bar> < 10 ^ 16"

definition bigint_ok :: "int \<Rightarrow> bool" where
  "bigint_ok n \<longleftrightarrow> - (2 ^ 63) \<le> n \<and> n < 2 ^ 63"

section \<open>Writes under the declared constraints\<close>

definition account_exists :: "db \<Rightarrow> uuid \<Rightarrow> bool" where
  "account_exists d i \<longleftrightarrow> list_ex (\<lambda>a. a_id a = i) (accounts d)"

definition insert_account :: "customer_account \<Rightarrow> db \<Rightarrow> exc + db" where
  "insert_account a d =
     (if list_ex (\<lambda>b. a_id b = a_id a) (accounts d)
      then Inl (IntegrityError ''pk_customer_account'')
      else if list_ex (\<lambda>b. a_customer_id b = a_customer_id a \<and> a_currency b = a_currency a) (accounts d)
      then Inl (IntegrityError ''uq_customer_account_customer_id_currency'')
      else if \<not> list_ex (\<lambda>c. c_id c = a_customer_id a) (customers d)
      then Inl (IntegrityError ''fk_customer_account_customer_id_customer'')
      else Inr (d\<lparr>accounts := accounts d @ [a]\<rparr>))"

definition insert_ledger :: "customer_account_ledger \<Rightarrow> db \<Rightarrow> exc + db" where
  "insert_ledger r d =
     (if \<not> numeric_ok (l_amount r) \<or> \<not> numeric_ok (l_balance r) \<or> \<not> bigint_ok (l_no r)
      then Inl (DataError ''customer_account_ledger'')
      else if list_ex (\<lambda>s. l_account_id s = l_account_id r \<and> l_no s = l_no r) (ledger d)
      then Inl (IntegrityError ''pk_customer_account_ledger'')
      else if list_ex (\<lambda>s. l_account_id s = l_account_id r \<and> l_operation_id s = l_operation_id r) (ledger d)
      then Inl (IntegrityError ''uq_customer_account_ledger_account_id_operation_id'')
      else if \<not> account_exists d (l_account_id r)
      then Inl (IntegrityError ''fk_customer_account_ledger_account_id_customer_account'')
      else Inr (d\<lparr>ledger := ledger d @ [r]\<rparr>))"

text \<open>
  \<open>INSERT \<dots> ON CONFLICT DO NOTHING\<close> on the key of the checkpoints and on the partial unique index
  of the open discrepancies. The identity value of a discrepancy is drawn before the conflict is
  seen, so a skipped insert uses one up.
\<close>

definition insert_verified :: "customer_account_ledger_verified \<Rightarrow> db \<Rightarrow> exc + db" where
  "insert_verified v d =
     (if \<not> numeric_ok (v_balance v) \<or> \<not> bigint_ok (v_through_no v)
      then Inl (DataError ''customer_account_ledger_verified'')
      else if list_ex (\<lambda>w. v_account_id w = v_account_id v \<and> v_through_no w = v_through_no v) (verified d)
      then Inr d
      else if \<not> account_exists d (v_account_id v)
      then Inl (IntegrityError ''fk_customer_account_ledger_verified_account_id'')
      else Inr (d\<lparr>verified := verified d @ [v]\<rparr>))"

definition is_open :: "customer_account_ledger_discrepancy \<Rightarrow> bool" where
  "is_open x \<longleftrightarrow> d_resolved_at x = None"

definition insert_discrepancy :: "customer_account_ledger_discrepancy \<Rightarrow> db \<Rightarrow> exc + db" where
  "insert_discrepancy x d =
     (if \<not> numeric_ok (d_actual_balance x) \<or> (case d_expected_balance x of None \<Rightarrow> False | Some b \<Rightarrow> \<not> numeric_ok b)
         \<or> \<not> bigint_ok (d_no x) \<or> \<not> bigint_ok (d_prev_no x)
      then Inl (DataError ''customer_account_ledger_discrepancy'')
      else if is_open x \<and> list_ex (\<lambda>y. is_open y \<and> d_account_id y = d_account_id x) (discrepancies d)
      then Inr (d\<lparr>next_discrepancy_id := next_discrepancy_id d + 1\<rparr>)
      else if \<not> account_exists d (d_account_id x)
      then Inl (IntegrityError ''fk_customer_account_ledger_discrepancy_account_id'')
      else Inr (d\<lparr>discrepancies := discrepancies d @ [x\<lparr>d_id := next_discrepancy_id d\<rparr>],
                  next_discrepancy_id := next_discrepancy_id d + 1\<rparr>))"

text \<open>A history row of an account: primary key \<open>(id, version)\<close>, foreign key on the customer.\<close>

definition insert_account_history :: "(account_attr, cell) history_row \<Rightarrow> db \<Rightarrow> exc + db" where
  "insert_account_history h d =
     (if list_ex (\<lambda>g. hist_attrs g At_id = hist_attrs h At_id \<and> hist_version g = hist_version h)
           (account_history d)
      then Inl (IntegrityError ''pk_customer_account_history'')
      else if \<not> list_ex (\<lambda>c. Some (V_uuid (c_id c)) = hist_attrs h At_customer_id) (customers d)
      then Inl (IntegrityError ''fk_customer_account_history_customer_id_customer'')
      else Inr (d\<lparr>account_history := account_history d @ [h]\<rparr>))"

section \<open>Repository reads\<close>

text \<open>\<open>infra/repository/customer.py\<close> and \<open>infra/repository/account.py\<close>.\<close>

definition customer_find_by_id :: "db \<Rightarrow> uuid \<Rightarrow> exc + customer option" where
  "customer_find_by_id d entity_id = scalar_one_or_none (filter (\<lambda>c. c_id c = entity_id) (customers d))"

definition account_find_by_id :: "db \<Rightarrow> uuid \<Rightarrow> exc + customer_account option" where
  "account_find_by_id d entity_id = scalar_one_or_none (filter (\<lambda>a. a_id a = entity_id) (accounts d))"

text \<open>
  \<open>lock_by_id\<close> reads the same row and takes its lock until the transaction ends; within one
  transaction the two queries return the same row.
\<close>

definition account_lock_by_id :: "db \<Rightarrow> uuid \<Rightarrow> exc + customer_account option" where
  "account_lock_by_id d entity_id = scalar_one_or_none (filter (\<lambda>a. a_id a = entity_id) (accounts d))"

definition find_last_ledger_entry :: "db \<Rightarrow> uuid \<Rightarrow> exc + customer_account_ledger option" where
  "find_last_ledger_entry d account_id =
     scalar_one_or_none (sql_limit 1 (order_by_desc l_no
       (filter (\<lambda>r. l_account_id r = account_id) (ledger d))))"

definition has_ledger_operation :: "db \<Rightarrow> uuid \<Rightarrow> uuid \<Rightarrow> bool" where
  "has_ledger_operation d account_id operation_id =
     list_ex (\<lambda>r. l_account_id r = account_id \<and> l_operation_id r = operation_id) (ledger d)"

section \<open>Schema invariant\<close>

text \<open>What the primary keys, unique indexes and foreign keys guarantee of a stored database.\<close>

definition account_constraints :: "db \<Rightarrow> bool" where
  "account_constraints d \<longleftrightarrow>
     distinct (map a_id (accounts d))
     \<and> distinct (map (\<lambda>a. (a_customer_id a, a_currency a)) (accounts d))
     \<and> (\<forall>a \<in> set (accounts d). list_ex (\<lambda>c. c_id c = a_customer_id a) (customers d))"

definition ledger_constraints :: "db \<Rightarrow> bool" where
  "ledger_constraints d \<longleftrightarrow>
     distinct (map (\<lambda>r. (l_account_id r, l_no r)) (ledger d))
     \<and> distinct (map (\<lambda>r. (l_account_id r, l_operation_id r)) (ledger d))
     \<and> (\<forall>r \<in> set (ledger d). account_exists d (l_account_id r) \<and> numeric_ok (l_amount r) \<and> numeric_ok (l_balance r) \<and> bigint_ok (l_no r))"

definition verified_constraints :: "db \<Rightarrow> bool" where
  "verified_constraints d \<longleftrightarrow>
     distinct (map (\<lambda>v. (v_account_id v, v_through_no v)) (verified d))
     \<and> (\<forall>v \<in> set (verified d). account_exists d (v_account_id v) \<and> numeric_ok (v_balance v) \<and> bigint_ok (v_through_no v))"

definition discrepancy_constraints :: "db \<Rightarrow> bool" where
  "discrepancy_constraints d \<longleftrightarrow>
     distinct (map d_id (discrepancies d))
     \<and> (\<forall>x \<in> set (discrepancies d). d_id x < next_discrepancy_id d)
     \<and> distinct (map d_account_id (filter is_open (discrepancies d)))"

definition db_ok :: "db \<Rightarrow> bool" where
  "db_ok d \<longleftrightarrow> distinct (map c_id (customers d)) \<and> account_constraints d \<and> ledger_constraints d
     \<and> verified_constraints d \<and> discrepancy_constraints d"

lemmas constraint_defs = db_ok_def account_constraints_def ledger_constraints_def
  verified_constraints_def discrepancy_constraints_def

lemma empty_db_ok: "db_ok empty_db"
  by (simp add: constraint_defs empty_db_def)

lemma db_okD [dest]:
  assumes "db_ok d"
  shows "distinct (map c_id (customers d))" "distinct (map a_id (accounts d))"
    "distinct (map (\<lambda>r. (l_account_id r, l_no r)) (ledger d))"
    "distinct (map (\<lambda>v. (v_account_id v, v_through_no v)) (verified d))"
  using assms by (auto simp: constraint_defs)

lemma insert_account_ok: "insert_account a d = Inr d' \<Longrightarrow> db_ok d \<Longrightarrow> db_ok d'"
  by (auto simp: insert_account_def constraint_defs distinct_map_snoc account_exists_def
      simp del: map_append split: if_splits)

lemma insert_ledger_ok: "insert_ledger r d = Inr d' \<Longrightarrow> db_ok d \<Longrightarrow> db_ok d'"
  by (auto simp: insert_ledger_def constraint_defs distinct_map_snoc account_exists_def
      simp del: map_append split: if_splits)

lemma insert_verified_ok: "insert_verified v d = Inr d' \<Longrightarrow> db_ok d \<Longrightarrow> db_ok d'"
  by (auto simp: insert_verified_def constraint_defs distinct_map_snoc account_exists_def
      simp del: map_append split: if_splits)

lemma open_snoc:
  "distinct (map d_account_id (filter is_open (xs @ [x]))) \<longleftrightarrow>
     distinct (map d_account_id (filter is_open xs))
     \<and> \<not> (is_open x \<and> list_ex (\<lambda>y. is_open y \<and> d_account_id y = d_account_id x) xs)"
  by (simp add: list_ex_iff image_iff) metis

lemma insert_discrepancy_ok:
  assumes "insert_discrepancy x d = Inr d'" "db_ok d"
  shows "db_ok d'"
proof -
  have fresh: "\<not> list_ex (\<lambda>y. d_id y = next_discrepancy_id d) (discrepancies d)"
    using assms(2) by (force simp: constraint_defs list_ex_iff)
  have "d' = d\<lparr>next_discrepancy_id := next_discrepancy_id d + 1\<rparr>
    \<or> \<not> (is_open x \<and> list_ex (\<lambda>y. is_open y \<and> d_account_id y = d_account_id x) (discrepancies d))
      \<and> d' = d\<lparr>discrepancies := discrepancies d @ [x\<lparr>d_id := next_discrepancy_id d\<rparr>],
               next_discrepancy_id := next_discrepancy_id d + 1\<rparr>"
    using assms(1) by (auto simp: insert_discrepancy_def split: if_splits)
  then show ?thesis
  proof (elim disjE conjE)
    assume "d' = d\<lparr>next_discrepancy_id := next_discrepancy_id d + 1\<rparr>"
    then show ?thesis using assms(2) by (fastforce simp: constraint_defs account_exists_def)
  next
    assume no: "\<not> (is_open x \<and> list_ex (\<lambda>y. is_open y \<and> d_account_id y = d_account_id x) (discrepancies d))"
      and d': "d' = d\<lparr>discrepancies := discrepancies d @ [x\<lparr>d_id := next_discrepancy_id d\<rparr>],
               next_discrepancy_id := next_discrepancy_id d + 1\<rparr>"
    have "is_open (x\<lparr>d_id := n\<rparr>) = is_open x" for n by (simp add: is_open_def)
    with assms(2) no fresh show ?thesis
      unfolding d'
      by (fastforce simp: constraint_defs distinct_map_snoc open_snoc account_exists_def
          simp del: map_append filter_append)
  qed
qed

lemma insert_account_history_ok: "insert_account_history h d = Inr d' \<Longrightarrow> db_ok d \<Longrightarrow> db_ok d'"
  by (auto simp: insert_account_history_def constraint_defs account_exists_def split: if_splits)

text \<open>The reads never see two rows, and what they find is what is stored.\<close>

lemma account_find_eq:
  "db_ok d \<Longrightarrow> account_find_by_id d i = Inr (find (\<lambda>a. a_id a = i) (accounts d))"
  by (simp add: account_find_by_id_def scalar_one_or_none_distinct db_okD)

lemma account_lock_eq:
  "db_ok d \<Longrightarrow> account_lock_by_id d i = Inr (find (\<lambda>a. a_id a = i) (accounts d))"
  by (simp add: account_lock_by_id_def scalar_one_or_none_distinct db_okD)

lemma customer_find_eq:
  "db_ok d \<Longrightarrow> customer_find_by_id d i = Inr (find (\<lambda>c. c_id c = i) (customers d))"
  by (simp add: customer_find_by_id_def scalar_one_or_none_distinct db_okD)

lemma account_find_Some_iff:
  "db_ok d \<Longrightarrow> account_find_by_id d i = Inr (Some a) \<longleftrightarrow> a \<in> set (accounts d) \<and> a_id a = i"
  using find_distinct_key [of a_id "accounts d" a]
  by (auto simp: account_find_eq db_okD dest: find_SomeD)

lemma account_find_None_iff:
  "db_ok d \<Longrightarrow> account_find_by_id d i = Inr None \<longleftrightarrow> i \<notin> a_id ` set (accounts d)"
  by (auto simp: account_find_eq find_None_iff)

section \<open>The ledger of one account\<close>

definition ledger_of :: "db \<Rightarrow> uuid \<Rightarrow> customer_account_ledger list" where
  "ledger_of d i = order_by l_no (filter (\<lambda>r. l_account_id r = i) (ledger d))"

lemma set_ledger_of [simp]: "set (ledger_of d i) = {r \<in> set (ledger d). l_account_id r = i}"
  by (simp add: ledger_of_def)

lemma sorted_ledger_of: "sorted (map l_no (ledger_of d i))"
  by (simp add: ledger_of_def)

lemma distinct_ledger_of: "db_ok d \<Longrightarrow> distinct (map l_no (ledger_of d i))"
  by (simp add: ledger_of_def distinct_filter_key db_okD)

lemma find_last_eq:
  assumes "db_ok d"
  shows "find_last_ledger_entry d i =
    Inr (if ledger_of d i = [] then None else Some (last (ledger_of d i)))"
proof -
  let ?rows = "filter (\<lambda>r. l_account_id r = i) (ledger d)"
  have "distinct (map l_no ?rows)"
    using assms by (intro distinct_filter_key) (auto simp: db_okD)
  then have "order_by_desc l_no ?rows = rev (ledger_of d i)"
    by (simp add: order_by_desc_rev ledger_of_def)
  then show ?thesis
    by (simp only: find_last_ledger_entry_def sql_limit_1 scalar_one_or_none_take1 hd_rev_last)
qed

lemma ledger_of_other_account:
  "l_account_id r \<noteq> i \<Longrightarrow> ledger_of (d\<lparr>ledger := ledger d @ [r]\<rparr>) i = ledger_of d i"
  by (simp add: ledger_of_def)

lemma ledger_of_append:
  assumes "db_ok d" "\<And>s. s \<in> set (ledger_of d (l_account_id r)) \<Longrightarrow> l_no s < l_no r"
  shows "ledger_of (d\<lparr>ledger := ledger d @ [r]\<rparr>) (l_account_id r) = ledger_of d (l_account_id r) @ [r]"
proof -
  have "distinct (map l_no (filter (\<lambda>s. l_account_id s = l_account_id r) (ledger d)))"
    using assms(1) by (intro distinct_filter_key) (auto simp: db_okD)
  then have "order_by l_no (filter (\<lambda>s. l_account_id s = l_account_id r) (ledger d) @ [r])
      = order_by l_no (filter (\<lambda>s. l_account_id s = l_account_id r) (ledger d)) @ [r]"
    by (rule order_by_snoc) (use assms(2) in simp)
  then show ?thesis
    by (simp add: ledger_of_def)
qed

lemma ledger_of_cong: "ledger d' = ledger d \<Longrightarrow> ledger_of d' i = ledger_of d i"
  by (simp add: ledger_of_def)

section \<open>Transactions\<close>

text \<open>
  A request, a job or a scheduled run is one transaction: committed when it returns, rolled back
  when it raises. A sequence of them runs one after the other on what the earlier ones committed.
\<close>

definition committed :: "('e \<Rightarrow> db \<Rightarrow> exc + db) \<Rightarrow> 'e \<Rightarrow> db \<Rightarrow> db" where
  "committed step e d = (case step e d of Inl _ \<Rightarrow> d | Inr d' \<Rightarrow> d')"

definition run_all :: "('e \<Rightarrow> db \<Rightarrow> exc + db) \<Rightarrow> 'e list \<Rightarrow> db \<Rightarrow> db" where
  "run_all step es d = fold (committed step) es d"

lemma run_all_Nil [simp]: "run_all step [] d = d"
  by (simp add: run_all_def)

lemma run_all_Cons [simp]: "run_all step (e # es) d = run_all step es (committed step e d)"
  by (simp add: run_all_def)

lemma run_all_append: "run_all step (es @ fs) d = run_all step fs (run_all step es d)"
  by (simp add: run_all_def)

text \<open>
  The contract every component offers to the rest of the system: its transactions keep an
  invariant. What follows for single commits and for sequences is proved once, here.
\<close>

locale transaction =
  fixes step :: "'e \<Rightarrow> db \<Rightarrow> exc + db" and inv :: "db \<Rightarrow> bool"
  assumes step_inv: "inv d \<Longrightarrow> step e d = Inr d' \<Longrightarrow> inv d'"
begin

lemma committed_inv: "inv d \<Longrightarrow> inv (committed step e d)"
  using step_inv by (auto simp: committed_def split: sum.splits)

lemma run_all_inv: "inv d \<Longrightarrow> inv (run_all step es d)"
  by (induction es arbitrary: d) (simp_all add: committed_inv)

end

text \<open>Transactions that only ever add to what a reader sees: the reader's facts stay true.\<close>

locale monotone_transaction = transaction step inv
  for step :: "'e \<Rightarrow> db \<Rightarrow> exc + db" and inv :: "db \<Rightarrow> bool" +
  fixes view :: "db \<Rightarrow> 'x set"
  assumes view_mono: "inv d \<Longrightarrow> step e d = Inr d' \<Longrightarrow> view d \<subseteq> view d'"
begin

lemma committed_mono: "inv d \<Longrightarrow> view d \<subseteq> view (committed step e d)"
  using view_mono by (auto simp: committed_def split: sum.splits)

lemma run_all_mono: "inv d \<Longrightarrow> view d \<subseteq> view (run_all step es d)"
proof (induction es arbitrary: d)
  case (Cons e es)
  then have "view (committed step e d) \<subseteq> view (run_all step (e # es) d)"
    by (simp add: committed_inv)
  with committed_mono [OF Cons.prems, of e] show ?case by blast
qed simp

end

section \<open>A small concrete database\<close>

text \<open>
  One customer with one active account: its opening row, a deposit of 25.00 and a withdrawal of
  5.00. The witnesses of the properties run on it.
\<close>

definition sample_customer :: customer where
  "sample_customer = customer_create 1 ''c@mail.com'' (Some ''customer'') Cust_ACTIVE 0 None"

definition sample_account :: customer_account where
  "sample_account = account_create 0 10 1 ''EUR'' (Some ''main'') 7"

definition sample_rows :: "customer_account_ledger list" where
  "sample_rows =
     [ledger_create 0 10 (Some 7),
      ledger_follow 1 (ledger_create 0 10 (Some 7)) 2500 Op_DEPOSIT 21 None,
      ledger_follow 2 (ledger_follow 1 (ledger_create 0 10 (Some 7)) 2500 Op_DEPOSIT 21 None)
        (-500) Op_WITHDRAWAL 22 None]"

definition sample_db :: db where
  "sample_db = empty_db\<lparr>customers := [sample_customer], accounts := [sample_account],
     ledger := sample_rows\<rparr>"

lemmas sample_defs = sample_db_def sample_rows_def sample_account_def sample_customer_def empty_db_def

lemma sample_db_sel [simp]:
  "customers sample_db = [sample_customer]" "accounts sample_db = [sample_account]"
  "ledger sample_db = sample_rows" "verified sample_db = []" "discrepancies sample_db = []"
  "account_history sample_db = []" "next_discrepancy_id sample_db = 1"
  by (simp_all add: sample_db_def empty_db_def)

lemma sample_account_sel [simp]:
  "a_id sample_account = 10" "a_status sample_account = Acc_ACTIVE" "a_version sample_account = 1"
  by (simp_all add: sample_account_def)

lemma sample_db_ok: "db_ok sample_db"
  by (simp add: constraint_defs sample_defs customer_create_def numeric_ok_def bigint_ok_def account_exists_def)

lemma sample_ledger_of: "ledger_of sample_db 10 = sample_rows"
  by (simp add: ledger_of_def sample_defs order_by_def)

end
