(* ===== verification/Payments.thy ===== *)
theory Payments
  imports Store
begin

text \<open>
  The payment path: the \<open>payment.create\<close> job of \<open>app/consumers/entrypoints/main.py\<close> with the
  repository reads it makes, the ledger chain it maintains and the wallet it implements.
\<close>

section \<open>The command and its transaction\<close>

record create_payment =
  p_id :: uuid
  p_account_id :: uuid
  p_type :: ledger_operation_type
  p_signed_amount :: money
  p_occurred_at :: timestamp

text \<open>
  The body of \<open>on_create_payment\<close> after the payload is decoded: one transaction, which an exception
  rolls back.
\<close>

definition apply_payment :: "timestamp \<Rightarrow> create_payment \<Rightarrow> db \<Rightarrow> exc + db" where
  "apply_payment now event d =
     (case account_lock_by_id d (p_account_id event) of
        Inl e \<Rightarrow> Inl e
      | Inr None \<Rightarrow> Inl (RetryRequested None (AccountNotFound (p_account_id event)))
      | Inr (Some account) \<Rightarrow>
          if a_status account \<noteq> Acc_ACTIVE
          then Inl (TerminalJobError (AccountNotActive (p_account_id event)))
          else if has_ledger_operation d (p_account_id event) (p_id event)
          then Inr d
          else case find_last_ledger_entry d (p_account_id event) of
            Inl e \<Rightarrow> Inl e
          | Inr None \<Rightarrow> Inl (TerminalJobError (LedgerNotFound (p_account_id event)))
          | Inr (Some previous) \<Rightarrow>
              let balance_after = l_balance previous + p_signed_amount event
              in if balance_after < 0
                 then Inl (TerminalJobError (InsufficientFunds (p_account_id event) (p_id event) \<bar>balance_after\<bar>))
                 else insert_ledger
                   (ledger_follow now previous (p_signed_amount event) (p_type event) (p_id event) None) d)"

text \<open>The command as a transaction, with the moment it runs at.\<close>

fun payment_tx :: "timestamp \<times> create_payment \<Rightarrow> db \<Rightarrow> exc + db" where
  "payment_tx (now, event) d = apply_payment now event d"

section \<open>The chain\<close>

text \<open>
  The invariant of the ledger as \<open>ledger_verification.py\<close> states it: after a row with number
  \<open>n\<close> and balance \<open>b\<close> comes number \<open>n + 1\<close>, and its balance is \<open>b\<close> plus its amount.
\<close>

fun chain :: "int \<Rightarrow> money \<Rightarrow> customer_account_ledger list \<Rightarrow> bool" where
  "chain n b [] = True"
| "chain n b (r # rs) = (l_no r = n + 1 \<and> l_balance r = b + l_amount r \<and> chain (l_no r) (l_balance r) rs)"

text \<open>Number and balance of the last row of a list, or of the anchor before it.\<close>

fun tail_of :: "int \<Rightarrow> money \<Rightarrow> customer_account_ledger list \<Rightarrow> int \<times> money" where
  "tail_of n b [] = (n, b)"
| "tail_of n b (r # rs) = tail_of (l_no r) (l_balance r) rs"

definition ledger_intact :: "db \<Rightarrow> uuid \<Rightarrow> bool" where
  "ledger_intact d i \<longleftrightarrow> chain 0 0 (ledger_of d i)"

definition all_intact :: "db \<Rightarrow> bool" where
  "all_intact d \<longleftrightarrow> (\<forall>i. ledger_intact d i)"

definition solvent :: "db \<Rightarrow> bool" where
  "solvent d \<longleftrightarrow> (\<forall>r \<in> set (ledger d). 0 \<le> l_balance r)"

lemma chain_append:
  "chain n b (xs @ ys) \<longleftrightarrow> chain n b xs \<and> chain (fst (tail_of n b xs)) (snd (tail_of n b xs)) ys"
  by (induction xs arbitrary: n b) auto

lemma tail_of_append: "tail_of n b (xs @ ys) = tail_of (fst (tail_of n b xs)) (snd (tail_of n b xs)) ys"
  by (induction xs arbitrary: n b) auto

lemma tail_of_last: "xs \<noteq> [] \<Longrightarrow> tail_of n b xs = (l_no (last xs), l_balance (last xs))"
  by (induction xs arbitrary: n b) auto

lemma chain_numbers: "chain n b xs \<Longrightarrow> map l_no xs = map (\<lambda>k. n + 1 + int k) [0..<length xs]"
proof (induction xs arbitrary: n b)
  case Nil
  then show ?case by simp
next
  case (Cons r rs)
  then have "map l_no rs = map (\<lambda>k. n + 1 + 1 + int k) [0..<length rs]"
    by (metis chain.simps(2))
  moreover have "[0..<Suc (length rs)] = 0 # map Suc [0..<length rs]"
    by (metis map_Suc_upt upt_conv_Cons zero_less_Suc)
  ultimately show ?case using Cons.prems by (simp add: comp_def del: upt_Suc)
qed

lemma chain_tail:
  "chain n b xs \<Longrightarrow> tail_of n b xs = (n + int (length xs), b + sum_list (map l_amount xs))"
  by (induction xs arbitrary: n b) auto

lemma chain_no_bounds: "chain n b xs \<Longrightarrow> r \<in> set xs \<Longrightarrow> n < l_no r \<and> l_no r \<le> n + int (length xs)"
  by (induction xs arbitrary: n b) fastforce+

section \<open>What one command does\<close>

lemma insert_ledger_Inr:
  "insert_ledger r d = Inr d' \<Longrightarrow> d' = d\<lparr>ledger := ledger d @ [r]\<rparr>"
  by (auto simp: insert_ledger_def split: if_splits)

lemma apply_payment_eq:
  assumes "db_ok d"
  shows "apply_payment now event d =
     (case find (\<lambda>a. a_id a = p_account_id event) (accounts d) of
        None \<Rightarrow> Inl (RetryRequested None (AccountNotFound (p_account_id event)))
      | Some account \<Rightarrow>
          if a_status account \<noteq> Acc_ACTIVE
          then Inl (TerminalJobError (AccountNotActive (p_account_id event)))
          else if has_ledger_operation d (p_account_id event) (p_id event) then Inr d
          else if ledger_of d (p_account_id event) = []
          then Inl (TerminalJobError (LedgerNotFound (p_account_id event)))
          else let previous = last (ledger_of d (p_account_id event));
                   balance_after = l_balance previous + p_signed_amount event
              in if balance_after < 0
                 then Inl (TerminalJobError (InsufficientFunds (p_account_id event) (p_id event) \<bar>balance_after\<bar>))
                 else insert_ledger
                   (ledger_follow now previous (p_signed_amount event) (p_type event) (p_id event) None) d)"
  using assms by (simp add: apply_payment_def account_lock_eq find_last_eq Let_def split: option.splits)

lemma last_ledger_of:
  assumes "ledger_of d i \<noteq> []"
  shows "last (ledger_of d i) \<in> set (ledger d)" "l_account_id (last (ledger_of d i)) = i"
  using last_in_set [OF assms] by auto

lemma ledger_of_last_greatest:
  assumes "db_ok d" "r \<in> set (ledger_of d i)"
  shows "l_no r \<le> l_no (last (ledger_of d i))"
proof -
  have "ledger_of d i \<noteq> []" using assms(2) by (metis empty_iff empty_set)
  then obtain ys y where ys: "ledger_of d i = ys @ [y]" by (metis rev_exhaust)
  have "\<forall>x \<in> set ys. l_no x \<le> l_no y"
    using sorted_ledger_of [of d i] ys by (auto simp: sorted_append)
  then show ?thesis using assms(2) ys by auto
qed

text \<open>
  A successful command either was applied before, or appends exactly one row that follows the last
  one of its account.
\<close>

lemma apply_payment_cases:
  assumes "db_ok d" "apply_payment now event d = Inr d'"
  obtains (duplicate) "has_ledger_operation d (p_account_id event) (p_id event)" "d' = d"
  | (appended) previous where
      "\<not> has_ledger_operation d (p_account_id event) (p_id event)"
      "ledger_of d (p_account_id event) \<noteq> []" "previous = last (ledger_of d (p_account_id event))"
      "0 \<le> l_balance previous + p_signed_amount event"
      "d' = d\<lparr>ledger := ledger d @ [ledger_follow now previous (p_signed_amount event) (p_type event) (p_id event) None]\<rparr>"
      "insert_ledger (ledger_follow now previous (p_signed_amount event) (p_type event) (p_id event) None) d = Inr d'"
proof -
  from assms(2) show thesis
    unfolding apply_payment_eq [OF assms(1)]
    by (auto simp: Let_def split: option.splits if_splits
        intro: duplicate appended dest: insert_ledger_Inr)
qed

lemma apply_payment_ok:
  assumes "db_ok d" "apply_payment now event d = Inr d'"
  shows "db_ok d'"
  using assms
proof (cases rule: apply_payment_cases)
  case (appended previous)
  then show ?thesis using assms(1) insert_ledger_ok by blast
qed (use assms in simp)

lemma apply_payment_ledger_of:
  assumes "db_ok d" "\<not> has_ledger_operation d (p_account_id event) (p_id event)"
    and "apply_payment now event d = Inr d'"
  shows "ledger_of d' i =
    (if i = p_account_id event
     then ledger_of d i @ [ledger_follow now (last (ledger_of d i)) (p_signed_amount event) (p_type event) (p_id event) None]
     else ledger_of d i)"
  using assms(1,3)
proof (cases rule: apply_payment_cases)
  case duplicate
  with assms(2) show ?thesis by simp
next
  case (appended previous)
  let ?r = "ledger_follow now previous (p_signed_amount event) (p_type event) (p_id event) None"
  have acc: "l_account_id ?r = p_account_id event"
    using appended(2,3) last_ledger_of by simp
  have "l_no s < l_no ?r" if "s \<in> set (ledger_of d (l_account_id ?r))" for s
    using ledger_of_last_greatest [OF assms(1), of s "p_account_id event"] that acc appended(3) by simp
  from ledger_of_append [OF assms(1) this] show ?thesis
    using acc appended(3,5) ledger_of_other_account [of ?r i d] by auto
qed

lemma apply_payment_intact:
  assumes "db_ok d" "apply_payment now event d = Inr d'" "ledger_intact d i"
  shows "ledger_intact d' i"
proof (cases "has_ledger_operation d (p_account_id event) (p_id event)")
  case True
  from assms(1,2) show ?thesis
    by (cases rule: apply_payment_cases) (use True assms(3) in auto)
next
  case False
  from assms(1,2) show ?thesis
  proof (cases rule: apply_payment_cases)
    case (appended previous)
    then show ?thesis
      using assms(3) apply_payment_ledger_of [OF assms(1) False assms(2), of i]
      by (auto simp: ledger_intact_def chain_append tail_of_last)
  qed (use assms(3) in simp)
qed

lemma apply_payment_recorded:
  assumes "db_ok d" "apply_payment now event d = Inr d'"
  shows "has_ledger_operation d' (p_account_id event) (p_id event)"
  using assms
proof (cases rule: apply_payment_cases)
  case (appended previous)
  then have "l_account_id previous = p_account_id event" using last_ledger_of by simp
  then show ?thesis using appended(5) by (simp add: has_ledger_operation_def)
qed simp

lemma apply_payment_solvent:
  assumes "db_ok d" "apply_payment now event d = Inr d'" "solvent d"
  shows "solvent d'"
  using assms(1,2) by (cases rule: apply_payment_cases) (use assms(3) in \<open>auto simp: solvent_def\<close>)

lemma apply_payment_frame:
  assumes "db_ok d" "apply_payment now event d = Inr d'"
  shows "customers d' = customers d" "accounts d' = accounts d" "verified d' = verified d"
    "discrepancies d' = discrepancies d" "account_history d' = account_history d"
    "next_discrepancy_id d' = next_discrepancy_id d"
    "set (ledger d) \<subseteq> set (ledger d')"
proof -
  obtain rs where "d' = d\<lparr>ledger := ledger d @ rs\<rparr>"
    using assms
  proof (cases rule: apply_payment_cases)
    case duplicate
    then show ?thesis using that [of "[]"] by simp
  qed (use that in blast)
  then show "customers d' = customers d" "accounts d' = accounts d" "verified d' = verified d"
    "discrepancies d' = discrepancies d" "account_history d' = account_history d"
    "next_discrepancy_id d' = next_discrepancy_id d"
    "set (ledger d) \<subseteq> set (ledger d')"
    by simp_all
qed

section \<open>The transaction contract\<close>

interpretation payment: transaction payment_tx "\<lambda>d. db_ok d \<and> solvent d"
  by unfold_locales (auto simp: apply_payment_ok apply_payment_solvent)

interpretation payment_chain: transaction payment_tx "\<lambda>d. db_ok d \<and> ledger_intact d i" for i
  by unfold_locales (auto simp: apply_payment_ok apply_payment_intact)

interpretation payment_rows: monotone_transaction payment_tx db_ok "\<lambda>d. set (ledger d)"
  by unfold_locales (auto dest: apply_payment_ok apply_payment_frame(7))

interpretation payment_accounts: transaction payment_tx "\<lambda>d. db_ok d \<and> accounts d = as" for as
  by unfold_locales (auto simp: apply_payment_ok dest: apply_payment_frame(2))

lemma run_payments_facts:
  assumes "db_ok d"
  shows "db_ok (run_all payment_tx es d)" "accounts (run_all payment_tx es d) = accounts d"
    "set (ledger d) \<subseteq> set (ledger (run_all payment_tx es d))"
  using payment_accounts.run_all_inv [of d "accounts d" es] payment_rows.run_all_mono [of d es] assms
  by simp_all

section \<open>The wallet a ledger implements\<close>

text \<open>
  What a ledger promises its account: a number of movements, a balance, and the operations that
  have been applied, each at most once. \<open>wallet_apply\<close> is the specification of a payment on an
  active account: a repeated operation changes nothing, an overdraft or a value the columns cannot
  hold is refused, anything else moves the balance by the signed amount.
\<close>

record wallet =
  w_rows :: int
  w_balance :: money
  w_operations :: "uuid set"

definition wallet_of :: "db \<Rightarrow> uuid \<Rightarrow> wallet" where
  "wallet_of d i =
     \<lparr>w_rows = int (length (ledger_of d i)),
      w_balance = snd (tail_of 0 0 (ledger_of d i)),
      w_operations = l_operation_id ` set (ledger_of d i)\<rparr>"

definition wallet_apply :: "create_payment \<Rightarrow> wallet \<Rightarrow> exc + wallet" where
  "wallet_apply event w =
     (if p_id event \<in> w_operations w then Inr w
      else if w_balance w + p_signed_amount event < 0
      then Inl (TerminalJobError (InsufficientFunds (p_account_id event) (p_id event)
             \<bar>w_balance w + p_signed_amount event\<bar>))
      else if \<not> numeric_ok (p_signed_amount event) \<or> \<not> numeric_ok (w_balance w + p_signed_amount event)
              \<or> \<not> bigint_ok (w_rows w + 1)
      then Inl (DataError ''customer_account_ledger'')
      else Inr \<lparr>w_rows = w_rows w + 1, w_balance = w_balance w + p_signed_amount event,
                w_operations = insert (p_id event) (w_operations w)\<rparr>)"

lemma has_operation_wallet:
  "has_ledger_operation d i oid \<longleftrightarrow> oid \<in> w_operations (wallet_of d i)"
  by (auto simp: has_ledger_operation_def wallet_of_def list_ex_iff)

lemma intact_last:
  assumes "ledger_intact d i" "ledger_of d i \<noteq> []"
  shows "l_no (last (ledger_of d i)) = w_rows (wallet_of d i)"
    "l_balance (last (ledger_of d i)) = w_balance (wallet_of d i)"
  using assms chain_tail [of 0 0 "ledger_of d i"] tail_of_last [OF assms(2), of 0 0]
  by (simp_all add: ledger_intact_def wallet_of_def)

lemma insert_ledger_fresh:
  assumes "db_ok d" "account_exists d (l_account_id r)"
    and "\<not> has_ledger_operation d (l_account_id r) (l_operation_id r)"
    and "\<And>s. s \<in> set (ledger_of d (l_account_id r)) \<Longrightarrow> l_no s < l_no r"
  shows "insert_ledger r d =
    (if \<not> numeric_ok (l_amount r) \<or> \<not> numeric_ok (l_balance r) \<or> \<not> bigint_ok (l_no r)
     then Inl (DataError ''customer_account_ledger'') else Inr (d\<lparr>ledger := ledger d @ [r]\<rparr>))"
  using assms by (force simp: insert_ledger_def has_ledger_operation_def list_ex_iff)

lemma payment_row_accepted:
  assumes "db_ok d" "ledger_intact d i" "ledger_of d i \<noteq> []" "account_exists d i"
    and "\<not> has_ledger_operation d i oid"
  shows "insert_ledger (ledger_follow now (last (ledger_of d i)) amt ty oid None) d =
    (if \<not> numeric_ok amt \<or> \<not> numeric_ok (w_balance (wallet_of d i) + amt) \<or> \<not> bigint_ok (w_rows (wallet_of d i) + 1)
     then Inl (DataError ''customer_account_ledger'')
     else Inr (d\<lparr>ledger := ledger d @ [ledger_follow now (last (ledger_of d i)) amt ty oid None]\<rparr>))"
proof -
  let ?r = "ledger_follow now (last (ledger_of d i)) amt ty oid None"
  have acc: "l_account_id ?r = i" using last_ledger_of [OF assms(3)] by simp
  have "l_no s < l_no ?r" if "s \<in> set (ledger_of d (l_account_id ?r))" for s
    using ledger_of_last_greatest [OF assms(1), of s i] that acc by simp
  from insert_ledger_fresh [OF assms(1) _ _ this] show ?thesis
    using acc assms(4,5) intact_last [OF assms(2,3)] by simp
qed

lemma wallet_of_appended:
  assumes "ledger_of d' i = ledger_of d i @ [r]"
  shows "wallet_of d' i = \<lparr>w_rows = w_rows (wallet_of d i) + 1, w_balance = l_balance r,
    w_operations = insert (l_operation_id r) (w_operations (wallet_of d i))\<rparr>"
  using assms by (simp add: wallet_of_def tail_of_append del: set_ledger_of)

lemma apply_payment_wallet:
  assumes "db_ok d" "a \<in> set (accounts d)" "a_id a = p_account_id event" "a_status a = Acc_ACTIVE"
    and "ledger_intact d (p_account_id event)" "ledger_of d (p_account_id event) \<noteq> []"
  shows "map_sum id (\<lambda>d'. wallet_of d' (p_account_id event)) (apply_payment now event d)
    = wallet_apply event (wallet_of d (p_account_id event))"
proof -
  let ?i = "p_account_id event"
  let ?row = "ledger_follow now (last (ledger_of d ?i)) (p_signed_amount event) (p_type event) (p_id event) None"
  have found: "find (\<lambda>b. a_id b = ?i) (accounts d) = Some a"
    using find_distinct_key [OF db_okD(2) [OF assms(1)] assms(2)] assms(3) by simp
  have exists: "account_exists d ?i"
    using assms(2,3) by (auto simp: account_exists_def list_ex_iff)
  note last = intact_last [OF assms(5,6)]
  show ?thesis
  proof (cases "has_ledger_operation d ?i (p_id event)")
    case True
    then show ?thesis
      using found assms(4) by (simp add: apply_payment_eq [OF assms(1)] wallet_apply_def has_operation_wallet)
  next
    case False
    let ?w = "wallet_of d ?i" and ?amt = "p_signed_amount event"
    let ?d' = "d\<lparr>ledger := ledger d @ [?row]\<rparr>"
    have run: "apply_payment now event d =
        (if w_balance ?w + ?amt < 0
         then Inl (TerminalJobError (InsufficientFunds ?i (p_id event) \<bar>w_balance ?w + ?amt\<bar>))
         else if \<not> numeric_ok ?amt \<or> \<not> numeric_ok (w_balance ?w + ?amt) \<or> \<not> bigint_ok (w_rows ?w + 1)
         then Inl (DataError ''customer_account_ledger'') else Inr ?d')"
      using found assms(4,6) False last payment_row_accepted [OF assms(1,5,6) exists False]
      by (simp add: apply_payment_eq [OF assms(1)] Let_def)
    have acc: "l_account_id ?row = ?i"
      using last_ledger_of [OF assms(6)] by simp
    have "ledger_of ?d' (l_account_id ?row) = ledger_of d (l_account_id ?row) @ [?row]"
      by (rule ledger_of_append [OF assms(1)])
        (use ledger_of_last_greatest [OF assms(1), of _ ?i] acc in fastforce)
    then have "wallet_of ?d' ?i = \<lparr>w_rows = w_rows ?w + 1, w_balance = w_balance ?w + ?amt,
        w_operations = insert (p_id event) (w_operations ?w)\<rparr>"
      using wallet_of_appended [of ?d' ?i d ?row] acc last by simp
    then show ?thesis
      using False by (simp add: run wallet_apply_def has_operation_wallet)
  qed
qed

section \<open>Properties\<close>

text \<open>C1: The payment job implements the wallet: on an active account whose ledger is intact and has
  its opening row, running the job and then reading the wallet gives exactly what the specification
  gives on the wallet read before, in every case: a repeated operation, insufficient funds, a value
  the columns cannot hold, and the accepted movement.\<close>

theorem payment_implements_wallet:
  assumes "db_ok d" "a \<in> set (accounts d)" "a_id a = p_account_id event" "a_status a = Acc_ACTIVE"
    and "ledger_intact d (p_account_id event)" "ledger_of d (p_account_id event) \<noteq> []"
  shows "map_sum id (\<lambda>d'. wallet_of d' (p_account_id event)) (apply_payment now event d)
    = wallet_apply event (wallet_of d (p_account_id event))"
  by (rule apply_payment_wallet [OF assms])

definition sample_payment :: "uuid \<Rightarrow> money \<Rightarrow> create_payment" where
  "sample_payment oid amt = \<lparr>p_id = oid, p_account_id = 10, p_type = Op_WITHDRAWAL,
     p_signed_amount = amt, p_occurred_at = 3\<rparr>"

lemma sample_payment_sel [simp]:
  "p_id (sample_payment oid amt) = oid" "p_account_id (sample_payment oid amt) = 10"
  "p_type (sample_payment oid amt) = Op_WITHDRAWAL" "p_signed_amount (sample_payment oid amt) = amt"
  by (simp_all add: sample_payment_def)

lemma sample_intact: "ledger_intact sample_db 10"
  by (simp add: ledger_intact_def sample_ledger_of sample_rows_def)

lemma sample_all_intact: "all_intact sample_db"
proof -
  have "ledger_of sample_db i = []" if "i \<noteq> 10" for i
    using that by (simp add: ledger_of_def sample_defs order_by_def)
  then have "ledger_intact sample_db i" for i
    using sample_intact by (cases "i = 10") (simp_all add: ledger_intact_def)
  then show ?thesis
    by (simp add: all_intact_def)
qed

lemma sample_solvent: "solvent sample_db"
  by (simp add: solvent_def sample_rows_def)

theorem payment_implements_wallet_witness:
  "map_sum id (\<lambda>d'. wallet_of d' 10) (apply_payment 4 (sample_payment 23 (-1500)) sample_db)
     = Inr \<lparr>w_rows = 4, w_balance = 500, w_operations = {10, 21, 22, 23}\<rparr>
   \<and> map_sum id (\<lambda>d'. wallet_of d' 10) (apply_payment 4 (sample_payment 23 (-2001)) sample_db)
     = Inl (TerminalJobError (InsufficientFunds 10 23 1))"
proof -
  have run: "map_sum id (\<lambda>d'. wallet_of d' 10) (apply_payment 4 (sample_payment 23 amt) sample_db)
      = wallet_apply (sample_payment 23 amt) (wallet_of sample_db 10)" for amt
    using payment_implements_wallet [of sample_db sample_account "sample_payment 23 amt" 4]
    by (simp add: sample_db_ok sample_intact sample_ledger_of sample_rows_def)
  have w: "wallet_of sample_db 10 = \<lparr>w_rows = 3, w_balance = 2000, w_operations = {10, 21, 22}\<rparr>"
    by (simp add: wallet_of_def sample_ledger_of sample_rows_def del: set_ledger_of)
  show ?thesis
    unfolding run w by (simp add: wallet_apply_def numeric_ok_def bigint_ok_def insert_commute)
qed

text \<open>C2: Whatever commands arrive, in whatever order and however often, after any sequence of payment
  jobs every ledger that was intact still is (numbered without a gap, each balance its predecessor's
  plus the row's amount), no balance is negative, and every table constraint holds.\<close>

theorem payments_keep_ledgers_intact:
  assumes "db_ok d" "all_intact d" "solvent d"
  shows "db_ok (run_all payment_tx es d) \<and> all_intact (run_all payment_tx es d)
    \<and> solvent (run_all payment_tx es d)"
  using assms payment.run_all_inv [of d es] payment_chain.run_all_inv [of d _ es]
  by (simp add: all_intact_def)

theorem payments_keep_ledgers_intact_witness:
  "let d = run_all payment_tx [(4, sample_payment 23 (-1500)), (5, sample_payment 24 (-9999)),
       (6, sample_payment 23 (-1500))] sample_db
   in db_ok d \<and> all_intact d \<and> solvent d"
  unfolding Let_def
  by (rule payments_keep_ledgers_intact [OF sample_db_ok sample_all_intact sample_solvent])

text \<open>Once a payment has been applied, redelivering it is a no-op, no matter how many other
  payments ran in between: the job returns normally and the database does not change.\<close>

lemma redelivered_payment_is_noop:
  assumes "db_ok d" "apply_payment now event d = Inr d'"
  shows "apply_payment later event (run_all payment_tx es d') = Inr (run_all payment_tx es d')"
proof -
  let ?i = "p_account_id event" and ?e = "run_all payment_tx es d'"
  have ok': "db_ok d'" and acc': "accounts d' = accounts d"
    using apply_payment_ok apply_payment_frame(2) assms by blast+
  have "has_ledger_operation d' ?i (p_id event)"
    by (rule apply_payment_recorded [OF assms])
  then have dup: "has_ledger_operation ?e ?i (p_id event)"
    using run_payments_facts(3) [OF ok', of es] by (auto simp: has_ledger_operation_def list_ex_iff)
  from assms(2) obtain a where "find (\<lambda>b. a_id b = ?i) (accounts d) = Some a" "a_status a = Acc_ACTIVE"
    by (auto simp: apply_payment_eq [OF assms(1)] split: option.splits if_splits)
  then show ?thesis
    using dup run_payments_facts(1,2) [OF ok', of es] acc' by (simp add: apply_payment_eq)
qed

lemma sample_apply:
  "apply_payment 4 (sample_payment 23 (-1500)) sample_db =
    Inr (sample_db\<lparr>ledger := sample_rows @
      [ledger_follow 4 (last sample_rows) (-1500) Op_WITHDRAWAL 23 None]\<rparr>)"
  by (simp add: apply_payment_eq [OF sample_db_ok] sample_ledger_of has_ledger_operation_def
      sample_rows_def insert_ledger_def numeric_ok_def bigint_ok_def account_exists_def Let_def)

lemma redelivered_payment_is_noop_witness:
  "let d = run_all payment_tx [(5, sample_payment 24 (-100))] (sample_db\<lparr>ledger := sample_rows @
      [ledger_follow 4 (last sample_rows) (-1500) Op_WITHDRAWAL 23 None]\<rparr>)
   in apply_payment 9 (sample_payment 23 (-1500)) d = Inr d"
  using redelivered_payment_is_noop [OF sample_db_ok sample_apply] by (simp only: Let_def)

text \<open>In an intact ledger the rows carry the numbers 1 to n, and the last stored balance is the
  sum of all amounts: the running balance can replace the sum over the movements.\<close>

lemma intact_ledger_sums_up:
  assumes "ledger_intact d i" "ledger_of d i \<noteq> []"
  shows "map l_no (ledger_of d i) = map (\<lambda>k. 1 + int k) [0..<length (ledger_of d i)]
    \<and> l_balance (last (ledger_of d i)) = (\<Sum>r \<leftarrow> ledger_of d i. l_amount r)"
  using assms chain_numbers [of 0 0 "ledger_of d i"] chain_tail [of 0 0 "ledger_of d i"]
    tail_of_last [OF assms(2), of 0 0]
  by (simp add: ledger_intact_def)

lemma intact_ledger_sums_up_witness:
  "l_balance (last (ledger_of sample_db 10)) = (\<Sum>r \<leftarrow> ledger_of sample_db 10. l_amount r)
   \<and> ledger_of sample_db 10 \<noteq> []"
  using intact_ledger_sums_up [OF sample_intact] by (simp add: sample_ledger_of sample_rows_def)

text \<open>The job's failures are exactly these, each leaving the database as it was: an unknown account
  asks for a retry, an account that is not active, has no ledger or lacks the funds ends the job for
  good, and a value outside the columns' range is the driver's error.\<close>

lemma payment_failure_reasons:
  assumes "db_ok d" "apply_payment now event d = Inl e"
  shows "(\<forall>a \<in> set (accounts d). a_id a \<noteq> p_account_id event)
      \<and> e = RetryRequested None (AccountNotFound (p_account_id event))
    \<or> (\<exists>a \<in> set (accounts d). a_id a = p_account_id event
      \<and> (a_status a \<noteq> Acc_ACTIVE \<and> e = TerminalJobError (AccountNotActive (p_account_id event))
        \<or> a_status a = Acc_ACTIVE \<and> \<not> has_ledger_operation d (p_account_id event) (p_id event)
          \<and> (ledger_of d (p_account_id event) = []
              \<and> e = TerminalJobError (LedgerNotFound (p_account_id event))
            \<or> ledger_of d (p_account_id event) \<noteq> []
              \<and> (let after = l_balance (last (ledger_of d (p_account_id event))) + p_signed_amount event
                 in after < 0 \<and> e = TerminalJobError (InsufficientFunds (p_account_id event) (p_id event) \<bar>after\<bar>)
                  \<or> 0 \<le> after \<and> insert_ledger (ledger_follow now (last (ledger_of d (p_account_id event)))
                        (p_signed_amount event) (p_type event) (p_id event) None) d = Inl e))))"
proof (cases "find (\<lambda>a. a_id a = p_account_id event) (accounts d)")
  case None
  then have "e = RetryRequested None (AccountNotFound (p_account_id event))"
    using assms(2) by (simp add: apply_payment_eq [OF assms(1)])
  then show ?thesis
    using None by (auto simp: find_None_iff)
next
  case (Some a)
  then have a: "a \<in> set (accounts d)" "a_id a = p_account_id event" by (auto dest: find_SomeD)
  show ?thesis
    by (rule disjI2, rule bexI [OF _ a(1)])
      (use assms(2) Some a in \<open>auto simp: apply_payment_eq [OF assms(1)] Let_def split: if_splits\<close>)
qed

lemma payment_failure_reasons_witness:
  "apply_payment 4 (sample_payment 23 (-2001)) sample_db =
     Inl (TerminalJobError (InsufficientFunds 10 23 1))
   \<and> l_balance (last (ledger_of sample_db 10)) + (-2001) < 0"
proof -
  let ?e = "TerminalJobError (InsufficientFunds 10 23 1)"
  have "apply_payment 4 (sample_payment 23 (-2001)) sample_db = Inl ?e"
    by (simp add: apply_payment_eq [OF sample_db_ok] sample_ledger_of has_ledger_operation_def
        sample_rows_def Let_def)
  from payment_failure_reasons [OF sample_db_ok this] this show ?thesis
    by (simp add: sample_ledger_of sample_rows_def)
qed

end
