(* ===== verification/Verifier.thy ===== *)
theory Verifier
  imports Payments "HOL-Library.Option_ord"
begin

text \<open>
  Ledger verification: the batch query and the repository of
  \<open>infra/repository/ledger_verification.py\<close>, the result row of \<open>app/dto/main.py\<close> and the
  scheduled run of \<open>app/consumers/schedulers/main.py\<close>. The query is modelled one definition per
  common table expression; its \<open>PARTITION BY t.account_id\<close> is the block of rows one target
  contributes, for the accounts of the targets are distinct.
\<close>

section \<open>The batch query\<close>

definition coalesce :: "'a option \<Rightarrow> 'a \<Rightarrow> 'a" where
  "coalesce x y = (case x of None \<Rightarrow> y | Some z \<Rightarrow> z)"

lemma coalesce_simps [simp]: "coalesce None y = y" "coalesce (Some z) y = z"
  by (simp_all add: coalesce_def)

record verify_params =
  accounts_per_run :: int
  rows_per_account :: int
  max_checkpoint_age :: int

record target =
  tg_account_id :: uuid
  tg_anchor_no :: int
  tg_anchor_balance :: money

text \<open>
  The definitions below give the rows of the expressions when nothing raises. When the query raises, which a number
  out of the range of its column type, a negative \<open>LIMIT\<close> or a time limit no timestamp can hold make it do, is
  said by \<open>batch_query_raises\<close>; \<open>next_batch\<close> puts the two together.
\<close>

text \<open>The lateral subquery: the checkpoint with the greatest \<open>through_no\<close>.\<close>

definition latest_checkpoint :: "db \<Rightarrow> uuid \<Rightarrow> customer_account_ledger_verified option" where
  "latest_checkpoint d i =
     (case sql_limit 1 (order_by_desc v_through_no (filter (\<lambda>v. v_account_id v = i) (verified d))) of
        [] \<Rightarrow> None | v # _ \<Rightarrow> Some v)"

definition anchor_no_of :: "db \<Rightarrow> uuid \<Rightarrow> int" where
  "anchor_no_of d i = coalesce (map_option v_through_no (latest_checkpoint d i)) 0"

definition anchor_balance_of :: "db \<Rightarrow> uuid \<Rightarrow> money" where
  "anchor_balance_of d i = coalesce (map_option v_balance (latest_checkpoint d i)) 0"

definition has_open_discrepancy :: "db \<Rightarrow> uuid \<Rightarrow> bool" where
  "has_open_discrepancy d i = list_ex (\<lambda>x. d_account_id x = i \<and> d_resolved_at x = None) (discrepancies d)"

definition is_target :: "verify_params \<Rightarrow> timestamp \<Rightarrow> db \<Rightarrow> uuid \<Rightarrow> bool" where
  "is_target ps now d i \<longleftrightarrow>
     ((case latest_checkpoint d i of
         None \<Rightarrow> True
       | Some v \<Rightarrow> v_verified_at v < now - max_checkpoint_age ps * 1000000)
      \<or> list_ex (\<lambda>l. l_account_id l = i \<and> l_no l - anchor_no_of d i \<ge> rows_per_account ps) (ledger d))
     \<and> \<not> has_open_discrepancy d i
     \<and> list_ex (\<lambda>l. l_account_id l = i \<and> l_no l > anchor_no_of d i) (ledger d)"

definition target_of :: "db \<Rightarrow> uuid \<Rightarrow> target" where
  "target_of d i = \<lparr>tg_account_id = i, tg_anchor_no = anchor_no_of d i,
     tg_anchor_balance = anchor_balance_of d i\<rparr>"

text \<open>\<open>ORDER BY v.verified_at ASC NULLS FIRST\<close>: \<open>None\<close> is the least option.\<close>

definition targets :: "verify_params \<Rightarrow> timestamp \<Rightarrow> db \<Rightarrow> target list" where
  "targets ps now d =
     map (\<lambda>a. target_of d (a_id a)) (sql_limit (accounts_per_run ps)
       (sort_key (\<lambda>a. map_option v_verified_at (latest_checkpoint d (a_id a)))
         (filter (\<lambda>a. is_target ps now d (a_id a)) (accounts d))))"

record windowed_row =
  w_account_id :: uuid
  w_anchor_no :: int
  w_anchor_balance :: money
  w_no :: int
  w_amount :: money
  w_balance_col :: money
  w_batch_rows :: int
  w_prev_no :: "int option"
  w_prev_balance :: "money option"

fun lag_rows :: "target \<Rightarrow> int \<Rightarrow> customer_account_ledger option \<Rightarrow> customer_account_ledger list
    \<Rightarrow> windowed_row list" where
  "lag_rows t n prev [] = []"
| "lag_rows t n prev (l # ls) =
     \<lparr>w_account_id = tg_account_id t, w_anchor_no = tg_anchor_no t,
      w_anchor_balance = tg_anchor_balance t, w_no = l_no l, w_amount = l_amount l,
      w_balance_col = l_balance l, w_batch_rows = n, w_prev_no = map_option l_no prev,
      w_prev_balance = map_option l_balance prev\<rparr> # lag_rows t n (Some l) ls"

definition window :: "db \<Rightarrow> int \<Rightarrow> target \<Rightarrow> customer_account_ledger list" where
  "window d window_rows t =
     sql_limit window_rows (order_by l_no
       (filter (\<lambda>l. l_account_id l = tg_account_id t \<and> l_no l \<ge> tg_anchor_no t) (ledger d)))"

definition windowed :: "db \<Rightarrow> int \<Rightarrow> target list \<Rightarrow> windowed_row list" where
  "windowed d window_rows ts =
     concat (map (\<lambda>t. let ls = window d window_rows t in lag_rows t (int (length ls)) None ls) ts)"

text \<open>The derived columns of \<open>chained\<close> and \<open>flagged\<close>.\<close>

definition chain_prev_no :: "windowed_row \<Rightarrow> int" where
  "chain_prev_no w = coalesce (w_prev_no w) (w_anchor_no w)"

definition chain_prev_balance :: "windowed_row \<Rightarrow> money" where
  "chain_prev_balance w = coalesce (w_prev_balance w) (w_anchor_balance w)"

definition row_kind :: "windowed_row \<Rightarrow> string option" where
  "row_kind c =
     (if w_no c = w_anchor_no c \<and> w_balance_col c \<noteq> w_anchor_balance c then Some ''anchor_balance''
      else if w_no c > w_anchor_no c \<and> w_no c \<noteq> chain_prev_no c + 1
              \<and> w_balance_col c \<noteq> chain_prev_balance c + w_amount c then Some ''gap_balance''
      else if w_no c > w_anchor_no c \<and> w_no c \<noteq> chain_prev_no c + 1 then Some ''gap''
      else if w_no c > w_anchor_no c \<and> w_balance_col c \<noteq> chain_prev_balance c + w_amount c
      then Some ''balance'' else None)"

text \<open>\<open>DISTINCT ON (account_id) \<dots> ORDER BY account_id, no [DESC]\<close>.\<close>

definition first_break :: "windowed_row list \<Rightarrow> uuid \<Rightarrow> windowed_row option" where
  "first_break ws i =
     (case order_by w_no (filter (\<lambda>w. w_account_id w = i \<and> row_kind w \<noteq> None) ws) of
        [] \<Rightarrow> None | w # _ \<Rightarrow> Some w)"

definition batch_tail :: "windowed_row list \<Rightarrow> uuid \<Rightarrow> windowed_row option" where
  "batch_tail ws i =
     (case order_by_desc w_no (filter (\<lambda>w. w_account_id w = i) ws) of
        [] \<Rightarrow> None | w # _ \<Rightarrow> Some w)"

section \<open>The result row\<close>

record verification =
  vf_account_id :: uuid
  vf_anchor_no :: int
  vf_anchor_balance :: money
  vf_batch_rows :: int
  vf_batch_limit :: int
  vf_batch_last_no :: int
  vf_batch_last_balance :: money
  vf_break_no :: "int option"
  vf_break_kind :: "string option"
  vf_break_amount :: "money option"
  vf_break_balance :: "money option"
  vf_break_prev_no :: "int option"
  vf_break_prev_balance :: "money option"

definition last_good_no :: "verification \<Rightarrow> int" where
  "last_good_no v = (case vf_break_prev_no v of None \<Rightarrow> vf_batch_last_no v | Some n \<Rightarrow> n)"

definition last_good_balance :: "verification \<Rightarrow> money" where
  "last_good_balance v = (case vf_break_prev_balance v of None \<Rightarrow> vf_batch_last_balance v | Some b \<Rightarrow> b)"

definition should_checkpoint :: "verification \<Rightarrow> bool" where
  "should_checkpoint v \<longleftrightarrow> last_good_no v > vf_anchor_no v"

definition expected_balance :: "verification \<Rightarrow> money option" where
  "expected_balance v =
     (if vf_break_kind v = None \<or> vf_break_kind v = Some (discrepancy_kind_value GAP) then None
      else if vf_break_kind v = Some (discrepancy_kind_value ANCHOR_BALANCE)
      then Some (vf_anchor_balance v)
      else Some (coalesce (vf_break_prev_balance v) 0 + coalesce (vf_break_amount v) 0))"

text \<open>The final \<open>SELECT\<close> joins each target with its batch tail and, if there is one, its break.\<close>

definition result_row :: "int \<Rightarrow> target \<Rightarrow> windowed_row \<Rightarrow> windowed_row option \<Rightarrow> verification" where
  "result_row window_rows t bt fb =
     \<lparr>vf_account_id = tg_account_id t, vf_anchor_no = tg_anchor_no t,
      vf_anchor_balance = tg_anchor_balance t, vf_batch_rows = w_batch_rows bt,
      vf_batch_limit = window_rows, vf_batch_last_no = w_no bt,
      vf_batch_last_balance = w_balance_col bt, vf_break_no = map_option w_no fb,
      vf_break_kind = Option.bind fb row_kind, vf_break_amount = map_option w_amount fb,
      vf_break_balance = map_option w_balance_col fb,
      vf_break_prev_no = map_option chain_prev_no fb,
      vf_break_prev_balance = map_option chain_prev_balance fb\<rparr>"

text \<open>The rows of the query, and of the list \<open>next_batch\<close> makes of them, when it does not raise.\<close>

definition query_rows :: "verify_params \<Rightarrow> timestamp \<Rightarrow> db \<Rightarrow> verification list" where
  "query_rows ps now d =
     (let window_rows = rows_per_account ps + 1;
          ts = targets ps now d;
          ws = windowed d window_rows ts
      in List.map_filter (\<lambda>t. map_option
           (\<lambda>bt. result_row window_rows t bt (first_break ws (tg_account_id t)))
           (batch_tail ws (tg_account_id t))) ts)"

section \<open>When the query raises\<close>

text \<open>
  PostgreSQL does not define in which order the operands of \<open>AND\<close> and \<open>OR\<close> are evaluated, how many rows an
  \<open>EXISTS\<close> looks at, and so which errors come up: this is left to a query plan. \<open>pl_lag i n\<close>: the plan
  computes \<open>l.no - COALESCE(v.through_no, 0)\<close> for row \<open>n\<close> of account \<open>i\<close>; \<open>pl_age\<close>: it computes the time limit.
\<close>

record query_plan =
  pl_lag :: "uuid \<Rightarrow> int \<Rightarrow> bool"
  pl_age :: bool

text \<open>The subtraction is one of \<open>bigint\<close> columns.\<close>

definition lag_overflows :: "query_plan \<Rightarrow> db \<Rightarrow> bool" where
  "lag_overflows pl d = list_ex (\<lambda>a. list_ex (\<lambda>l. l_account_id l = a_id a \<and> pl_lag pl (a_id a) (l_no l)
     \<and> \<not> bigint_ok (l_no l - anchor_no_of d (a_id a))) (ledger d)) (accounts d)"

text \<open>The years 4713 BC to 294276 AD; an interval counts microseconds in 64 bits.\<close>

definition timestamp_ok :: "timestamp \<Rightarrow> bool" where
  "timestamp_ok t \<longleftrightarrow> -210866803200000000 \<le> t \<and> t < 9224318016000000000"

definition age_ok :: "verify_params \<Rightarrow> timestamp \<Rightarrow> bool" where
  "age_ok ps now \<longleftrightarrow> bigint_ok (max_checkpoint_age ps * 1000000) \<and> timestamp_ok (now - max_checkpoint_age ps * 1000000)"

text \<open>What the driver can send: two limits and a count as \<open>bigint\<close>, the seconds as \<open>double precision\<close>.\<close>

definition parameters_ok :: "verify_params \<Rightarrow> bool" where
  "parameters_ok ps \<longleftrightarrow> bigint_ok (accounts_per_run ps) \<and> bigint_ok (rows_per_account ps) \<and> bigint_ok (rows_per_account ps + 1)
     \<and> \<bar>max_checkpoint_age ps\<bar> < 2 ^ 1024 - 2 ^ 970"

text \<open>The limit of \<open>targets\<close> is looked at once, that of \<open>windowed\<close> once per target.\<close>

definition batch_query_raises :: "query_plan \<Rightarrow> verify_params \<Rightarrow> timestamp \<Rightarrow> db \<Rightarrow> bool" where
  "batch_query_raises pl ps now d \<longleftrightarrow>
     \<not> parameters_ok ps \<or> accounts_per_run ps < 0 \<or> rows_per_account ps + 1 < 0 \<and> targets ps now d \<noteq> []
     \<or> pl_age pl \<and> \<not> age_ok ps now \<or> lag_overflows pl d"

definition next_batch :: "query_plan \<Rightarrow> verify_params \<Rightarrow> timestamp \<Rightarrow> db \<Rightarrow> exc + verification list" where
  "next_batch pl ps now d =
     (if batch_query_raises pl ps now d then Inl (DataError ''batch query'') else Inr (query_rows ps now d))"

section \<open>Checkpoints and discrepancies\<close>

definition add_checkpoint :: "timestamp \<Rightarrow> uuid \<Rightarrow> int \<Rightarrow> money \<Rightarrow> db \<Rightarrow> exc + db" where
  "add_checkpoint now account_id through_no balance d =
     insert_verified \<lparr>v_account_id = account_id, v_through_no = through_no, v_balance = balance,
       v_verified_at = now\<rparr> d"

definition record_verified :: "timestamp \<Rightarrow> verification \<Rightarrow> db \<Rightarrow> exc + db" where
  "record_verified now v d =
     add_checkpoint now (vf_account_id v) (last_good_no v) (last_good_balance v) d"

definition record_discrepancy :: "timestamp \<Rightarrow> verification \<Rightarrow> db \<Rightarrow> exc + db" where
  "record_discrepancy now v d =
     (case (vf_break_no v, vf_break_kind v) of
        (Some break_no, Some break_kind) \<Rightarrow>
          (case discrepancy_kind_of break_kind of
             Inl e \<Rightarrow> Inl e
           | Inr kind \<Rightarrow> insert_discrepancy
               \<lparr>d_id = 0, d_account_id = vf_account_id v, d_no = break_no, d_kind = kind,
                d_prev_no = coalesce (vf_break_prev_no v) 0,
                d_expected_balance = expected_balance v,
                d_actual_balance = coalesce (vf_break_balance v) 0, d_detected_at = now,
                d_resolved_at = None, d_resolved_by = None\<rparr> d)
      | _ \<Rightarrow> Inl ValueError)"

definition find_open_discrepancy :: "db \<Rightarrow> uuid \<Rightarrow> exc + customer_account_ledger_discrepancy option" where
  "find_open_discrepancy d account_id =
     scalar_one_or_none (filter (\<lambda>x. d_account_id x = account_id \<and> d_resolved_at x = None) (discrepancies d))"

definition find_latest_checkpoint :: "db \<Rightarrow> uuid \<Rightarrow> exc + customer_account_ledger_verified option" where
  "find_latest_checkpoint d account_id =
     scalar_one_or_none (sql_limit 1 (order_by_desc v_through_no
       (filter (\<lambda>v. v_account_id v = account_id) (verified d))))"

text \<open>The driver refuses to send a parameter a \<open>bigint\<close> cannot hold.\<close>

definition find_ledger_balance :: "db \<Rightarrow> uuid \<Rightarrow> int \<Rightarrow> exc + money option" where
  "find_ledger_balance d account_id no =
     (if \<not> bigint_ok no then Inl (DataError ''bigint parameter'')
      else scalar_one_or_none (map l_balance
        (filter (\<lambda>l. l_account_id l = account_id \<and> l_no l = no) (ledger d))))"

definition resolve_discrepancy :: "timestamp \<Rightarrow> int \<Rightarrow> uuid \<Rightarrow> uuid \<Rightarrow> db \<Rightarrow> exc + db" where
  "resolve_discrepancy now discrepancy_id account_id resolved_by d =
     (case scalar_one (sql_limit 1
        (filter (\<lambda>x. d_id x = discrepancy_id \<and> d_account_id x = account_id) (discrepancies d))) of
        Inl e \<Rightarrow> Inl e
      | Inr x \<Rightarrow> Inr (d\<lparr>discrepancies :=
          map (\<lambda>y. if d_id y = d_id x then y\<lparr>d_resolved_at := Some now, d_resolved_by := Some resolved_by\<rparr> else y)
            (discrepancies d)\<rparr>))"

section \<open>The scheduled run\<close>

record run_log =
  log_accounts :: nat
  log_checkpoints :: int
  log_discrepancies :: int

fun verify_loop :: "timestamp \<Rightarrow> verification list \<Rightarrow> db \<times> int \<times> int \<Rightarrow> exc + db \<times> int \<times> int" where
  "verify_loop now [] s = Inr s"
| "verify_loop now (v # vs) (d, checkpoints, discs) =
     (case (if vf_break_kind v \<noteq> None
            then map_sum id (\<lambda>d'. (d', discs + 1)) (record_discrepancy now v d)
            else Inr (d, discs)) of
        Inl e \<Rightarrow> Inl e
      | Inr (d1, discs1) \<Rightarrow>
          (case (if should_checkpoint v
                 then map_sum id (\<lambda>d'. (d', checkpoints + 1)) (record_verified now v d1)
                 else Inr (d1, checkpoints)) of
             Inl e \<Rightarrow> Inl e
           | Inr (d2, checkpoints2) \<Rightarrow> verify_loop now vs (d2, checkpoints2, discs1)))"

text \<open>
  \<open>verify_customer_account_ledger\<close>: \<open>lock\<close> is what the advisory lock returned, \<open>db_now\<close> the
  transaction's \<open>now()\<close> and \<open>now\<close> the clock of the process. Without the lock the run does
  nothing; otherwise it returns what it logs.
\<close>

definition verify_run :: "query_plan \<Rightarrow> verify_params \<Rightarrow> timestamp \<Rightarrow> timestamp \<Rightarrow> bool \<Rightarrow> db
    \<Rightarrow> exc + db \<times> run_log option" where
  "verify_run pl ps db_now now lock d =
     (if \<not> lock then Inr (d, None)
      else case next_batch pl ps db_now d of
        Inl e \<Rightarrow> Inl e
      | Inr batch \<Rightarrow>
          (case verify_loop now batch (d, 0, 0) of
             Inl e \<Rightarrow> Inl e
           | Inr (d', checkpoints, discs) \<Rightarrow>
               Inr (d', Some \<lparr>log_accounts = length batch, log_checkpoints = checkpoints,
                         log_discrepancies = discs\<rparr>)))"

end
