(* ===== verification/Verifier_Reference.thy ===== *)
theory Verifier_Reference
  imports Verifier
begin

text \<open>
  The batch query against a plain loop. \<open>check_window\<close> walks the rows of one target once, in
  order, carrying the last row that still held; the query of \<open>Verifier\<close> finds the first break with
  \<open>LAG\<close>, \<open>CASE\<close> and \<open>DISTINCT ON\<close>. The two give the same result row for every target, so the
  facts about the run are proved on the loop.
\<close>

section \<open>The reference loop\<close>

datatype scan_result =
    Intact int money
  | Broken customer_account_ledger string int money

fun scan :: "int \<Rightarrow> money \<Rightarrow> customer_account_ledger list \<Rightarrow> scan_result" where
  "scan n b [] = Intact n b"
| "scan n b (r # rs) =
     (if l_no r = n + 1 \<and> l_balance r = b + l_amount r then scan (l_no r) (l_balance r) rs
      else Broken r (if l_no r = n + 1 then ''balance''
                     else if l_balance r = b + l_amount r then ''gap'' else ''gap_balance'') n b)"

fun check_window :: "int \<Rightarrow> money \<Rightarrow> customer_account_ledger list \<Rightarrow> scan_result" where
  "check_window n b [] = Intact n b"
| "check_window n b (r # rs) =
     (if l_no r = n
      then if l_balance r = b then scan n b rs else Broken r ''anchor_balance'' n b
      else scan n b (r # rs))"

definition reference_row :: "int \<Rightarrow> target \<Rightarrow> customer_account_ledger list \<Rightarrow> verification" where
  "reference_row window_rows t ls =
     (let base = \<lparr>vf_account_id = tg_account_id t, vf_anchor_no = tg_anchor_no t,
        vf_anchor_balance = tg_anchor_balance t, vf_batch_rows = int (length ls),
        vf_batch_limit = window_rows, vf_batch_last_no = l_no (last ls),
        vf_batch_last_balance = l_balance (last ls), vf_break_no = None, vf_break_kind = None,
        vf_break_amount = None, vf_break_balance = None, vf_break_prev_no = None,
        vf_break_prev_balance = None\<rparr>
      in case check_window (tg_anchor_no t) (tg_anchor_balance t) ls of
           Intact _ _ \<Rightarrow> base
         | Broken r k n b \<Rightarrow> base\<lparr>vf_break_no := Some (l_no r), vf_break_kind := Some k,
             vf_break_amount := Some (l_amount r), vf_break_balance := Some (l_balance r),
             vf_break_prev_no := Some n, vf_break_prev_balance := Some b\<rparr>)"

section \<open>The rows of one target\<close>

lemma lag_rows_map [simp]:
  "map w_no (lag_rows t n p ls) = map l_no ls"
  "length (lag_rows t n p ls) = length ls"
  by (induction ls arbitrary: p) simp_all

lemma lag_rows_Nil_iff [simp]: "lag_rows t n p ls = [] \<longleftrightarrow> ls = []"
  by (cases ls) simp_all

lemma lag_rows_target: "w \<in> set (lag_rows t n p ls) \<Longrightarrow>
    w_account_id w = tg_account_id t \<and> w_anchor_no w = tg_anchor_no t
    \<and> w_anchor_balance w = tg_anchor_balance t \<and> w_batch_rows w = n"
  by (induction ls arbitrary: p) auto

lemma lag_rows_last: "ls \<noteq> [] \<Longrightarrow>
    w_no (last (lag_rows t n p ls)) = l_no (last ls)
    \<and> w_balance_col (last (lag_rows t n p ls)) = l_balance (last ls)
    \<and> w_batch_rows (last (lag_rows t n p ls)) = n"
  by (induction ls arbitrary: p) auto

definition matches :: "windowed_row option \<Rightarrow> scan_result \<Rightarrow> bool" where
  "matches fb res \<longleftrightarrow>
     (case res of
        Intact _ _ \<Rightarrow> fb = None
      | Broken r k n b \<Rightarrow> (\<exists>w. fb = Some w \<and> w_no w = l_no r \<and> row_kind w = Some k
          \<and> w_amount w = l_amount r \<and> w_balance_col w = l_balance r
          \<and> chain_prev_no w = n \<and> chain_prev_balance w = b))"

lemma head_row:
  assumes "tg_anchor_no t < l_no r"
    and "n = coalesce (map_option l_no p) (tg_anchor_no t)"
    and "b = coalesce (map_option l_balance p) (tg_anchor_balance t)"
  obtains w where "lag_rows t m p (r # rs) = w # lag_rows t m (Some r) rs"
    "w_no w = l_no r" "w_amount w = l_amount r" "w_balance_col w = l_balance r"
    "chain_prev_no w = n" "chain_prev_balance w = b"
    "row_kind w = (if l_no r = n + 1 \<and> l_balance r = b + l_amount r then None
       else Some (if l_no r = n + 1 then ''balance''
                  else if l_balance r = b + l_amount r then ''gap'' else ''gap_balance''))"
  using assms
  by (intro that [of "hd (lag_rows t m p (r # rs))"])
    (simp_all add: row_kind_def chain_prev_no_def chain_prev_balance_def)

lemma find_break_scan:
  assumes "\<forall>r \<in> set ls. tg_anchor_no t < l_no r"
    and "n = coalesce (map_option l_no p) (tg_anchor_no t)"
    and "b = coalesce (map_option l_balance p) (tg_anchor_balance t)"
  shows "matches (find (\<lambda>w. row_kind w \<noteq> None) (lag_rows t m p ls)) (scan n b ls)"
  using assms
proof (induction ls arbitrary: p n b)
  case Nil
  then show ?case by (simp add: matches_def)
next
  case (Cons r rs)
  have IH: "matches (find (\<lambda>w. row_kind w \<noteq> None) (lag_rows t m (Some r) rs)) (scan (l_no r) (l_balance r) rs)"
    by (rule Cons.IH) (use Cons.prems in simp_all)
  have "tg_anchor_no t < l_no r" using Cons.prems(1) by simp
  from head_row [OF this Cons.prems(2,3), of m rs] obtain w where
    w: "lag_rows t m p (r # rs) = w # lag_rows t m (Some r) rs"
    "w_no w = l_no r" "w_amount w = l_amount r" "w_balance_col w = l_balance r"
    "chain_prev_no w = n" "chain_prev_balance w = b"
    "row_kind w = (if l_no r = n + 1 \<and> l_balance r = b + l_amount r then None
       else Some (if l_no r = n + 1 then ''balance''
                  else if l_balance r = b + l_amount r then ''gap'' else ''gap_balance''))" .
  show ?case
  proof (cases "l_no r = n + 1 \<and> l_balance r = b + l_amount r")
    case True
    then show ?thesis using IH w(1,7) by simp
  next
    case False
    then have "row_kind w \<noteq> None" using w(7) by (simp only: if_False) simp
    then have "find (\<lambda>w. row_kind w \<noteq> None) (lag_rows t m p (r # rs)) = Some w"
      unfolding w(1) by simp
    moreover have "scan n b (r # rs) = Broken r (if l_no r = n + 1 then ''balance''
        else if l_balance r = b + l_amount r then ''gap'' else ''gap_balance'') n b"
      unfolding scan.simps by (rule if_not_P) (rule False)
    moreover have "row_kind w = Some (if l_no r = n + 1 then ''balance''
        else if l_balance r = b + l_amount r then ''gap'' else ''gap_balance'')"
      unfolding w(7) by (rule if_not_P) (rule False)
    ultimately show ?thesis
      unfolding matches_def using w(2-6) by (simp only: scan_result.case) blast
  qed
qed

lemma anchor_row:
  assumes "l_no r = tg_anchor_no t"
  obtains w where "lag_rows t m None (r # rs) = w # lag_rows t m (Some r) rs"
    "w_no w = l_no r" "w_amount w = l_amount r" "w_balance_col w = l_balance r"
    "chain_prev_no w = tg_anchor_no t" "chain_prev_balance w = tg_anchor_balance t"
    "row_kind w = (if l_balance r = tg_anchor_balance t then None else Some ''anchor_balance'')"
  using assms
  by (intro that [of "hd (lag_rows t m None (r # rs))"])
    (simp_all add: row_kind_def chain_prev_no_def chain_prev_balance_def)

lemma find_break_window:
  assumes "sorted_wrt (<) (map l_no ls)" "\<forall>r \<in> set ls. tg_anchor_no t \<le> l_no r"
  shows "matches (find (\<lambda>w. row_kind w \<noteq> None) (lag_rows t m None ls))
    (check_window (tg_anchor_no t) (tg_anchor_balance t) ls)"
proof (cases ls)
  case Nil
  then show ?thesis by (simp add: matches_def)
next
  case (Cons r rs)
  show ?thesis
  proof (cases "l_no r = tg_anchor_no t")
    case True
    have later: "\<forall>s \<in> set rs. tg_anchor_no t < l_no s"
      using assms Cons True by auto
    from anchor_row [OF True, of m rs] obtain w where
      w: "lag_rows t m None (r # rs) = w # lag_rows t m (Some r) rs"
      "w_no w = l_no r" "w_amount w = l_amount r" "w_balance_col w = l_balance r"
      "chain_prev_no w = tg_anchor_no t" "chain_prev_balance w = tg_anchor_balance t"
      "row_kind w = (if l_balance r = tg_anchor_balance t then None else Some ''anchor_balance'')" .
    show ?thesis
    proof (cases "l_balance r = tg_anchor_balance t")
      case bal: True
      have "matches (find (\<lambda>w. row_kind w \<noteq> None) (lag_rows t m (Some r) rs))
          (scan (tg_anchor_no t) (tg_anchor_balance t) rs)"
        by (rule find_break_scan [OF later]) (use True bal in simp_all)
      moreover have "row_kind w = None" using w(7) bal by simp
      ultimately show ?thesis
        unfolding Cons w(1) using True bal by simp
    next
      case bal: False
      have "row_kind w = Some ''anchor_balance''" unfolding w(7) by (rule if_not_P) (rule bal)
      then show ?thesis
        unfolding Cons w(1) matches_def using True bal w(2-6) by simp
    qed
  next
    case False
    have "\<forall>s \<in> set ls. tg_anchor_no t < l_no s"
      using assms Cons False by fastforce
    from find_break_scan [OF this, of _ None] Cons False show ?thesis by simp
  qed
qed

lemma scan_Broken_kind: "scan n b ls = Broken r k pn pb \<Longrightarrow> k \<noteq> ''anchor_balance''"
  by (induction n b ls rule: scan.induct) (auto split: if_splits)

lemma result_row_reference:
  assumes "matches fb (check_window (tg_anchor_no t) (tg_anchor_balance t) ls)" "ls \<noteq> []"
  shows "result_row k t (last (lag_rows t (int (length ls)) None ls)) fb = reference_row k t ls"
  using assms lag_rows_last [OF assms(2), of t "int (length ls)" None]
  by (auto simp: matches_def result_row_def reference_row_def Let_def split: scan_result.splits)

section \<open>One block per account\<close>

lemma filter_other_block:
  "tg_account_id t \<noteq> i \<Longrightarrow> filter (\<lambda>w. w_account_id w = i \<and> P w) (lag_rows t n p ls) = []"
  by (auto simp: filter_empty_conv dest: lag_rows_target)

lemma filter_own_block:
  "filter (\<lambda>w. w_account_id w = tg_account_id t \<and> P w) (lag_rows t n p ls) = filter P (lag_rows t n p ls)"
  by (rule filter_cong [OF refl]) (auto dest: lag_rows_target)

lemma filter_windowed:
  assumes "distinct (map tg_account_id ts)" "t \<in> set ts"
  shows "filter (\<lambda>w. w_account_id w = tg_account_id t \<and> P w) (windowed d k ts) =
    filter P (lag_rows t (int (length (window d k t))) None (window d k t))"
  using assms
proof (induction ts)
  case Nil
  then show ?case by simp
next
  case (Cons u us)
  show ?case
  proof (cases "u = t")
    case True
    have "filter (\<lambda>w. w_account_id w = tg_account_id t \<and> P w) (windowed d k us) = []"
      using Cons.prems True
      by (auto simp: windowed_def filter_empty_conv Let_def dest!: lag_rows_target)
    with True show ?thesis
      by (simp add: windowed_def Let_def filter_own_block)
  next
    case False
    with Cons show ?thesis
      by (auto simp: windowed_def Let_def filter_other_block image_iff)
  qed
qed

lemma order_by_sorted:
  assumes "sorted_wrt (<) (map f xs)"
  shows "order_by f (filter P xs) = filter P xs"
proof (rule order_by_unique)
  have s: "sorted_wrt (<) (map f (filter P xs))"
    using assms by (simp add: sorted_wrt_map sorted_wrt_filter)
  then show "distinct (map f (filter P xs))" "sorted (map f (filter P xs))"
    by (simp_all add: strict_sorted_iff)
qed simp

lemma find_filter: "find P xs = (case filter P xs of [] \<Rightarrow> None | x # _ \<Rightarrow> Some x)"
  by (induction xs) auto

lemma first_break_find:
  assumes "distinct (map tg_account_id ts)" "t \<in> set ts" "sorted_wrt (<) (map l_no (window d k t))"
  shows "first_break (windowed d k ts) (tg_account_id t) =
    find (\<lambda>w. row_kind w \<noteq> None) (lag_rows t (int (length (window d k t))) None (window d k t))"
proof -
  let ?ls = "window d k t" and ?ws = "lag_rows t (int (length (window d k t))) None (window d k t)"
  have "sorted_wrt (<) (map w_no ?ws)" using assms(3) by simp
  from order_by_sorted [OF this] show ?thesis
    unfolding first_break_def filter_windowed [OF assms(1,2)] by (simp add: find_filter)
qed

lemma batch_tail_last:
  assumes "distinct (map tg_account_id ts)" "t \<in> set ts" "sorted_wrt (<) (map l_no (window d k t))"
  shows "batch_tail (windowed d k ts) (tg_account_id t) =
    (if window d k t = [] then None
     else Some (last (lag_rows t (int (length (window d k t))) None (window d k t))))"
proof -
  let ?ws = "lag_rows t (int (length (window d k t))) None (window d k t)"
  have block: "filter (\<lambda>w. w_account_id w = tg_account_id t) (windowed d k ts) = ?ws"
    using filter_windowed [OF assms(1,2), of "\<lambda>_. True" d k] by simp
  have s: "sorted_wrt (<) (map w_no ?ws)" using assms(3) by simp
  then have "distinct (map w_no ?ws)" by (simp only: strict_sorted_iff)
  then have "order_by_desc w_no ?ws = rev ?ws"
    using order_by_sorted [OF s, of "\<lambda>_. True"] by (simp add: order_by_desc_rev)
  then show ?thesis
    unfolding batch_tail_def block by (simp only: hd_rev_last lag_rows_Nil_iff)
qed

section \<open>Targets and windows\<close>

lemma target_of_sel [simp]:
  "tg_account_id (target_of d i) = i" "tg_anchor_no (target_of d i) = anchor_no_of d i"
  "tg_anchor_balance (target_of d i) = anchor_balance_of d i"
  by (simp_all add: target_of_def)

lemma targets_distinct: "db_ok d \<Longrightarrow> distinct (map tg_account_id (targets ps now d))"
proof -
  assume "db_ok d"
  then have "distinct (map a_id (filter (\<lambda>a. is_target ps now d (a_id a)) (accounts d)))"
    by (simp add: db_okD distinct_map_filter)
  then have "distinct (map a_id (sort_key (\<lambda>a. map_option v_verified_at (latest_checkpoint d (a_id a)))
      (filter (\<lambda>a. is_target ps now d (a_id a)) (accounts d))))"
    by (metis mset_eq_imp_distinct_iff mset_map mset_sort)
  then show ?thesis
    by (simp add: targets_def sql_limit_def comp_def distinct_take flip: take_map)
qed

lemma targets_is_target:
  assumes "t \<in> set (targets ps now d)"
  shows "is_target ps now d (tg_account_id t)" "t = target_of d (tg_account_id t)"
    "account_exists d (tg_account_id t)"
  using assms
  by (auto simp: targets_def sql_limit_def account_exists_def list_ex_iff dest!: in_set_takeD)

lemma window_eq:
  assumes "db_ok d"
  shows "window d k t = take (nat k) (filter (\<lambda>l. tg_anchor_no t \<le> l_no l) (ledger_of d (tg_account_id t)))"
proof -
  have "filter (\<lambda>l. l_account_id l = tg_account_id t \<and> l_no l \<ge> tg_anchor_no t) (ledger d) =
      filter (\<lambda>l. tg_anchor_no t \<le> l_no l) (filter (\<lambda>l. l_account_id l = tg_account_id t) (ledger d))"
    by (simp add: conj_commute)
  then show ?thesis
    by (simp add: window_def sql_limit_def ledger_of_def order_by_filter)
qed

lemma ledger_of_strict: "db_ok d \<Longrightarrow> sorted_wrt (<) (map l_no (ledger_of d i))"
  using distinct_ledger_of sorted_ledger_of by (simp add: strict_sorted_iff)

lemma window_sorted: "db_ok d \<Longrightarrow> sorted_wrt (<) (map l_no (window d k t))"
  using ledger_of_strict [of d "tg_account_id t"]
  by (simp add: window_eq sorted_wrt_map sorted_wrt_filter sorted_wrt_take)

lemma window_ge: "db_ok d \<Longrightarrow> r \<in> set (window d k t) \<Longrightarrow>
    tg_anchor_no t \<le> l_no r \<and> r \<in> set (ledger d) \<and> l_account_id r = tg_account_id t"
  by (auto simp: window_eq dest!: in_set_takeD)

lemma window_nonempty:
  assumes "db_ok d" "t \<in> set (targets ps now d)" "0 < k"
  shows "window d k t \<noteq> []"
proof -
  have "tg_anchor_no t = anchor_no_of d (tg_account_id t)"
    by (subst targets_is_target(2) [OF assms(2)]) (rule target_of_sel(2))
  moreover from targets_is_target(1) [OF assms(2)]
  obtain l where "l \<in> set (ledger d)" "l_account_id l = tg_account_id t"
      "anchor_no_of d (tg_account_id t) < l_no l"
    unfolding is_target_def list_ex_iff by blast
  ultimately obtain l where "l \<in> set (ledger d)" "l_account_id l = tg_account_id t" "tg_anchor_no t < l_no l"
    by metis
  then have "filter (\<lambda>l. tg_anchor_no t \<le> l_no l) (ledger_of d (tg_account_id t)) \<noteq> []"
    by (auto simp: filter_empty_conv)
  with assms(3) show ?thesis by (simp add: window_eq [OF assms(1)])
qed

lemma map_filter_Some: "\<forall>x \<in> set xs. f x = Some (g x) \<Longrightarrow> List.map_filter f xs = map g xs"
  by (induction xs) (simp_all add: map_filter_def)

lemma next_batch_eq:
  assumes "db_ok d" "0 \<le> rows_per_account ps"
  shows "query_rows ps now d =
    map (\<lambda>t. reference_row (rows_per_account ps + 1) t (window d (rows_per_account ps + 1) t))
      (targets ps now d)"
proof -
  let ?k = "rows_per_account ps + 1" and ?ts = "targets ps now d"
  have "map_option (\<lambda>bt. result_row ?k t bt (first_break (windowed d ?k ?ts) (tg_account_id t)))
      (batch_tail (windowed d ?k ?ts) (tg_account_id t)) = Some (reference_row ?k t (window d ?k t))"
    if t: "t \<in> set ?ts" for t
  proof -
    note D = targets_distinct [OF assms(1), of ps now] and S = window_sorted [OF assms(1), of ?k t]
    have ne: "window d ?k t \<noteq> []"
      using window_nonempty [OF assms(1) t, of ?k] assms(2) by simp
    have ge: "\<forall>r \<in> set (window d ?k t). tg_anchor_no t \<le> l_no r"
      using window_ge [OF assms(1)] by blast
    show ?thesis
      using result_row_reference [OF find_break_window [OF S ge] ne, of ?k] ne
      by (simp add: first_break_find [OF D t S] batch_tail_last [OF D t S])
  qed
  then show ?thesis
    by (simp add: query_rows_def Let_def map_filter_Some)
qed

end
