(* ===== verification/Verifier_Correct.thy ===== *)
theory Verifier_Correct
  imports Verifier_Reference
begin

text \<open>
  What one row of the batch says about the ledger: the loop of \<open>Verifier_Reference\<close> stops exactly
  where the chain stops, so the row reports the longest good prefix of the window it read and the
  first row that breaks it.
\<close>

section \<open>The longest good prefix\<close>

text \<open>
  The rows from the anchor on: the anchor's own row, when it is there, must still carry the balance
  the checkpoint recorded; the others follow it as a chain.
\<close>

fun anchored :: "int \<Rightarrow> money \<Rightarrow> customer_account_ledger list \<Rightarrow> bool" where
  "anchored n b [] = True"
| "anchored n b (r # rs) =
     (if l_no r = n then l_balance r = b \<and> chain n b rs else chain n b (r # rs))"

text \<open>The kind of break a row is after number \<open>n\<close> and balance \<open>b\<close>, from anchor number \<open>a\<close>.\<close>

definition break_kind :: "int \<Rightarrow> int \<Rightarrow> money \<Rightarrow> customer_account_ledger \<Rightarrow> ledger_discrepancy_kind" where
  "break_kind a n b r =
     (if l_no r = a then ANCHOR_BALANCE
      else if l_no r = n + 1 then BALANCE
      else if l_balance r = b + l_amount r then GAP else GAP_BALANCE)"

lemma scan_Intact: "scan n b ls = Intact n' b' \<Longrightarrow> chain n b ls \<and> tail_of n b ls = (n', b')"
  by (induction n b ls rule: scan.induct) (auto split: if_splits)

lemma scan_chain: "chain n b ls \<Longrightarrow> scan n b ls = case_prod Intact (tail_of n b ls)"
  by (induction n b ls rule: scan.induct) auto

lemma scan_Broken:
  assumes "scan n b ls = Broken r k pn pb"
  obtains good rest where "ls = good @ r # rest" "chain n b good" "tail_of n b good = (pn, pb)"
    "\<not> (l_no r = pn + 1 \<and> l_balance r = pb + l_amount r)"
    "k = (if l_no r = pn + 1 then ''balance''
          else if l_balance r = pb + l_amount r then ''gap'' else ''gap_balance'')"
proof -
  have "\<exists>good rest. ls = good @ r # rest \<and> chain n b good \<and> tail_of n b good = (pn, pb)
      \<and> \<not> (l_no r = pn + 1 \<and> l_balance r = pb + l_amount r)
      \<and> k = (if l_no r = pn + 1 then ''balance''
             else if l_balance r = pb + l_amount r then ''gap'' else ''gap_balance'')"
    using assms
  proof (induction n b ls rule: scan.induct)
    case (2 n b s ss)
    show ?case
    proof (cases "l_no s = n + 1 \<and> l_balance s = b + l_amount s")
      case True
      then have "scan (l_no s) (l_balance s) ss = Broken r k pn pb" using 2(2) by simp
      from 2(1) [OF True this] obtain good rest where
        g: "ss = good @ r # rest" "chain (l_no s) (l_balance s) good"
          "tail_of (l_no s) (l_balance s) good = (pn, pb)"
        and r: "\<not> (l_no r = pn + 1 \<and> l_balance r = pb + l_amount r)
          \<and> k = (if l_no r = pn + 1 then ''balance''
             else if l_balance r = pb + l_amount r then ''gap'' else ''gap_balance'')" by blast
      show ?thesis
        by (rule exI [of _ "s # good"], rule exI [of _ rest]) (use g r True in simp)
    next
      case False
      have "scan n b (s # ss) = Broken s (if l_no s = n + 1 then ''balance''
          else if l_balance s = b + l_amount s then ''gap'' else ''gap_balance'') n b"
        unfolding scan.simps by (rule if_not_P) (rule False)
      from trans [OF sym [OF this] 2(2)] have "s = r" "pn = n" "pb = b"
        "k = (if l_no r = n + 1 then ''balance''
          else if l_balance r = b + l_amount r then ''gap'' else ''gap_balance'')"
        by blast+
      then show ?thesis
        by (intro exI [of _ "[]"] exI [of _ ss]) (use False in simp)
    qed
  qed simp
  then show thesis using that by blast
qed

lemma anchored_append_chain:
  "anchored n b (xs @ ys) \<Longrightarrow> anchored n b xs"
  by (cases xs) (auto simp: chain_append split: if_splits)

lemma anchored_chain: "chain n b ls \<Longrightarrow> anchored n b ls"
  by (cases ls) auto

lemma check_window_Intact:
  assumes "check_window n b ls = Intact n' b'"
  shows "anchored n b ls" "tail_of n b ls = (n', b')"
  using assms by (cases ls; auto split: if_splits dest: scan_Intact)+

lemma check_window_anchored:
  "anchored n b ls \<Longrightarrow> check_window n b ls = case_prod Intact (tail_of n b ls)"
  by (cases ls) (auto simp: scan_chain)

lemma check_window_cases:
  assumes "check_window a b (s # ss) = Broken r k pn pb"
  obtains (anchor) "l_no s = a" "l_balance s \<noteq> b" "s = r" "k = ''anchor_balance''" "pn = a" "pb = b"
    | (after) "l_no s = a" "l_balance s = b" "scan a b ss = Broken r k pn pb"
    | (plain) "l_no s \<noteq> a" "scan a b (s # ss) = Broken r k pn pb"
proof -
  have c: "(if l_no s = a then if l_balance s = b then scan a b ss
      else Broken s ''anchor_balance'' a b else scan a b (s # ss)) = Broken r k pn pb"
    using assms unfolding check_window.simps .
  show thesis
  proof (cases "l_no s = a")
    case True
    show ?thesis
    proof (cases "l_balance s = b")
      case bal: True
      from c have "scan a b ss = Broken r k pn pb" unfolding if_P [OF True] if_P [OF bal] .
      with True bal after show ?thesis by blast
    next
      case bal: False
      from c have "Broken s ''anchor_balance'' a b = Broken r k pn pb" unfolding if_P [OF True] if_not_P [OF bal] .
      with True bal anchor show ?thesis by blast
    qed
  next
    case False
    from c have "scan a b (s # ss) = Broken r k pn pb" unfolding if_not_P [OF False] .
    with False plain show ?thesis by blast
  qed
qed

text \<open>A break found behind the anchor.\<close>

lemma scan_break:
  assumes "scan a b ls = Broken r k pn pb" "\<And>x. x \<in> set ls \<Longrightarrow> l_no x \<noteq> a"
  obtains good rest where "ls = good @ r # rest" "chain a b good" "tail_of a b good = (pn, pb)"
    "\<not> chain a b (good @ [r])" "k = discrepancy_kind_value (break_kind a pn pb r)"
proof -
  from scan_Broken [OF assms(1)] obtain good rest where
    g: "ls = good @ r # rest" "chain a b good" "tail_of a b good = (pn, pb)"
    "\<not> (l_no r = pn + 1 \<and> l_balance r = pb + l_amount r)"
    "k = (if l_no r = pn + 1 then ''balance''
        else if l_balance r = pb + l_amount r then ''gap'' else ''gap_balance'')" .
  have "l_no r \<noteq> a" using assms(2) g(1) by simp
  then show thesis using g by (intro that [of good rest]) (auto simp: break_kind_def chain_append)
qed

lemma check_window_Broken:
  assumes "check_window a b ls = Broken r k pn pb"
    and "sorted_wrt (<) (map l_no ls)" "\<forall>s \<in> set ls. a \<le> l_no s"
  obtains good rest where "ls = good @ r # rest" "anchored a b good" "tail_of a b good = (pn, pb)"
    "\<not> anchored a b (good @ [r])" "k = discrepancy_kind_value (break_kind a pn pb r)"
proof -
  obtain s ss where ls: "ls = s # ss" using assms(1) by (cases ls) simp_all
  have late: "l_no x \<noteq> a" if "x \<in> set ss" for x
    using assms(2,3) ls that by fastforce
  from assms(1) [unfolded ls] show thesis
  proof (cases rule: check_window_cases)
    case anchor
    then show ?thesis
      by (intro that [of "[]" ss]) (simp_all add: ls break_kind_def)
  next
    case after
    from scan_break [OF after(3) late] obtain good rest where
      "ss = good @ r # rest" "chain a b good" "tail_of a b good = (pn, pb)"
      "\<not> chain a b (good @ [r])" "k = discrepancy_kind_value (break_kind a pn pb r)" .
    then show ?thesis
      by (intro that [of "s # good" rest]) (use after in \<open>auto simp: ls\<close>)
  next
    case plain
    have "l_no x \<noteq> a" if "x \<in> set (s # ss)" for x using that late plain(1) by auto
    from scan_break [OF plain(2) this] obtain good rest where
      g: "s # ss = good @ r # rest" "chain a b good" "tail_of a b good = (pn, pb)"
      "\<not> chain a b (good @ [r])" "k = discrepancy_kind_value (break_kind a pn pb r)" .
    then have "\<not> anchored a b (good @ [r])"
      using plain(1) by (cases good) auto
    then show ?thesis
      using that [of good rest] g ls anchored_chain by blast
  qed
qed

section \<open>The batch\<close>

lemma reference_row_sel [simp]:
  "vf_account_id (reference_row k t ls) = tg_account_id t"
  "vf_anchor_no (reference_row k t ls) = tg_anchor_no t"
  "vf_anchor_balance (reference_row k t ls) = tg_anchor_balance t"
  by (simp_all add: reference_row_def Let_def split: scan_result.splits)

lemma reference_row_Intact:
  assumes "anchored (tg_anchor_no t) (tg_anchor_balance t) ls" "ls \<noteq> []"
  shows "vf_break_no (reference_row k t ls) = None" "vf_break_kind (reference_row k t ls) = None"
    "last_good_no (reference_row k t ls) = l_no (last ls)"
    "last_good_balance (reference_row k t ls) = l_balance (last ls)"
  using assms
  by (simp_all add: reference_row_def check_window_anchored tail_of_last last_good_no_def
      last_good_balance_def)

lemma reference_row_Broken:
  assumes "check_window (tg_anchor_no t) (tg_anchor_balance t) ls = Broken r kind n b"
  shows "vf_break_no (reference_row k t ls) = Some (l_no r)"
    "vf_break_kind (reference_row k t ls) = Some kind"
    "vf_break_amount (reference_row k t ls) = Some (l_amount r)"
    "vf_break_balance (reference_row k t ls) = Some (l_balance r)"
    "vf_break_prev_no (reference_row k t ls) = Some n"
    "vf_break_prev_balance (reference_row k t ls) = Some b"
    "last_good_no (reference_row k t ls) = n" "last_good_balance (reference_row k t ls) = b"
  using assms by (simp_all add: reference_row_def Let_def last_good_no_def last_good_balance_def)

text \<open>
  A row of the batch and what it says: \<open>good\<close> is the longest good prefix of the window, \<open>rest\<close>
  what follows it.
\<close>

definition row_reports :: "verification \<Rightarrow> customer_account_ledger list \<Rightarrow> customer_account_ledger list \<Rightarrow> bool" where
  "row_reports v good rest \<longleftrightarrow>
     anchored (vf_anchor_no v) (vf_anchor_balance v) good
     \<and> tail_of (vf_anchor_no v) (vf_anchor_balance v) good = (last_good_no v, last_good_balance v)
     \<and> (case rest of
          [] \<Rightarrow> vf_break_no v = None \<and> vf_break_kind v = None
        | r # _ \<Rightarrow> \<not> anchored (vf_anchor_no v) (vf_anchor_balance v) (good @ [r])
            \<and> vf_break_no v = Some (l_no r)
            \<and> vf_break_kind v = Some (discrepancy_kind_value
                (break_kind (vf_anchor_no v) (last_good_no v) (last_good_balance v) r))
            \<and> vf_break_balance v = Some (l_balance r) \<and> vf_break_amount v = Some (l_amount r)
            \<and> vf_break_prev_no v = Some (last_good_no v)
            \<and> vf_break_prev_balance v = Some (last_good_balance v))"

lemma reference_row_reports:
  assumes "ls \<noteq> []" "sorted_wrt (<) (map l_no ls)" "\<forall>r \<in> set ls. tg_anchor_no t \<le> l_no r"
  obtains good rest where "ls = good @ rest" "row_reports (reference_row k t ls) good rest"
proof (cases "check_window (tg_anchor_no t) (tg_anchor_balance t) ls")
  case (Intact n b)
  note a = check_window_Intact [OF this]
  have "row_reports (reference_row k t ls) ls []"
    using a reference_row_Intact [OF a(1) assms(1), of k] tail_of_last [OF assms(1)]
    by (simp add: row_reports_def)
  then show ?thesis using that [of ls "[]"] by simp
next
  case (Broken r kind n b)
  from check_window_Broken [OF this assms(2,3)] obtain good rest where
    g: "ls = good @ r # rest" "anchored (tg_anchor_no t) (tg_anchor_balance t) good"
    "tail_of (tg_anchor_no t) (tg_anchor_balance t) good = (n, b)"
    "\<not> anchored (tg_anchor_no t) (tg_anchor_balance t) (good @ [r])"
    "kind = discrepancy_kind_value (break_kind (tg_anchor_no t) n b r)" .
  have "row_reports (reference_row k t ls) good (r # rest)"
    unfolding row_reports_def reference_row_sel reference_row_Broken [OF Broken] list.case
    using g(2-5) by (intro conjI refl) simp_all
  then show ?thesis using that [of good "r # rest"] g(1) by simp
qed

lemma next_batch_row:
  assumes "db_ok d" "0 \<le> rows_per_account ps" "v \<in> set (query_rows ps now d)"
  obtains t good rest where "t \<in> set (targets ps now d)"
    "v = reference_row (rows_per_account ps + 1) t (window d (rows_per_account ps + 1) t)"
    "window d (rows_per_account ps + 1) t = good @ rest" "row_reports v good rest"
    "vf_account_id v = tg_account_id t" "vf_anchor_no v = tg_anchor_no t"
    "vf_anchor_balance v = tg_anchor_balance t"
proof -
  let ?k = "rows_per_account ps + 1"
  from assms(3) obtain t where t: "t \<in> set (targets ps now d)" "v = reference_row ?k t (window d ?k t)"
    unfolding next_batch_eq [OF assms(1,2)] by auto
  have ge: "\<forall>r \<in> set (window d ?k t). tg_anchor_no t \<le> l_no r"
    using window_ge [OF assms(1)] by blast
  from reference_row_reports [OF window_nonempty [OF assms(1) t(1), of ?k] window_sorted [OF assms(1)] ge, of ?k]
  obtain good rest where "window d ?k t = good @ rest" "row_reports v good rest"
    using assms(2) t(2) by auto
  with t show thesis using that by simp
qed

section \<open>Property\<close>

text \<open>C7: Every row of the batch reports the longest good prefix of what it read: the rows of one
  account from its checkpoint on, at most \<open>rows_per_account + 1\<close> of them. The last good number and
  balance are those of the prefix's end (of the checkpoint, if it is empty); no break is reported
  exactly if the prefix is everything; otherwise the break is the next row, with its number,
  amount, balance, predecessor and the kind of its defect.\<close>

theorem batch_row_reports_longest_good_prefix:
  assumes "db_ok d" "0 \<le> rows_per_account ps" "v \<in> set (query_rows ps now d)"
  shows "\<exists>good rest. take (nat (rows_per_account ps + 1))
      (filter (\<lambda>l. vf_anchor_no v \<le> l_no l) (ledger_of d (vf_account_id v))) = good @ rest
    \<and> row_reports v good rest"
proof -
  from next_batch_row [OF assms] obtain t good rest where
    "window d (rows_per_account ps + 1) t = good @ rest" "row_reports v good rest"
    "vf_account_id v = tg_account_id t" "vf_anchor_no v = tg_anchor_no t" .
  then show ?thesis unfolding window_eq [OF assms(1)] by auto
qed

text \<open>The sample ledger with the balance of its last row changed from 20.00 to 99.00.\<close>

definition sample_params :: verify_params where
  "sample_params = \<lparr>accounts_per_run = 100, rows_per_account = 1000, max_checkpoint_age = 3600\<rparr>"

definition tampered_rows :: "customer_account_ledger list" where
  "tampered_rows = butlast sample_rows @ [(last sample_rows)\<lparr>l_balance := 9900\<rparr>]"

definition tampered_db :: db where
  "tampered_db = sample_db\<lparr>ledger := tampered_rows\<rparr>"

lemma sample_params_sel [simp]:
  "accounts_per_run sample_params = 100" "rows_per_account sample_params = 1000"
  "max_checkpoint_age sample_params = 3600"
  by (simp_all add: sample_params_def)

lemma tampered_db_sel [simp]:
  "customers tampered_db = [sample_customer]" "accounts tampered_db = [sample_account]"
  "ledger tampered_db = tampered_rows" "verified tampered_db = []" "discrepancies tampered_db = []"
  "account_history tampered_db = []" "next_discrepancy_id tampered_db = 1"
  by (simp_all add: tampered_db_def)

lemma tampered_db_ok: "db_ok tampered_db"
  by (simp add: constraint_defs tampered_db_def tampered_rows_def sample_defs customer_create_def
      numeric_ok_def bigint_ok_def account_exists_def)

lemma tampered_ledger_of: "ledger_of tampered_db 10 = tampered_rows"
  by (simp add: ledger_of_def tampered_db_def tampered_rows_def sample_defs order_by_def)

lemma unverified_target:
  "verified d = [] \<Longrightarrow> target_of d i = \<lparr>tg_account_id = i, tg_anchor_no = 0, tg_anchor_balance = 0\<rparr>"
  by (simp add: target_of_def anchor_no_of_def anchor_balance_of_def latest_checkpoint_def
      order_by_desc_def)

lemma single_target:
  assumes "accounts d = [a]" "verified d = []" "discrepancies d = []"
    and "l \<in> set (ledger d)" "l_account_id l = a_id a" "0 < l_no l" "0 < accounts_per_run ps"
  shows "targets ps now d = [\<lparr>tg_account_id = a_id a, tg_anchor_no = 0, tg_anchor_balance = 0\<rparr>]"
proof -
  have "latest_checkpoint d (a_id a) = None"
    using assms(2) by (simp add: latest_checkpoint_def order_by_desc_def)
  then have "is_target ps now d (a_id a)"
    using assms(3-6) by (auto simp: is_target_def has_open_discrepancy_def anchor_no_of_def list_ex_iff)
  moreover have "0 < nat (accounts_per_run ps)" using assms(7) by simp
  ultimately show ?thesis
    using assms(1) by (simp add: targets_def sql_limit_def unverified_target [OF assms(2)])
qed

lemma sample_targets:
  "targets sample_params now sample_db = [\<lparr>tg_account_id = 10, tg_anchor_no = 0, tg_anchor_balance = 0\<rparr>]"
  by (subst single_target [of _ sample_account "last sample_rows"]) (simp_all add: sample_rows_def)

lemma tampered_targets:
  "targets sample_params now tampered_db = [\<lparr>tg_account_id = 10, tg_anchor_no = 0, tg_anchor_balance = 0\<rparr>]"
  by (subst single_target [of _ sample_account "last tampered_rows"])
    (simp_all add: tampered_rows_def sample_rows_def)

lemma tampered_batch:
  "query_rows sample_params now tampered_db =
    [\<lparr>vf_account_id = 10, vf_anchor_no = 0, vf_anchor_balance = 0, vf_batch_rows = 3,
      vf_batch_limit = 1001, vf_batch_last_no = 3, vf_batch_last_balance = 9900,
      vf_break_no = Some 3, vf_break_kind = Some ''balance'', vf_break_amount = Some (-500),
      vf_break_balance = Some 9900, vf_break_prev_no = Some 2, vf_break_prev_balance = Some 2500\<rparr>]"
proof -
  have w: "window tampered_db 1001 \<lparr>tg_account_id = 10, tg_anchor_no = 0, tg_anchor_balance = 0\<rparr> = tampered_rows"
    by (simp add: window_eq [OF tampered_db_ok] tampered_ledger_of tampered_rows_def sample_rows_def)
  have "query_rows sample_params now tampered_db =
      [reference_row 1001 \<lparr>tg_account_id = 10, tg_anchor_no = 0, tg_anchor_balance = 0\<rparr> tampered_rows]"
    using next_batch_eq [OF tampered_db_ok, of sample_params now] by (simp add: tampered_targets w)
  moreover have "check_window 0 0 tampered_rows =
      Broken ((last sample_rows)\<lparr>l_balance := 9900\<rparr>) ''balance'' 2 2500"
    by (simp add: tampered_rows_def sample_rows_def)
  ultimately show ?thesis
    by (simp add: reference_row_def Let_def tampered_rows_def sample_rows_def)
qed

theorem batch_row_reports_longest_good_prefix_witness:
  "let v = hd (query_rows sample_params 0 tampered_db)
   in (\<exists>good rest. take 1001 (filter (\<lambda>l. 0 \<le> l_no l) (ledger_of tampered_db 10)) = good @ rest
        \<and> row_reports v good rest) \<and> vf_break_kind v = Some ''balance''"
  using batch_row_reports_longest_good_prefix [OF tampered_db_ok, of sample_params
      "hd (query_rows sample_params 0 tampered_db)" 0]
  unfolding tampered_batch Let_def by simp

end
