(* ===== verification/Verifier_Runs.thy ===== *)
theory Verifier_Runs
  imports Verifier_Correct
begin

text \<open>
  The scheduled run as a whole. A run that gets the lock writes exactly one checkpoint per row that
  advanced and one open discrepancy per broken row; from this equation follow that intact ledgers
  raise no alarm, that checkpoints certify the rows behind them, that a broken account is
  quarantined, and that the verification catches up with the ledger.
\<close>

section \<open>What a run writes\<close>

definition checkpoint_of :: "timestamp \<Rightarrow> verification \<Rightarrow> customer_account_ledger_verified" where
  "checkpoint_of now v = \<lparr>v_account_id = vf_account_id v, v_through_no = last_good_no v,
     v_balance = last_good_balance v, v_verified_at = now\<rparr>"

definition kind_of :: "verification \<Rightarrow> ledger_discrepancy_kind" where
  "kind_of v = (case Option.bind (vf_break_kind v) (\<lambda>k. case discrepancy_kind_of k of Inr x \<Rightarrow> Some x | Inl _ \<Rightarrow> None)
     of Some k \<Rightarrow> k | None \<Rightarrow> GAP)"

definition discrepancy_of :: "timestamp \<Rightarrow> int \<Rightarrow> verification \<Rightarrow> customer_account_ledger_discrepancy" where
  "discrepancy_of now n v = \<lparr>d_id = n, d_account_id = vf_account_id v,
     d_no = coalesce (vf_break_no v) 0, d_kind = kind_of v,
     d_prev_no = coalesce (vf_break_prev_no v) 0, d_expected_balance = expected_balance v,
     d_actual_balance = coalesce (vf_break_balance v) 0, d_detected_at = now,
     d_resolved_at = None, d_resolved_by = None\<rparr>"

fun numbered :: "timestamp \<Rightarrow> int \<Rightarrow> verification list \<Rightarrow> customer_account_ledger_discrepancy list" where
  "numbered now n [] = []"
| "numbered now n (v # vs) = discrepancy_of now n v # numbered now (n + 1) vs"

definition broken :: "verification list \<Rightarrow> verification list" where
  "broken vs = filter (\<lambda>v. vf_break_kind v \<noteq> None) vs"

definition advanced :: "verification list \<Rightarrow> verification list" where
  "advanced vs = filter should_checkpoint vs"

definition run_effect :: "timestamp \<Rightarrow> verification list \<Rightarrow> db \<Rightarrow> db" where
  "run_effect now vs d = d\<lparr>verified := verified d @ map (checkpoint_of now) (advanced vs),
     discrepancies := discrepancies d @ numbered now (next_discrepancy_id d) (broken vs),
     next_discrepancy_id := next_discrepancy_id d + int (length (broken vs))\<rparr>"

lemma run_effect_sel [simp]:
  "customers (run_effect now vs d) = customers d" "accounts (run_effect now vs d) = accounts d"
  "account_history (run_effect now vs d) = account_history d" "ledger (run_effect now vs d) = ledger d"
  "verified (run_effect now vs d) = verified d @ map (checkpoint_of now) (advanced vs)"
  "discrepancies (run_effect now vs d) = discrepancies d @ numbered now (next_discrepancy_id d) (broken vs)"
  "next_discrepancy_id (run_effect now vs d) = next_discrepancy_id d + int (length (broken vs))"
  by (simp_all add: run_effect_def)

lemma checkpoint_of_sel [simp]:
  "v_account_id (checkpoint_of now v) = vf_account_id v"
  "v_through_no (checkpoint_of now v) = last_good_no v"
  "v_balance (checkpoint_of now v) = last_good_balance v"
  "v_verified_at (checkpoint_of now v) = now"
  by (simp_all add: checkpoint_of_def)

lemma discrepancy_of_sel [simp]:
  "d_id (discrepancy_of now n v) = n" "d_account_id (discrepancy_of now n v) = vf_account_id v"
  "d_no (discrepancy_of now n v) = coalesce (vf_break_no v) 0" "d_kind (discrepancy_of now n v) = kind_of v"
  "d_resolved_at (discrepancy_of now n v) = None"
  by (simp_all add: discrepancy_of_def)

text \<open>
  What makes both writes of a row succeed: the account is there and not quarantined, no checkpoint
  lies at or beyond the new one, a reported break is complete, and every number fits its column.
\<close>

definition recordable :: "db \<Rightarrow> verification \<Rightarrow> bool" where
  "recordable d v \<longleftrightarrow>
     account_exists d (vf_account_id v) \<and> \<not> has_open_discrepancy d (vf_account_id v)
     \<and> (should_checkpoint v \<longrightarrow>
          (\<forall>w \<in> set (verified d). v_account_id w = vf_account_id v \<longrightarrow> v_through_no w < last_good_no v)
          \<and> numeric_ok (last_good_balance v) \<and> bigint_ok (last_good_no v))
     \<and> (vf_break_kind v \<noteq> None \<longrightarrow>
          vf_break_no v \<noteq> None \<and> vf_break_kind v = Some (discrepancy_kind_value (kind_of v))
          \<and> numeric_ok (coalesce (vf_break_balance v) 0)
          \<and> (case expected_balance v of None \<Rightarrow> True | Some b \<Rightarrow> numeric_ok b)
          \<and> bigint_ok (coalesce (vf_break_no v) 0) \<and> bigint_ok (coalesce (vf_break_prev_no v) 0))"

lemma record_discrepancy_recordable:
  assumes "recordable d v" "vf_break_kind v \<noteq> None"
  shows "record_discrepancy now v d = Inr (d\<lparr>discrepancies := discrepancies d @ [discrepancy_of now (next_discrepancy_id d) v],
    next_discrepancy_id := next_discrepancy_id d + 1\<rparr>)"
proof -
  from assms have r: "vf_break_no v \<noteq> None" "vf_break_kind v = Some (discrepancy_kind_value (kind_of v))"
    "numeric_ok (coalesce (vf_break_balance v) 0)"
    "case expected_balance v of None \<Rightarrow> True | Some b \<Rightarrow> numeric_ok b"
    "bigint_ok (coalesce (vf_break_no v) 0)" "bigint_ok (coalesce (vf_break_prev_no v) 0)"
    "account_exists d (vf_account_id v)" "\<not> has_open_discrepancy d (vf_account_id v)"
    unfolding recordable_def by blast+
  have open_none: "\<not> list_ex (\<lambda>y. is_open y \<and> d_account_id y = vf_account_id v) (discrepancies d)"
    using r(8) by (auto simp: has_open_discrepancy_def is_open_def list_ex_iff)
  have exp: "\<not> (case expected_balance v of None \<Rightarrow> False | Some b \<Rightarrow> \<not> numeric_ok b)"
    using r(4) by (cases "expected_balance v") auto
  obtain n where n: "vf_break_no v = Some n" using r(1) by blast
  show ?thesis
    using r(3,5,6,7) open_none exp
    by (simp add: record_discrepancy_def n r(2) insert_discrepancy_def discrepancy_of_def)
qed

lemma record_verified_recordable:
  assumes "recordable d v" "should_checkpoint v"
  shows "record_verified now v d = Inr (d\<lparr>verified := verified d @ [checkpoint_of now v]\<rparr>)"
proof -
  from assms have r: "\<forall>w \<in> set (verified d). v_account_id w = vf_account_id v \<longrightarrow> v_through_no w < last_good_no v"
    "numeric_ok (last_good_balance v)" "bigint_ok (last_good_no v)" "account_exists d (vf_account_id v)"
    unfolding recordable_def by blast+
  have "\<not> list_ex (\<lambda>w. v_account_id w = vf_account_id v \<and> v_through_no w = last_good_no v) (verified d)"
    using r(1) by (auto simp: list_ex_iff)
  then show ?thesis
    using r(2-4) by (simp add: record_verified_def add_checkpoint_def insert_verified_def checkpoint_of_def)
qed

lemma broken_simps [simp]:
  "broken [] = []" "broken (v # vs) = (if vf_break_kind v \<noteq> None then v # broken vs else broken vs)"
  by (simp_all add: broken_def)

lemma advanced_simps [simp]:
  "advanced [] = []" "advanced (v # vs) = (if should_checkpoint v then v # advanced vs else advanced vs)"
  by (simp_all add: advanced_def)

lemma run_effect_Nil [simp]: "run_effect now [] d = d"
  by (simp add: run_effect_def)

lemma run_effect_Cons: "run_effect now vs (run_effect now [v] d) = run_effect now (v # vs) d"
  by (simp add: run_effect_def)

lemma verify_loop_step:
  assumes "recordable d v"
  shows "verify_loop now (v # vs) (d, c, n) = verify_loop now vs (run_effect now [v] d,
    c + int (length (advanced [v])), n + int (length (broken [v])))"
proof -
  let ?d1 = "if vf_break_kind v \<noteq> None
     then d\<lparr>discrepancies := discrepancies d @ [discrepancy_of now (next_discrepancy_id d) v],
            next_discrepancy_id := next_discrepancy_id d + 1\<rparr> else d"
  have first: "(if vf_break_kind v \<noteq> None then map_sum id (\<lambda>d'. (d', n + 1)) (record_discrepancy now v d)
      else Inr (d, n)) = Inr (?d1, n + int (length (broken [v])))"
    using record_discrepancy_recordable [OF assms] by auto
  have second: "(if should_checkpoint v then map_sum id (\<lambda>d'. (d', c + 1)) (record_verified now v ?d1)
      else Inr (?d1, c)) = Inr (run_effect now [v] d, c + int (length (advanced [v])))"
  proof (cases "should_checkpoint v")
    case True
    from assms True have r: "\<forall>w \<in> set (verified d). v_account_id w = vf_account_id v \<longrightarrow> v_through_no w < last_good_no v"
      "numeric_ok (last_good_balance v)" "bigint_ok (last_good_no v)" "account_exists d (vf_account_id v)"
      unfolding recordable_def by blast+
    have "\<not> list_ex (\<lambda>w. v_account_id w = vf_account_id v \<and> v_through_no w = last_good_no v) (verified d)"
      using r(1) by (auto simp: list_ex_iff)
    then have "record_verified now v ?d1 = Inr (?d1\<lparr>verified := verified d @ [checkpoint_of now v]\<rparr>)"
      using r(2-4)
      by (simp add: record_verified_def add_checkpoint_def insert_verified_def checkpoint_of_def
          account_exists_def)
    with True show ?thesis by (simp add: run_effect_def)
  next
    case False
    then show ?thesis by (simp add: run_effect_def)
  qed
  show ?thesis
    unfolding verify_loop.simps first sum.case prod.case second ..
qed

lemma recordable_other:
  assumes "recordable d u" "vf_account_id u \<noteq> vf_account_id v"
  shows "recordable (run_effect now [v] d) u"
proof -
  have "account_exists (run_effect now [v] d) (vf_account_id u) = account_exists d (vf_account_id u)"
    by (simp add: account_exists_def)
  moreover have "has_open_discrepancy (run_effect now [v] d) (vf_account_id u) = has_open_discrepancy d (vf_account_id u)"
    using assms(2) by (auto simp: has_open_discrepancy_def)
  moreover have "(\<forall>w \<in> set (verified (run_effect now [v] d)). v_account_id w = vf_account_id u \<longrightarrow> v_through_no w < last_good_no u)
      = (\<forall>w \<in> set (verified d). v_account_id w = vf_account_id u \<longrightarrow> v_through_no w < last_good_no u)"
    using assms(2) by auto
  ultimately have "recordable (run_effect now [v] d) u = recordable d u"
    unfolding recordable_def by (simp only:)
  then show ?thesis using assms(1) by simp
qed

lemma verify_loop_eq:
  assumes "distinct (map vf_account_id vs)" "\<forall>v \<in> set vs. recordable d v"
  shows "verify_loop now vs (d, c, n) = Inr (run_effect now vs d, c + int (length (advanced vs)),
    n + int (length (broken vs)))"
  using assms
proof (induction vs arbitrary: d c n)
  case Nil
  then show ?case by simp
next
  case (Cons v vs)
  have "\<forall>u \<in> set vs. recordable (run_effect now [v] d) u"
    using Cons.prems by (auto intro!: recordable_other simp: rev_image_eqI)
  from Cons.IH [OF _ this] Cons.prems show ?case
    by (simp del: verify_loop.simps add: verify_loop_step run_effect_Cons)
qed

section \<open>Anchors\<close>

lemma latest_checkpoint_None_iff:
  "latest_checkpoint d i = None \<longleftrightarrow> (\<forall>w \<in> set (verified d). v_account_id w \<noteq> i)"
proof -
  let ?vs = "filter (\<lambda>v. v_account_id v = i) (verified d)"
  have "set (order_by_desc v_through_no ?vs) = set ?vs" by (simp add: order_by_desc_def)
  then have "order_by_desc v_through_no ?vs = [] \<longleftrightarrow> ?vs = []" by (metis set_empty)
  then show ?thesis
    by (auto simp: latest_checkpoint_def filter_empty_conv split: list.splits)
qed

lemma latest_checkpoint_SomeD:
  assumes "latest_checkpoint d i = Some v"
  shows "v \<in> set (verified d)" "v_account_id v = i"
    "w \<in> set (verified d) \<Longrightarrow> v_account_id w = i \<Longrightarrow> v_through_no w \<le> v_through_no v"
proof -
  let ?vs = "filter (\<lambda>v. v_account_id v = i) (verified d)"
  obtain vs where vs: "order_by_desc v_through_no ?vs = v # vs"
    using assms by (cases "order_by_desc v_through_no ?vs") (simp_all add: latest_checkpoint_def)
  have set: "set (v # vs) = set ?vs" unfolding vs [symmetric] by (simp add: order_by_desc_def)
  then show "v \<in> set (verified d)" "v_account_id v = i" by auto
  have "sorted (map (\<lambda>x. - v_through_no x) (v # vs))"
    unfolding vs [symmetric] by (simp add: order_by_desc_def)
  moreover assume "w \<in> set (verified d)" "v_account_id w = i"
  ultimately show "v_through_no w \<le> v_through_no v" using set by auto
qed

lemma anchor_cases:
  obtains (fresh) "\<forall>w \<in> set (verified d). v_account_id w \<noteq> i" "anchor_no_of d i = 0" "anchor_balance_of d i = 0"
  | (checkpoint) v where "v \<in> set (verified d)" "v_account_id v = i"
      "anchor_no_of d i = v_through_no v" "anchor_balance_of d i = v_balance v"
      "\<forall>w \<in> set (verified d). v_account_id w = i \<longrightarrow> v_through_no w \<le> v_through_no v"
proof (cases "latest_checkpoint d i")
  case None
  then show ?thesis
    using latest_checkpoint_None_iff [of d i] by (intro fresh) (simp_all add: anchor_no_of_def anchor_balance_of_def)
next
  case (Some v)
  then show ?thesis
    using latest_checkpoint_SomeD [OF Some] by (intro checkpoint [of v]) (auto simp: anchor_no_of_def anchor_balance_of_def)
qed

lemma anchor_no_greatest: "w \<in> set (verified d) \<Longrightarrow> v_account_id w = i \<Longrightarrow> v_through_no w \<le> anchor_no_of d i"
  by (cases d i rule: anchor_cases) auto

lemma anchor_bigint: "db_ok d \<Longrightarrow> bigint_ok (anchor_no_of d i)"
  by (cases d i rule: anchor_cases) (auto simp: bigint_ok_def constraint_defs)

lemma target_anchor:
  assumes "t \<in> set (targets ps now d)"
  shows "tg_anchor_no t = anchor_no_of d (tg_account_id t)" "tg_anchor_balance t = anchor_balance_of d (tg_account_id t)"
  by (subst targets_is_target(2) [OF assms], rule target_of_sel)+

section \<open>The rows of a batch can be recorded\<close>

lemma row_reports_good_row:
  assumes "row_reports v good rest" "vf_anchor_no v < last_good_no v"
  shows "good \<noteq> [] \<and> last_good_no v = l_no (last good) \<and> last_good_balance v = l_balance (last good)"
proof -
  have t: "tail_of (vf_anchor_no v) (vf_anchor_balance v) good = (last_good_no v, last_good_balance v)"
    using assms(1) by (simp add: row_reports_def)
  then have "good \<noteq> []" using assms(2) by auto
  with t show ?thesis by (simp add: tail_of_last)
qed

lemma row_reports_break:
  assumes "row_reports v good rest" "vf_break_kind v \<noteq> None"
  obtains r rs where "rest = r # rs" "vf_break_no v = Some (l_no r)"
    "kind_of v = break_kind (vf_anchor_no v) (last_good_no v) (last_good_balance v) r"
    "vf_break_kind v = Some (discrepancy_kind_value (kind_of v))"
    "vf_break_balance v = Some (l_balance r)" "vf_break_amount v = Some (l_amount r)"
    "vf_break_prev_no v = Some (last_good_no v)" "vf_break_prev_balance v = Some (last_good_balance v)"
    "\<not> anchored (vf_anchor_no v) (vf_anchor_balance v) (good @ [r])"
proof (cases rest)
  case Nil
  then show ?thesis using assms by (simp add: row_reports_def)
next
  case (Cons r rs)
  then have k: "vf_break_kind v = Some (discrepancy_kind_value
      (break_kind (vf_anchor_no v) (last_good_no v) (last_good_balance v) r))"
    using assms(1) by (simp add: row_reports_def)
  then have "kind_of v = break_kind (vf_anchor_no v) (last_good_no v) (last_good_balance v) r"
    by (simp add: kind_of_def)
  with k Cons show ?thesis
    using assms(1) by (intro that [of r rs]) (simp_all add: row_reports_def)
qed

definition representable :: "verification \<Rightarrow> bool" where
  "representable v \<longleftrightarrow> (case expected_balance v of None \<Rightarrow> True | Some b \<Rightarrow> numeric_ok b)"

lemma next_batch_recordable:
  assumes "db_ok d" "0 \<le> rows_per_account ps" "v \<in> set (query_rows ps now d)" "representable v"
  shows "recordable d v"
proof -
  from next_batch_row [OF assms(1-3)] obtain t good rest where
    t: "t \<in> set (targets ps now d)" "window d (rows_per_account ps + 1) t = good @ rest"
    "row_reports v good rest" "vf_account_id v = tg_account_id t" "vf_anchor_no v = tg_anchor_no t" .
  have row: "r \<in> set (good @ rest) \<Longrightarrow> numeric_ok (l_balance r) \<and> bigint_ok (l_no r)" for r
    using window_ge [OF assms(1), of r "rows_per_account ps + 1" t] assms(1) t(2)
    by (auto simp: constraint_defs)
  have anchor: "vf_anchor_no v = anchor_no_of d (vf_account_id v)"
    using t(4,5) target_anchor(1) [OF t(1)] by simp
  have good: "vf_anchor_no v < last_good_no v \<Longrightarrow> numeric_ok (last_good_balance v) \<and> bigint_ok (last_good_no v)"
    using row_reports_good_row [OF t(3)] row by auto
  have prev: "bigint_ok (last_good_no v)"
  proof (cases good)
    case Nil
    then have "last_good_no v = vf_anchor_no v" using t(3) by (simp add: row_reports_def)
    then show ?thesis using anchor anchor_bigint [OF assms(1)] by simp
  next
    case (Cons g gs)
    then have "last_good_no v = l_no (last good)" using t(3) by (simp add: row_reports_def tail_of_last del: tail_of.simps)
    then show ?thesis using row [of "last good"] Cons by simp
  qed
  have ck: "should_checkpoint v \<longrightarrow>
      (\<forall>w \<in> set (verified d). v_account_id w = vf_account_id v \<longrightarrow> v_through_no w < last_good_no v)
      \<and> numeric_ok (last_good_balance v) \<and> bigint_ok (last_good_no v)"
    using good anchor anchor_no_greatest [of _ d "vf_account_id v"]
    by (auto simp: should_checkpoint_def intro: le_less_trans)
  have brk: "vf_break_kind v \<noteq> None \<longrightarrow>
      vf_break_no v \<noteq> None \<and> vf_break_kind v = Some (discrepancy_kind_value (kind_of v))
      \<and> numeric_ok (coalesce (vf_break_balance v) 0)
      \<and> (case expected_balance v of None \<Rightarrow> True | Some b \<Rightarrow> numeric_ok b)
      \<and> bigint_ok (coalesce (vf_break_no v) 0) \<and> bigint_ok (coalesce (vf_break_prev_no v) 0)"
  proof
    assume "vf_break_kind v \<noteq> None"
    from row_reports_break [OF t(3) this] obtain r rs where
      r: "rest = r # rs" "vf_break_no v = Some (l_no r)"
      "vf_break_kind v = Some (discrepancy_kind_value (kind_of v))"
      "vf_break_balance v = Some (l_balance r)" "vf_break_prev_no v = Some (last_good_no v)" .
    show "vf_break_no v \<noteq> None \<and> vf_break_kind v = Some (discrepancy_kind_value (kind_of v))
      \<and> numeric_ok (coalesce (vf_break_balance v) 0)
      \<and> (case expected_balance v of None \<Rightarrow> True | Some b \<Rightarrow> numeric_ok b)
      \<and> bigint_ok (coalesce (vf_break_no v) 0) \<and> bigint_ok (coalesce (vf_break_prev_no v) 0)"
      using row [of r] r(1) assms(4) prev
      unfolding r(2,4,5) representable_def by (intro conjI r(3)) simp_all
  qed
  have "is_target ps now d (vf_account_id v)" "account_exists d (vf_account_id v)"
    using targets_is_target [OF t(1)] t(4) by simp_all
  then show ?thesis
    unfolding recordable_def using ck brk by (simp only: is_target_def simp_thms)
qed

lemma next_batch_accounts:
  assumes "db_ok d" "0 \<le> rows_per_account ps"
  shows "map vf_account_id (query_rows ps now d) = map tg_account_id (targets ps now d)"
  by (simp add: next_batch_eq [OF assms] comp_def)

lemma verify_run_eq:
  assumes "db_ok d" "0 \<le> rows_per_account ps" "\<not> batch_query_raises pl ps db_now d" "\<forall>v \<in> set (query_rows ps db_now d). representable v"
  shows "verify_run pl ps db_now now True d =
    Inr (run_effect now (query_rows ps db_now d) d,
      Some \<lparr>log_accounts = length (query_rows ps db_now d),
            log_checkpoints = int (length (advanced (query_rows ps db_now d))),
            log_discrepancies = int (length (broken (query_rows ps db_now d)))\<rparr>)"
proof -
  let ?vs = "query_rows ps db_now d"
  have "distinct (map vf_account_id ?vs)"
    unfolding next_batch_accounts [OF assms(1,2)] by (rule targets_distinct [OF assms(1)])
  moreover have "\<forall>v \<in> set ?vs. recordable d v"
    using next_batch_recordable [OF assms(1,2)] assms(4) by blast
  ultimately show ?thesis
    using assms(3) by (simp add: verify_run_def next_batch_def verify_loop_eq)
qed

section \<open>When a run raises\<close>

text \<open>
  Besides the query, the only statement of a run that can fail is the insertion of a discrepancy whose expected
  balance does not fit its column; the exception rolls the whole run back.
\<close>

lemma unrepresentable_raises:
  assumes "db_ok d" "0 \<le> rows_per_account ps" "v \<in> set (query_rows ps now d)" "\<not> representable v"
  shows "vf_break_kind v \<noteq> None
    \<and> (\<forall>d'. record_discrepancy at v d' = Inl (DataError ''customer_account_ledger_discrepancy''))"
proof -
  have k: "vf_break_kind v \<noteq> None"
    using assms(4) by (auto simp: representable_def expected_balance_def split: if_splits)
  obtain b where b: "expected_balance v = Some b" "\<not> numeric_ok b"
    using assms(4) by (auto simp: representable_def split: option.splits)
  from next_batch_row [OF assms(1-3)] obtain t good rest where rep: "row_reports v good rest" .
  from row_reports_break [OF rep k] obtain r rs where "rest = r # rs"
    "vf_break_no v = Some (l_no r)" "vf_break_kind v = Some (discrepancy_kind_value (kind_of v))" .
  then show ?thesis
    using b by (simp add: record_discrepancy_def insert_discrepancy_def)
qed

lemma verify_loop_raises:
  assumes "distinct (map vf_account_id vs)"
    and "\<forall>v \<in> set vs. recordable d v
      \<or> vf_break_kind v \<noteq> None \<and> (\<forall>d'. record_discrepancy now v d' = Inl e)"
    and "\<exists>v \<in> set vs. \<not> recordable d v"
  shows "verify_loop now vs (d, c, n) = Inl e"
  using assms
proof (induction vs arbitrary: d c n)
  case (Cons v vs)
  show ?case
  proof (cases "recordable d v")
    case False
    then show ?thesis using Cons.prems(2) by simp
  next
    case True
    let ?d1 = "run_effect now [v] d"
    have other: "vf_account_id u \<noteq> vf_account_id v" if "u \<in> set vs" for u
      using Cons.prems(1) that by (auto simp: rev_image_eqI)
    then have keep: "recordable d u \<Longrightarrow> recordable ?d1 u" if "u \<in> set vs" for u
      using recordable_other that by blast
    have never: "\<not> recordable d'' u" if "vf_break_kind u \<noteq> None" "\<forall>d'. record_discrepancy now u d' = Inl e" for u d''
      using record_discrepancy_recordable [of d'' u now] that by auto
    have "distinct (map vf_account_id vs)" using Cons.prems(1) by simp
    moreover have "\<forall>u \<in> set vs. recordable ?d1 u
        \<or> vf_break_kind u \<noteq> None \<and> (\<forall>d'. record_discrepancy now u d' = Inl e)"
    proof
      fix u assume u: "u \<in> set vs"
      then have "recordable d u \<or> vf_break_kind u \<noteq> None \<and> (\<forall>d'. record_discrepancy now u d' = Inl e)"
        by (intro bspec [OF Cons.prems(2)]) simp
      then show "recordable ?d1 u \<or> vf_break_kind u \<noteq> None \<and> (\<forall>d'. record_discrepancy now u d' = Inl e)"
        using keep [OF u] by (elim disjE) (rule disjI1, assumption, rule disjI2)
    qed
    moreover have "\<exists>u \<in> set vs. \<not> recordable ?d1 u"
    proof -
      obtain u where u: "u \<in> set (v # vs)" "\<not> recordable d u" using Cons.prems(3) by blast
      then have "u \<in> set vs" using True by auto
      moreover have "vf_break_kind u \<noteq> None \<and> (\<forall>d'. record_discrepancy now u d' = Inl e)"
        using bspec [OF Cons.prems(2) u(1)] u(2) by (elim disjE) (erule notE, assumption)
      ultimately show ?thesis using never by (intro bexI [of _ u]) simp_all
    qed
    ultimately have "verify_loop now vs (?d1, c + int (length (advanced [v])), n + int (length (broken [v]))) = Inl e"
      by (rule Cons.IH)
    then show ?thesis unfolding verify_loop_step [OF True] .
  qed
qed simp

lemma verify_run_raises:
  assumes "db_ok d" "0 \<le> rows_per_account ps" "\<not> batch_query_raises pl ps db_now d" "v \<in> set (query_rows ps db_now d)" "\<not> representable v"
  shows "verify_run pl ps db_now now True d = Inl (DataError ''customer_account_ledger_discrepancy'')"
proof -
  let ?vs = "query_rows ps db_now d" and ?e = "DataError ''customer_account_ledger_discrepancy''"
  have "verify_loop now ?vs (d, 0, 0) = Inl ?e"
  proof (rule verify_loop_raises)
    show "distinct (map vf_account_id ?vs)"
      unfolding next_batch_accounts [OF assms(1,2)] by (rule targets_distinct [OF assms(1)])
    show "\<forall>v \<in> set ?vs. recordable d v
        \<or> vf_break_kind v \<noteq> None \<and> (\<forall>d'. record_discrepancy now v d' = Inl ?e)"
      using next_batch_recordable [OF assms(1,2)] unrepresentable_raises [OF assms(1,2)] by blast
    show "\<exists>v \<in> set ?vs. \<not> recordable d v"
    proof (rule bexI [OF _ assms(4)])
      show "\<not> recordable d v"
        using unrepresentable_raises [OF assms(1,2,4,5), of now] record_discrepancy_recordable [of d v now] by auto
    qed
  qed
  then show ?thesis using assms(3) by (simp add: verify_run_def next_batch_def)
qed

lemma next_batch_negative:
  assumes "rows_per_account ps < 0"
  shows "query_rows ps now d = []"
proof -
  have "windowed d (rows_per_account ps + 1) ts = []" for ts
    using assms by (simp add: windowed_def window_def sql_limit_def Let_def)
  then show ?thesis
    by (simp add: query_rows_def Let_def batch_tail_def order_by_desc_def map_filter_def)
qed

section \<open>When the query does not raise\<close>

text \<open>The settings the defaults are examples of, and ledgers and checkpoints numbered from zero on.\<close>

definition batch_settings_ok :: "verify_params \<Rightarrow> timestamp \<Rightarrow> bool" where
  "batch_settings_ok ps now \<longleftrightarrow> 0 \<le> accounts_per_run ps \<and> 0 \<le> rows_per_account ps \<and> parameters_ok ps \<and> age_ok ps now"

lemma batch_settings_okD:
  "batch_settings_ok ps now \<Longrightarrow> 0 \<le> accounts_per_run ps" "batch_settings_ok ps now \<Longrightarrow> 0 \<le> rows_per_account ps"
  by (simp_all add: batch_settings_ok_def)

lemma batch_query_raises_iff:
  "batch_settings_ok ps now \<Longrightarrow> batch_query_raises pl ps now d = lag_overflows pl d"
  by (auto simp: batch_settings_ok_def batch_query_raises_def)

lemma bigint_ok_diff: "bigint_ok n \<Longrightarrow> bigint_ok m \<Longrightarrow> 0 \<le> n \<Longrightarrow> 0 \<le> m \<Longrightarrow> bigint_ok (n - m)"
  by (simp add: bigint_ok_def)

lemma bigint_ok_next: "bigint_ok n \<Longrightarrow> bigint_ok m \<Longrightarrow> n < m \<Longrightarrow> bigint_ok (n + 1)"
  by (simp add: bigint_ok_def)

lemma no_lag_overflow:
  assumes "db_ok d" "\<forall>r \<in> set (ledger d). 0 \<le> l_no r" "\<forall>v \<in> set (verified d). 0 \<le> v_through_no v"
  shows "\<not> lag_overflows pl d"
proof -
  have "0 \<le> anchor_no_of d i" for i
    using assms(3) by (cases d i rule: anchor_cases) auto
  moreover have "bigint_ok (l_no l)" if "l \<in> set (ledger d)" for l using that assms(1) by (simp add: constraint_defs)
  ultimately have "bigint_ok (l_no l - anchor_no_of d i)" if "l \<in> set (ledger d)" for l i
    using bigint_ok_diff [of "l_no l" "anchor_no_of d i"] anchor_bigint [OF assms(1), of i] assms(2) that by simp
  then show ?thesis by (auto simp: lag_overflows_def list_ex_iff)
qed

text \<open>The other sum of \<open>bigint\<close>s, \<open>chain_prev_no + 1\<close>, never overflows: a target has a row beyond its anchor.\<close>

lemma chain_next_fits:
  assumes "db_ok d" "t \<in> set (targets ps now d)"
  shows "bigint_ok (tg_anchor_no t + 1)"
    "r \<in> set (ledger d) \<Longrightarrow> s \<in> set (ledger d) \<Longrightarrow> l_no r < l_no s \<Longrightarrow> bigint_ok (l_no r + 1)"
proof -
  obtain l where "l \<in> set (ledger d)" "tg_anchor_no t < l_no l"
    using targets_is_target(1) [OF assms(2)] target_anchor(1) [OF assms(2)] by (auto simp: is_target_def list_ex_iff)
  moreover have rows: "bigint_ok (l_no l)" if "l \<in> set (ledger d)" for l using that assms(1) by (simp add: constraint_defs)
  ultimately show "bigint_ok (tg_anchor_no t + 1)"
    using bigint_ok_next [OF _ rows] anchor_bigint [OF assms(1), of "tg_account_id t"] target_anchor(1) [OF assms(2)] by simp
  assume "r \<in> set (ledger d)" "s \<in> set (ledger d)" "l_no r < l_no s"
  then show "bigint_ok (l_no r + 1)" using bigint_ok_next [OF rows rows] by blast
qed

text \<open>Whatever the settings, a run that returns has exactly the effect of its batch.\<close>

lemma verify_run_Inr:
  assumes "db_ok d" "verify_run pl ps db_now now lock d = Inr (d', lg)"
  shows "d' = run_effect now (if lock then query_rows ps db_now d else []) d"
proof (cases "lock \<and> 0 \<le> rows_per_account ps")
  case True
  have raises: "\<not> batch_query_raises pl ps db_now d"
    using True assms(2) by (auto simp: verify_run_def next_batch_def)
  have "\<forall>v \<in> set (query_rows ps db_now d). representable v"
    using verify_run_raises [OF assms(1) _ raises, of _ now] True assms(2) by fastforce
  from verify_run_eq [OF assms(1) _ raises this, of now] True assms(2) show ?thesis by simp
next
  case False
  then show ?thesis
    using assms(2) by (auto simp: verify_run_def next_batch_def next_batch_negative split: if_splits)
qed

end
