(* ===== verification/Verifier_Invariants.thy ===== *)
theory Verifier_Invariants
  imports Verifier_Runs
begin

text \<open>
  The contract between the payments, which append to the ledger, and the verification, which only
  reads it from the last checkpoint on: a checkpoint certifies every row behind it, and stays a
  certificate whatever the two do afterwards, in any order.
\<close>

section \<open>The run as a transaction\<close>

record verify_event =
  ve_plan :: query_plan
  ve_params :: verify_params
  ve_db_now :: timestamp
  ve_now :: timestamp
  ve_lock :: bool

definition verify_tx :: "verify_event \<Rightarrow> db \<Rightarrow> exc + db" where
  "verify_tx e d = map_sum id fst (verify_run (ve_plan e) (ve_params e) (ve_db_now e) (ve_now e) (ve_lock e) d)"

definition batch_of :: "verify_event \<Rightarrow> db \<Rightarrow> verification list" where
  "batch_of e d = (if ve_lock e then query_rows (ve_params e) (ve_db_now e) d else [])"

lemma verify_tx_Inr:
  assumes "db_ok d" "verify_tx e d = Inr d'"
  shows "d' = run_effect (ve_now e) (batch_of e d) d"
proof -
  obtain r where "verify_run (ve_plan e) (ve_params e) (ve_db_now e) (ve_now e) (ve_lock e) d = Inr (d', r)"
    using assms(2) by (auto simp: verify_tx_def map_sum_def split: sum.splits)
  from verify_run_Inr [OF assms(1) this] show ?thesis by (simp add: batch_of_def)
qed

lemma numbered_accounts: "map d_account_id (numbered now n vs) = map vf_account_id vs"
  by (induction vs arbitrary: n) simp_all

lemma numbered_ids: "map d_id (numbered now n vs) = map (\<lambda>k. n + int k) [0..<length vs]"
proof (induction vs arbitrary: n)
  case (Cons v vs)
  have "[0..<Suc (length vs)] = 0 # map Suc [0..<length vs]"
    by (metis map_Suc_upt upt_conv_Cons zero_less_Suc)
  with Cons [of "n + 1"] show ?case by (simp add: comp_def algebra_simps del: upt_Suc)
qed simp

lemma numbered_open: "filter is_open (numbered now n vs) = numbered now n vs"
  by (induction vs arbitrary: n) (simp_all add: is_open_def)

lemma numbered_set: "x \<in> set (numbered now n vs) \<Longrightarrow>
    n \<le> d_id x \<and> d_id x < n + int (length vs) \<and> is_open x
    \<and> (\<exists>v \<in> set vs. d_account_id x = vf_account_id v)"
  by (induction vs arbitrary: n) (fastforce simp: is_open_def)+

lemma record_steps_ok:
  "record_discrepancy now v d = Inr d' \<Longrightarrow> db_ok d \<Longrightarrow> db_ok d'"
  "record_verified now v d = Inr d' \<Longrightarrow> db_ok d \<Longrightarrow> db_ok d'"
  by (auto simp: record_discrepancy_def record_verified_def add_checkpoint_def
      split: option.splits sum.splits intro: insert_discrepancy_ok insert_verified_ok)

lemma verify_loop_ok:
  assumes "verify_loop now vs (d, c, n) = Inr (d', c', n')" "db_ok d"
  shows "db_ok d'"
  using assms
proof (induction vs arbitrary: d c n)
  case (Cons v vs)
  from Cons.prems(1) obtain d1 n1 d2 c2 where
    a: "(if vf_break_kind v \<noteq> None then map_sum id (\<lambda>d'. (d', n + 1)) (record_discrepancy now v d)
        else Inr (d, n)) = Inr (d1, n1)"
    and b: "(if should_checkpoint v then map_sum id (\<lambda>d'. (d', c + 1)) (record_verified now v d1)
        else Inr (d1, c)) = Inr (d2, c2)"
    and l: "verify_loop now vs (d2, c2, n1) = Inr (d', c', n')"
    by (auto split: sum.splits prod.splits)
  have "db_ok d1"
    using a Cons.prems(2) by (cases "record_discrepancy now v d") (auto split: if_splits intro: record_steps_ok)
  then have "db_ok d2"
    using b by (cases "record_verified now v d1") (auto split: if_splits intro: record_steps_ok)
  from Cons.IH [OF l this] show ?case .
qed simp

lemma verify_tx_ok: "verify_tx e d = Inr d' \<Longrightarrow> db_ok d \<Longrightarrow> db_ok d'"
  by (auto simp: verify_tx_def verify_run_def map_sum_def split: sum.splits if_splits prod.splits
      dest: verify_loop_ok)

interpretation verify: transaction verify_tx db_ok
  by unfold_locales (rule verify_tx_ok)

section \<open>Certificates\<close>

text \<open>The rows of an account with numbers from 1 up to \<open>n\<close>.\<close>

definition prefix_to :: "db \<Rightarrow> uuid \<Rightarrow> int \<Rightarrow> customer_account_ledger list" where
  "prefix_to d i n = filter (\<lambda>r. 0 < l_no r \<and> l_no r \<le> n) (ledger_of d i)"

definition certifies :: "db \<Rightarrow> customer_account_ledger_verified \<Rightarrow> bool" where
  "certifies d v \<longleftrightarrow> 0 < v_through_no v \<and> chain 0 0 (prefix_to d (v_account_id v) (v_through_no v))
     \<and> tail_of 0 0 (prefix_to d (v_account_id v) (v_through_no v)) = (v_through_no v, v_balance v)"

definition checkpoints_certify :: "db \<Rightarrow> bool" where
  "checkpoints_certify d \<longleftrightarrow> (\<forall>v \<in> set (verified d). certifies d v)"

definition checkpoints_true :: "db \<Rightarrow> bool" where
  "checkpoints_true d \<longleftrightarrow> (\<forall>v \<in> set (verified d). \<exists>r \<in> set (ledger d).
     l_account_id r = v_account_id v \<and> l_no r = v_through_no v \<and> l_balance r = v_balance v)"

lemma certified_row:
  assumes "certifies d v"
  obtains r where "r \<in> set (ledger d)" "l_account_id r = v_account_id v" "l_no r = v_through_no v"
    "l_balance r = v_balance v" "prefix_to d (v_account_id v) (v_through_no v) \<noteq> []"
    "r = last (prefix_to d (v_account_id v) (v_through_no v))"
proof -
  let ?p = "prefix_to d (v_account_id v) (v_through_no v)"
  have ne: "?p \<noteq> []" using assms by (auto simp: certifies_def)
  then have "last ?p \<in> set ?p" by simp
  then have "last ?p \<in> set (ledger d)" "l_account_id (last ?p) = v_account_id v"
    by (auto simp: prefix_to_def)
  moreover have "l_no (last ?p) = v_through_no v" "l_balance (last ?p) = v_balance v"
    using assms tail_of_last [OF ne] by (simp_all add: certifies_def)
  ultimately show thesis using ne that by blast
qed

lemma certify_true: "checkpoints_certify d \<Longrightarrow> checkpoints_true d"
  unfolding checkpoints_certify_def checkpoints_true_def by (metis certified_row)

lemma certifies_cong: "ledger d' = ledger d \<Longrightarrow> certifies d' v = certifies d v"
  by (simp add: certifies_def prefix_to_def ledger_of_def)

text \<open>Splitting a strictly sorted list at a number.\<close>

lemma filter_split_at:
  assumes "sorted_wrt (<) (map l_no ls)" "0 \<le> a" "a \<le> c"
  shows "filter (\<lambda>r. 0 < l_no r \<and> l_no r \<le> c) ls =
    filter (\<lambda>r. 0 < l_no r \<and> l_no r \<le> a) ls @ filter (\<lambda>r. a < l_no r \<and> l_no r \<le> c) ls"
  using assms(1)
proof (induction ls)
  case (Cons x xs)
  have later: "l_no x < l_no y" if "y \<in> set xs" for y using Cons.prems that by simp
  show ?case
  proof (cases "l_no x \<le> a")
    case True
    with Cons assms(2,3) show ?thesis by auto
  next
    case False
    then have "filter (\<lambda>r. 0 < l_no r \<and> l_no r \<le> a) xs = []"
      using later by (fastforce simp: filter_empty_conv)
    with Cons False assms(2,3) show ?thesis by auto
  qed
qed simp

lemma filter_sorted_append:
  assumes "sorted_wrt (<) (map l_no (g @ rest))" "g \<noteq> []"
  shows "filter (\<lambda>r. l_no r \<le> l_no (last g)) (g @ rest) = g"
proof -
  have "l_no x \<le> l_no (last g)" if "x \<in> set g" for x
  proof -
    obtain g' where g': "g = g' @ [last g]" using assms(2) by (metis append_butlast_last_id)
    then have "sorted_wrt (<) (map l_no (g' @ [last g]))"
      using assms(1) by (metis map_append sorted_wrt_append)
    moreover have "x \<in> set (g' @ [last g])" using that g' by metis
    ultimately show ?thesis by (auto simp: sorted_wrt_append less_imp_le)
  qed
  moreover have "l_no (last g) < l_no x" if "x \<in> set rest" for x
    using assms that by (simp add: sorted_wrt_append)
  ultimately have "filter (\<lambda>r. l_no r \<le> l_no (last g)) g = g"
    "filter (\<lambda>r. l_no r \<le> l_no (last g)) rest = []"
    by (auto simp: filter_id_conv filter_empty_conv not_le)
  then show ?thesis by simp
qed

lemma anchored_beyond:
  assumes "anchored a b good" "sorted_wrt (<) (map l_no good)" "\<forall>r \<in> set good. a \<le> l_no r"
  shows "chain a b (filter (\<lambda>r. a < l_no r) good)
    \<and> tail_of a b (filter (\<lambda>r. a < l_no r) good) = tail_of a b good"
proof (cases good)
  case (Cons r rs)
  have late: "filter (\<lambda>r. a < l_no r) rs = rs"
    using assms(2,3) Cons by (fastforce simp: filter_id_conv)
  show ?thesis
    using assms Cons late by (cases "l_no r = a") auto
qed simp

lemma certificate_extends:
  assumes "db_ok d" "0 \<le> a" "chain 0 0 (prefix_to d i a)" "tail_of 0 0 (prefix_to d i a) = (a, b)"
    and "take k (filter (\<lambda>l. a \<le> l_no l) (ledger_of d i)) = good @ rest"
    and "anchored a b good" "tail_of a b good = (c, cb)" "a < c"
  shows "chain 0 0 (prefix_to d i c) \<and> tail_of 0 0 (prefix_to d i c) = (c, cb)"
proof -
  let ?F = "filter (\<lambda>l. a \<le> l_no l) (ledger_of d i)"
  note L = ledger_of_strict [OF assms(1), of i]
  have F: "?F = good @ (rest @ drop k ?F)"
    using assms(5) by (metis append.assoc append_take_drop_id)
  have sF: "sorted_wrt (<) (map l_no ?F)"
    using L by (simp add: sorted_wrt_map sorted_wrt_filter)
  have ne: "good \<noteq> []" using assms(7,8) by auto
  then have c: "c = l_no (last good)" using assms(7) by (simp add: tail_of_last)
  have sA: "sorted_wrt (<) (map l_no (good @ (rest @ drop k ?F)))" using sF F by metis
  have "filter (\<lambda>r. l_no r \<le> c) ?F = good"
    using filter_sorted_append [OF sA ne] F c by metis
  then have "filter (\<lambda>r. a < l_no r) good = filter (\<lambda>r. a < l_no r) (filter (\<lambda>r. l_no r \<le> c) ?F)"
    by simp
  also have "\<dots> = filter (\<lambda>r. a < l_no r \<and> l_no r \<le> c) (ledger_of d i)"
    by (auto intro: filter_cong)
  finally have mid: "filter (\<lambda>r. a < l_no r \<and> l_no r \<le> c) (ledger_of d i) = filter (\<lambda>r. a < l_no r) good" ..
  have "set good \<subseteq> set ?F" by (subst F) auto
  then have ge: "\<forall>r \<in> set good. a \<le> l_no r" by auto
  have sg: "sorted_wrt (<) (map l_no good)" using sA by (simp add: sorted_wrt_append)
  have "prefix_to d i c = prefix_to d i a @ filter (\<lambda>r. a < l_no r) good"
    using filter_split_at [OF L assms(2), of c] assms(8) mid by (simp add: prefix_to_def)
  then show ?thesis
    using anchored_beyond [OF assms(6) sg ge] assms(3,4,7) by (simp add: chain_append tail_of_append)
qed

lemma anchor_certified:
  assumes "checkpoints_certify d"
  shows "0 \<le> anchor_no_of d i" "chain 0 0 (prefix_to d i (anchor_no_of d i))"
    "tail_of 0 0 (prefix_to d i (anchor_no_of d i)) = (anchor_no_of d i, anchor_balance_of d i)"
proof -
  have "0 \<le> anchor_no_of d i \<and> chain 0 0 (prefix_to d i (anchor_no_of d i))
      \<and> tail_of 0 0 (prefix_to d i (anchor_no_of d i)) = (anchor_no_of d i, anchor_balance_of d i)"
  proof (cases d i rule: anchor_cases)
    case fresh
    then show ?thesis by (simp add: prefix_to_def filter_False)
  next
    case (checkpoint v)
    then show ?thesis using assms by (auto simp: checkpoints_certify_def certifies_def)
  qed
  then show "0 \<le> anchor_no_of d i" "chain 0 0 (prefix_to d i (anchor_no_of d i))"
    "tail_of 0 0 (prefix_to d i (anchor_no_of d i)) = (anchor_no_of d i, anchor_balance_of d i)"
    by simp_all
qed

lemma new_checkpoint_certifies:
  assumes "db_ok d" "0 \<le> rows_per_account ps" "checkpoints_certify d"
    and "v \<in> set (query_rows ps db_now d)" "should_checkpoint v"
  shows "certifies d (checkpoint_of now v)"
proof -
  from next_batch_row [OF assms(1,2,4)] obtain t good rest where
    t: "t \<in> set (targets ps db_now d)" "window d (rows_per_account ps + 1) t = good @ rest"
    "row_reports v good rest" "vf_account_id v = tg_account_id t" "vf_anchor_no v = tg_anchor_no t"
    "vf_anchor_balance v = tg_anchor_balance t" .
  let ?i = "tg_account_id t"
  note A = anchor_certified [OF assms(3), of ?i, folded target_anchor [OF t(1)]]
  have g: "anchored (tg_anchor_no t) (tg_anchor_balance t) good"
    "tail_of (tg_anchor_no t) (tg_anchor_balance t) good = (last_good_no v, last_good_balance v)"
    "tg_anchor_no t < last_good_no v"
    using t(3,5,6) assms(5) by (simp_all add: row_reports_def should_checkpoint_def)
  from certificate_extends [OF assms(1) A t(2) [unfolded window_eq [OF assms(1)]] g] A(1) g(3) t(4)
  show ?thesis by (simp add: certifies_def)
qed

lemma verify_tx_certify:
  assumes "db_ok d" "checkpoints_certify d" "verify_tx e d = Inr d'"
  shows "checkpoints_certify d'"
proof -
  note d' = verify_tx_Inr [OF assms(1,3)]
  have new: "certifies d (checkpoint_of (ve_now e) v)" if "v \<in> set (advanced (batch_of e d))" for v
  proof -
    have v: "v \<in> set (query_rows (ve_params e) (ve_db_now e) d)" "should_checkpoint v"
      using that by (auto simp: advanced_def batch_of_def split: if_splits)
    then have "0 \<le> rows_per_account (ve_params e)"
      using next_batch_negative [of "ve_params e" "ve_db_now e" d] by (cases "rows_per_account (ve_params e) < 0") auto
    from new_checkpoint_certifies [OF assms(1) this assms(2) v] show ?thesis .
  qed
  have "certifies d' v = certifies d v" for v
    by (rule certifies_cong) (simp add: d')
  then show ?thesis
    using new assms(2) by (auto simp: checkpoints_certify_def d')
qed

lemma payment_certify:
  assumes "db_ok d" "checkpoints_certify d" "apply_payment now event d = Inr d'"
  shows "checkpoints_certify d'"
proof -
  have "certifies d' v" if "v \<in> set (verified d)" for v
  proof -
    have v: "certifies d v" using that assms(2) by (simp add: checkpoints_certify_def)
    from certified_row [OF v] obtain r where
      r: "r \<in> set (ledger d)" "l_account_id r = v_account_id v" "l_no r = v_through_no v" .
    have "prefix_to d' (v_account_id v) (v_through_no v) = prefix_to d (v_account_id v) (v_through_no v)"
    proof (cases "has_ledger_operation d (p_account_id event) (p_id event)")
      case True
      with assms(1,3) show ?thesis by (cases rule: apply_payment_cases) simp_all
    next
      case False
      have "l_no r \<le> l_no (last (ledger_of d (v_account_id v)))"
        by (rule ledger_of_last_greatest [OF assms(1)]) (use r in simp)
      then show ?thesis
        using apply_payment_ledger_of [OF assms(1) False assms(3), of "v_account_id v"] r(3)
        by (auto simp: prefix_to_def)
    qed
    then show ?thesis using v by (simp add: certifies_def)
  qed
  then show ?thesis
    using assms(2) apply_payment_frame(3) [OF assms(1,3)] by (simp add: checkpoints_certify_def)
qed

end
