(* ===== verification/Verifier_Properties.thy ===== *)
theory Verifier_Properties
  imports Verifier_Invariants
begin

text \<open>
  The properties of the ledger verification, alone and interleaved with the payments: it raises no
  alarm on intact ledgers, its checkpoints certify what lies behind them, it records and quarantines
  what is broken, it catches up, and it fails in one case only.
\<close>

section \<open>Payments and verification interleaved\<close>

datatype background_event =
    Pay timestamp create_payment
  | Verify verify_event

fun background_tx :: "background_event \<Rightarrow> db \<Rightarrow> exc + db" where
  "background_tx (Pay now event) d = apply_payment now event d"
| "background_tx (Verify e) d = verify_tx e d"

lemma verify_tx_frame:
  assumes "db_ok d" "verify_tx e d = Inr d'"
  shows "customers d' = customers d" "accounts d' = accounts d" "ledger d' = ledger d"
    "account_history d' = account_history d" "set (verified d) \<subseteq> set (verified d')"
    "set (discrepancies d) \<subseteq> set (discrepancies d')"
  by (auto simp: verify_tx_Inr [OF assms])

interpretation background: transaction background_tx "\<lambda>d. db_ok d \<and> checkpoints_certify d"
proof
  fix d e d'
  assume a: "db_ok d \<and> checkpoints_certify d" "background_tx e d = Inr d'"
  show "db_ok d' \<and> checkpoints_certify d'"
  proof (cases e)
    case (Pay now event)
    with a show ?thesis
      using apply_payment_ok [of d now event d'] payment_certify [of d now event d'] by simp
  next
    case (Verify ve)
    with a show ?thesis
      using verify_tx_ok [of ve d d'] verify_tx_certify [of d ve d'] by simp
  qed
qed

section \<open>Intact ledgers\<close>

lemma intact_anchored:
  assumes "chain 0 0 ls" "a = 0 \<and> b = 0 \<or> (\<exists>r \<in> set ls. l_no r = a \<and> l_balance r = b)"
  shows "anchored a b (filter (\<lambda>l. a \<le> l_no l) ls)"
  using assms(2)
proof
  assume "a = 0 \<and> b = 0"
  moreover have "filter (\<lambda>l. 0 \<le> l_no l) ls = ls"
    using chain_no_bounds [OF assms(1)] by (fastforce simp: filter_id_conv)
  ultimately show ?thesis using assms(1) by (simp add: anchored_chain)
next
  assume "\<exists>r \<in> set ls. l_no r = a \<and> l_balance r = b"
  then obtain r xs ys where r: "ls = xs @ r # ys" "l_no r = a" "l_balance r = b"
    by (metis split_list)
  then have c: "chain 0 0 xs" "chain a b ys" "a = fst (tail_of 0 0 xs) + 1"
    using assms(1) by (auto simp: chain_append)
  have "filter (\<lambda>l. a \<le> l_no l) xs = []"
    using chain_no_bounds [OF c(1)] c(3) chain_tail [OF c(1)] by (fastforce simp: filter_empty_conv)
  moreover have "filter (\<lambda>l. a \<le> l_no l) ys = ys"
    using chain_no_bounds [OF c(2)] by (fastforce simp: filter_id_conv)
  ultimately show ?thesis using r c(2) by simp
qed

lemma intact_window:
  assumes "db_ok d" "ledger_intact d i" "checkpoints_true d" "t \<in> set (targets ps now d)" "tg_account_id t = i"
  shows "anchored (tg_anchor_no t) (tg_anchor_balance t) (window d k t)"
proof -
  have "anchor_no_of d i = 0 \<and> anchor_balance_of d i = 0
    \<or> (\<exists>r \<in> set (ledger_of d i). l_no r = anchor_no_of d i \<and> l_balance r = anchor_balance_of d i)"
  proof (cases d i rule: anchor_cases)
    case (checkpoint v)
    then show ?thesis using assms(3) by (force simp: checkpoints_true_def)
  qed simp
  from intact_anchored [OF assms(2) [unfolded ledger_intact_def] this]
  have "anchored (tg_anchor_no t) (tg_anchor_balance t) (filter (\<lambda>l. tg_anchor_no t \<le> l_no l) (ledger_of d i))"
    using target_anchor [OF assms(4)] assms(5) by simp
  then show ?thesis
    unfolding window_eq [OF assms(1)] assms(5) by (metis anchored_append_chain append_take_drop_id)
qed

lemma intact_row:
  assumes "db_ok d" "0 \<le> rows_per_account ps" "ledger_intact d (tg_account_id t)" "checkpoints_true d"
    and "t \<in> set (targets ps now d)"
  shows "vf_break_kind (reference_row (rows_per_account ps + 1) t (window d (rows_per_account ps + 1) t)) = None"
    "last_good_no (reference_row (rows_per_account ps + 1) t (window d (rows_per_account ps + 1) t))
      = l_no (last (window d (rows_per_account ps + 1) t))"
  using reference_row_Intact [OF intact_window [OF assms(1,3,4,5) refl] window_nonempty [OF assms(1,5)]] assms(2)
  by simp_all

lemma intact_batch:
  assumes "db_ok d" "0 \<le> rows_per_account ps" "all_intact d" "checkpoints_true d"
  shows "broken (query_rows ps now d) = []" "\<forall>v \<in> set (query_rows ps now d). representable v"
proof -
  have none: "vf_break_kind v = None" if "v \<in> set (query_rows ps now d)" for v
    using that intact_row(1) [OF assms(1,2) _ assms(4)] assms(3)
    by (auto simp: next_batch_eq [OF assms(1,2)] all_intact_def)
  then show "broken (query_rows ps now d) = []" by (auto simp: broken_def filter_empty_conv)
  show "\<forall>v \<in> set (query_rows ps now d). representable v"
    using none by (simp add: representable_def expected_balance_def)
qed

text \<open>On such ledgers no subtraction of the query overflows, whatever the plan computes.\<close>

lemma intact_query:
  assumes "db_ok d" "all_intact d" "checkpoints_true d" "batch_settings_ok ps now"
  shows "\<not> batch_query_raises pl ps now d"
proof -
  have rows: "0 \<le> l_no r" if "r \<in> set (ledger d)" for r
    using chain_no_bounds [of 0 0 "ledger_of d (l_account_id r)" r] assms(2) that
    by (simp add: all_intact_def ledger_intact_def)
  moreover have "0 \<le> v_through_no v" if "v \<in> set (verified d)" for v
    using assms(3) that rows by (force simp: checkpoints_true_def)
  ultimately show ?thesis
    using no_lag_overflow [OF assms(1)] batch_query_raises_iff [OF assms(4)] by blast
qed

definition full_plan :: query_plan where
  "full_plan = \<lparr>pl_lag = \<lambda>_ _. True, pl_age = True\<rparr>"

lemma sample_settings_ok: "batch_settings_ok sample_params 9"
  by (simp add: batch_settings_ok_def parameters_ok_def age_ok_def timestamp_ok_def bigint_ok_def)

section \<open>Properties\<close>

text \<open>C6: A verification run that gets the lock raises no alarm on intact ledgers: if every ledger is a
  chain and every checkpoint names a row that is there with that balance, and the settings are neither negative
  nor too big for the query, the run returns, adds one
  checkpoint for each account it advanced on, logs zero discrepancies and changes nothing else.\<close>

theorem intact_ledgers_raise_no_alarm:
  assumes "db_ok d" "batch_settings_ok ps db_now" "all_intact d" "checkpoints_true d"
  shows "verify_run pl ps db_now now True d =
    Inr (d\<lparr>verified := verified d @ map (checkpoint_of now) (advanced (query_rows ps db_now d))\<rparr>,
      Some \<lparr>log_accounts = length (targets ps db_now d),
        log_checkpoints = int (length (advanced (query_rows ps db_now d))), log_discrepancies = 0\<rparr>)"
  using verify_run_eq [OF assms(1) batch_settings_okD(2) [OF assms(2)] intact_query [OF assms(1,3,4,2)], where now = now and pl = pl]
    intact_batch [OF assms(1) batch_settings_okD(2) [OF assms(2)] assms(3,4), of db_now]
  by (simp add: run_effect_def next_batch_eq [OF assms(1) batch_settings_okD(2) [OF assms(2)]])

lemma sample_checkpoints: "checkpoints_true sample_db" "checkpoints_certify sample_db"
  by (simp_all add: checkpoints_true_def checkpoints_certify_def)

theorem intact_ledgers_raise_no_alarm_witness:
  "\<exists>lg. verify_run full_plan sample_params 9 9 True sample_db =
     Inr (sample_db\<lparr>verified := map (checkpoint_of 9) (advanced (query_rows sample_params 9 sample_db))\<rparr>, Some lg)
   \<and> log_accounts lg = 1 \<and> log_discrepancies lg = 0"
  using intact_ledgers_raise_no_alarm [OF sample_db_ok sample_settings_ok sample_all_intact sample_checkpoints(1), where pl = full_plan and now = 9]
  by (simp add: sample_targets)

text \<open>C4: Whatever the ledgers contained when verification started, after any interleaving of payment
  jobs and verification runs every checkpoint is a certificate: the account's rows from number 1 up
  to the checkpoint's are numbered without a gap, each balance follows from the one before it, and
  the last of them carries exactly the checkpoint's number and balance.\<close>

theorem checkpoints_certify_their_prefix:
  assumes "db_ok d" "verified d = []" "v \<in> set (verified (run_all background_tx es d))"
  shows "let rows = filter (\<lambda>r. 0 < l_no r \<and> l_no r \<le> v_through_no v)
        (ledger_of (run_all background_tx es d) (v_account_id v))
    in rows \<noteq> [] \<and> chain 0 0 rows \<and> l_no (last rows) = v_through_no v \<and> l_balance (last rows) = v_balance v
      \<and> v_balance v = (\<Sum>r \<leftarrow> rows. l_amount r)"
proof -
  let ?d = "run_all background_tx es d"
  have "checkpoints_certify ?d"
    using background.run_all_inv [of d es] assms(1,2) by (simp add: checkpoints_certify_def)
  then have c: "certifies ?d v" using assms(3) by (simp add: checkpoints_certify_def)
  from certified_row [OF this] have ne: "prefix_to ?d (v_account_id v) (v_through_no v) \<noteq> []" .
  show ?thesis
    using c ne tail_of_last [OF ne] chain_tail [of 0 0 "prefix_to ?d (v_account_id v) (v_through_no v)"]
    by (simp add: certifies_def prefix_to_def Let_def)
qed

definition sample_verify :: verify_event where
  "sample_verify = \<lparr>ve_plan = full_plan, ve_params = sample_params, ve_db_now = 9, ve_now = 9, ve_lock = True\<rparr>"

lemma sample_batch:
  "query_rows sample_params now sample_db =
    [\<lparr>vf_account_id = 10, vf_anchor_no = 0, vf_anchor_balance = 0, vf_batch_rows = 3,
      vf_batch_limit = 1001, vf_batch_last_no = 3, vf_batch_last_balance = 2000,
      vf_break_no = None, vf_break_kind = None, vf_break_amount = None,
      vf_break_balance = None, vf_break_prev_no = None, vf_break_prev_balance = None\<rparr>]"
proof -
  have w: "window sample_db 1001 \<lparr>tg_account_id = 10, tg_anchor_no = 0, tg_anchor_balance = 0\<rparr> = sample_rows"
    by (simp add: window_eq [OF sample_db_ok] sample_ledger_of sample_rows_def)
  have "query_rows sample_params now sample_db =
      [reference_row 1001 \<lparr>tg_account_id = 10, tg_anchor_no = 0, tg_anchor_balance = 0\<rparr> sample_rows]"
    using next_batch_eq [OF sample_db_ok, of sample_params now] by (simp add: sample_targets w)
  moreover have "check_window 0 0 sample_rows = Intact 3 2000" by (simp add: sample_rows_def)
  ultimately show ?thesis by (simp add: reference_row_def Let_def sample_rows_def)
qed

lemma sample_verified:
  "verify_tx sample_verify sample_db =
    Inr (sample_db\<lparr>verified := [\<lparr>v_account_id = 10, v_through_no = 3, v_balance = 2000, v_verified_at = 9\<rparr>]\<rparr>)"
proof -
  have "verify_run full_plan sample_params 9 9 True sample_db = Inr (run_effect 9 (query_rows sample_params 9 sample_db) sample_db,
      Some \<lparr>log_accounts = length (query_rows sample_params 9 sample_db),
        log_checkpoints = int (length (advanced (query_rows sample_params 9 sample_db))),
        log_discrepancies = int (length (broken (query_rows sample_params 9 sample_db)))\<rparr>)"
    using verify_run_eq [OF sample_db_ok _ intact_query [OF sample_db_ok sample_all_intact sample_checkpoints(1) sample_settings_ok]
        intact_batch(2) [OF sample_db_ok _ sample_all_intact sample_checkpoints(1)], where now = 9 and pl = full_plan] by simp
  then show ?thesis
    by (simp add: verify_tx_def sample_verify_def sample_batch run_effect_def should_checkpoint_def
        last_good_no_def last_good_balance_def checkpoint_of_def)
qed

theorem checkpoints_certify_their_prefix_witness:
  "let d = run_all background_tx [Verify sample_verify, Pay 10 (sample_payment 23 (-1500))] sample_db;
       rows = filter (\<lambda>r. 0 < l_no r \<and> l_no r \<le> 3) (ledger_of d 10)
   in rows \<noteq> [] \<and> chain 0 0 rows \<and> l_no (last rows) = 3 \<and> l_balance (last rows) = 2000
     \<and> 2000 = (\<Sum>r \<leftarrow> rows. l_amount r)"
proof -
  let ?v = "\<lparr>v_account_id = 10, v_through_no = 3, v_balance = 2000, v_verified_at = 9\<rparr>"
  let ?d = "sample_db\<lparr>verified := [?v]\<rparr>"
  have ok: "db_ok ?d" using verify_tx_ok [OF sample_verified sample_db_ok] .
  have "verified (committed background_tx (Pay 10 (sample_payment 23 (-1500))) ?d) = [?v]"
    by (auto simp: committed_def dest: apply_payment_frame(3) [OF ok] split: sum.splits)
  then have "?v \<in> set (verified (run_all background_tx [Verify sample_verify, Pay 10 (sample_payment 23 (-1500))] sample_db))"
    by (simp add: committed_def sample_verified)
  from checkpoints_certify_their_prefix [OF sample_db_ok _ this] show ?thesis
    by (simp only: sample_db_sel customer_account_ledger_verified.select_convs Let_def simp_thms)
qed

section \<open>Quarantine\<close>

lemma payments_discrepancies:
  assumes "db_ok d"
  shows "discrepancies (run_all payment_tx es d) = discrepancies d"
  using assms
proof (induction es arbitrary: d)
  case (Cons e es)
  have "discrepancies (committed payment_tx e d) = discrepancies d"
    using apply_payment_frame(4) [OF Cons.prems] by (cases e) (auto simp: committed_def split: sum.splits)
  moreover have "db_ok (committed payment_tx e d)"
    using apply_payment_ok [OF Cons.prems] Cons.prems by (cases e) (auto simp: committed_def split: sum.splits)
  ultimately show ?case using Cons.IH by simp
qed simp

lemma numbered_mem: "v \<in> set vs \<Longrightarrow> \<exists>n. discrepancy_of now n v \<in> set (numbered now m vs)"
proof (induction vs arbitrary: m)
  case (Cons u us)
  then show ?case using Cons.IH [of "m + 1"] by (cases "v = u") auto
qed simp

lemma quarantined:
  "has_open_discrepancy d i \<Longrightarrow> i \<notin> tg_account_id ` set (targets ps now d)"
  using targets_is_target(1) by (auto simp: is_target_def)

text \<open>What a run leaves of the checkpoints of a target: none past the last good number of its row.\<close>

lemma run_checkpoint_limit:
  assumes "db_ok d" "0 \<le> rows_per_account ps" "t \<in> set (targets ps db_now d)"
    and "w \<in> set (verified (run_effect now (query_rows ps db_now d) d))" "v_account_id w = tg_account_id t"
  shows "v_through_no w \<le> max (tg_anchor_no t)
    (last_good_no (reference_row (rows_per_account ps + 1) t (window d (rows_per_account ps + 1) t)))"
proof -
  let ?k = "rows_per_account ps + 1" and ?vs = "query_rows ps db_now d"
  let ?v = "reference_row ?k t (window d ?k t)"
  have v: "?v \<in> set ?vs" using assms(3) by (simp add: next_batch_eq [OF assms(1,2)])
  consider "w \<in> set (verified d)" | u where "u \<in> set ?vs" "w = checkpoint_of now u"
    using assms(4) by (auto simp: advanced_def)
  then show ?thesis
  proof cases
    case 1
    then show ?thesis
      using anchor_no_greatest [OF 1 assms(5)] target_anchor(1) [OF assms(3)] by simp
  next
    case 2
    have "distinct (map vf_account_id ?vs)"
      unfolding next_batch_accounts [OF assms(1,2)] by (rule targets_distinct [OF assms(1)])
    moreover have "vf_account_id u = vf_account_id ?v" using 2(2) assms(5) by simp
    ultimately have "u = ?v" using 2(1) v by (meson distinct_map_inj_on inj_onD)
    then show ?thesis using 2(2) by simp
  qed
qed

text \<open>What a run leaves of a target whose rows do not continue its checkpoint.\<close>

lemma broken_ledger_is_reported:
  assumes "db_ok d" "0 \<le> rows_per_account ps" "t \<in> set (targets ps db_now d)"
    and "\<not> anchored (tg_anchor_no t) (tg_anchor_balance t) (window d (rows_per_account ps + 1) t)"
    and "verify_run pl ps db_now now True d = Inr (d', lg)"
  shows "\<exists>x \<in> set (discrepancies d'). d_account_id x = tg_account_id t \<and> d_resolved_at x = None
        \<and> (\<exists>good r rest. window d (rows_per_account ps + 1) t = good @ r # rest
            \<and> anchored (tg_anchor_no t) (tg_anchor_balance t) good
            \<and> \<not> anchored (tg_anchor_no t) (tg_anchor_balance t) (good @ [r])
            \<and> d_no x = l_no r \<and> d_prev_no x = fst (tail_of (tg_anchor_no t) (tg_anchor_balance t) good)
            \<and> (\<forall>w \<in> set (verified d'). v_account_id w = tg_account_id t \<longrightarrow>
                  v_through_no w \<le> max (tg_anchor_no t) (d_prev_no x)))"
proof -
  let ?k = "rows_per_account ps + 1" and ?vs = "query_rows ps db_now d" and ?i = "tg_account_id t"
  let ?v = "reference_row ?k t (window d ?k t)"
  have v: "?v \<in> set ?vs" using assms(3) by (simp add: next_batch_eq [OF assms(1,2)])
  have d': "d' = run_effect now ?vs d" using verify_run_Inr [OF assms(1,5)] by simp
  have ge: "\<forall>r \<in> set (window d ?k t). tg_anchor_no t \<le> l_no r" using window_ge [OF assms(1)] by blast
  from reference_row_reports [OF window_nonempty [OF assms(1,3)] window_sorted [OF assms(1)] ge, of ?k] assms(2)
  obtain good rest where g: "window d ?k t = good @ rest" "row_reports ?v good rest" by auto
  obtain r rs where rest: "rest = r # rs"
    using g assms(4) by (cases rest) (auto simp: row_reports_def)
  have rep: "anchored (tg_anchor_no t) (tg_anchor_balance t) good"
    "tail_of (tg_anchor_no t) (tg_anchor_balance t) good = (last_good_no ?v, last_good_balance ?v)"
    "\<not> anchored (tg_anchor_no t) (tg_anchor_balance t) (good @ [r])"
    "vf_break_no ?v = Some (l_no r)" "vf_break_kind ?v \<noteq> None" "vf_break_prev_no ?v = Some (last_good_no ?v)"
    using g(2) by (simp_all add: row_reports_def rest)
  have "?v \<in> set (broken ?vs)" using v rep(5) by (simp add: broken_def)
  then obtain n where x: "discrepancy_of now n ?v \<in> set (numbered now (next_discrepancy_id d) (broken ?vs))"
    using numbered_mem by blast
  let ?x = "discrepancy_of now n ?v"
  have xin: "?x \<in> set (discrepancies d')" using x by (simp add: d')
  have prev: "d_prev_no ?x = last_good_no ?v" using rep(6) by (simp add: discrepancy_of_def)
  have limit: "v_through_no w \<le> max (tg_anchor_no t) (d_prev_no ?x)"
    if w: "w \<in> set (verified d')" "v_account_id w = ?i" for w
    using run_checkpoint_limit [OF assms(1-3) w(1) [unfolded d'] w(2)] prev by simp
  have shape: "window d ?k t = good @ r # rs" using g(1) rest by simp
  have no: "d_no ?x = l_no r" using rep(4) by simp
  have pv: "d_prev_no ?x = fst (tail_of (tg_anchor_no t) (tg_anchor_balance t) good)" using rep(2) prev by simp
  have acc: "d_account_id ?x = ?i" "d_resolved_at ?x = None" by simp_all
  show ?thesis using xin acc shape rep(1,3) no pv limit by blast
qed

text \<open>C5: Tampering with what a run reads is detected and contained. If the rows of a target do not
  continue its checkpoint, the run (when it returns) leaves an open discrepancy on the account that
  names the first bad row and the last good number, moves the checkpoint at most to that last good
  number, and from then on, whatever payments arrive, no run selects the account until an operator
  resolves the discrepancy.\<close>

theorem broken_ledger_is_quarantined:
  assumes "db_ok d" "0 \<le> rows_per_account ps" "t \<in> set (targets ps db_now d)"
    and "\<not> anchored (tg_anchor_no t) (tg_anchor_balance t) (window d (rows_per_account ps + 1) t)"
    and "verify_run pl ps db_now now True d = Inr (d', lg)"
  shows "(\<exists>x \<in> set (discrepancies d'). d_account_id x = tg_account_id t \<and> d_resolved_at x = None
        \<and> (\<exists>good r rest. window d (rows_per_account ps + 1) t = good @ r # rest
            \<and> anchored (tg_anchor_no t) (tg_anchor_balance t) good
            \<and> \<not> anchored (tg_anchor_no t) (tg_anchor_balance t) (good @ [r])
            \<and> d_no x = l_no r \<and> d_prev_no x = fst (tail_of (tg_anchor_no t) (tg_anchor_balance t) good)
            \<and> (\<forall>w \<in> set (verified d'). v_account_id w = tg_account_id t \<longrightarrow>
                  v_through_no w \<le> max (tg_anchor_no t) (d_prev_no x))))
    \<and> (\<forall>es ps' now'. tg_account_id t \<notin> tg_account_id ` set (targets ps' now' (run_all payment_tx es d')))"
proof -
  have ok': "db_ok d'"
    using verify_tx_ok [of "\<lparr>ve_plan = pl, ve_params = ps, ve_db_now = db_now, ve_now = now, ve_lock = True\<rparr>" d d'] assms(1,5)
    by (simp add: verify_tx_def)
  note reported = broken_ledger_is_reported [OF assms]
  then obtain x where "x \<in> set (discrepancies d')" "d_account_id x = tg_account_id t" "d_resolved_at x = None" by blast
  then have "has_open_discrepancy (run_all payment_tx es d') (tg_account_id t)" for es
    unfolding has_open_discrepancy_def payments_discrepancies [OF ok'] list_ex_iff by blast
  then show ?thesis using reported quarantined by blast
qed

abbreviation sample_target :: target where
  "sample_target \<equiv> \<lparr>tg_account_id = 10, tg_anchor_no = 0, tg_anchor_balance = 0\<rparr>"

lemma tampered_window: "window tampered_db 1001 sample_target = tampered_rows"
  by (simp add: window_eq [OF tampered_db_ok] tampered_ledger_of tampered_rows_def sample_rows_def)

text \<open>The rows of the sample ledgers are numbered from 1, and nothing is verified yet.\<close>

lemma sample_query_raises:
  assumes "db_ok d" "verified d = []" "map l_no (ledger d) = [1, 2, 3]"
  shows "\<not> batch_query_raises pl sample_params 9 d"
proof -
  have "list_all (\<lambda>n. 0 \<le> n) (map l_no (ledger d))" unfolding assms(3) by simp
  then have "\<forall>r \<in> set (ledger d). 0 \<le> l_no r" by (simp add: list_all_iff)
  then show ?thesis
    using no_lag_overflow [OF assms(1)] assms(2) batch_query_raises_iff [OF sample_settings_ok] by simp
qed

lemma sample_query: "\<not> batch_query_raises pl sample_params 9 tampered_db"
  by (rule sample_query_raises [OF tampered_db_ok]) (simp_all add: tampered_rows_def sample_rows_def)

lemma tampered_run:
  "\<exists>lg. verify_run full_plan sample_params 9 9 True tampered_db =
    Inr (run_effect 9 (query_rows sample_params 9 tampered_db) tampered_db, lg)"
proof -
  have "\<forall>v \<in> set (query_rows sample_params 9 tampered_db). representable v"
    by (simp add: tampered_batch representable_def expected_balance_def numeric_ok_def)
  from verify_run_eq [OF tampered_db_ok _ sample_query this, where now = 9 and pl = full_plan] show ?thesis by simp
qed

theorem broken_ledger_is_quarantined_witness:
  "let d' = run_effect 9 (query_rows sample_params 9 tampered_db) tampered_db
   in \<exists>x \<in> set (discrepancies d'). d_account_id x = 10 \<and> d_resolved_at x = None"
proof -
  obtain lg where run: "verify_run full_plan sample_params 9 9 True tampered_db =
    Inr (run_effect 9 (query_rows sample_params 9 tampered_db) tampered_db, lg)"
    using tampered_run by blast
  have "sample_target \<in> set (targets sample_params 9 tampered_db)" by (simp add: tampered_targets)
  moreover have "\<not> anchored (tg_anchor_no sample_target) (tg_anchor_balance sample_target)
      (window tampered_db (rows_per_account sample_params + 1) sample_target)"
    by (simp add: tampered_window) (simp add: tampered_rows_def sample_rows_def)
  ultimately show ?thesis
    using broken_ledger_is_quarantined [OF tampered_db_ok _ _ _ run, of sample_target]
    unfolding Let_def by force
qed

section \<open>Progress\<close>














text \<open>A run with settings that leave the window empty has nothing to record.\<close>

lemma verify_run_fails:
  assumes "db_ok d"
  shows "(\<exists>e. verify_run pl ps db_now now True d = Inl e) \<longleftrightarrow> batch_query_raises pl ps db_now d
    \<or> (\<exists>v \<in> set (query_rows ps db_now d). \<not> representable v)"
proof (cases "batch_query_raises pl ps db_now d")
  case True
  then show ?thesis by (simp add: verify_run_def next_batch_def)
next
  case False
  note q = False
  show ?thesis
  proof (cases "0 \<le> rows_per_account ps")
    case True
    then show ?thesis
      using verify_run_eq [OF assms True q, of now] verify_run_raises [OF assms True q, of _ now] q by fastforce
  next
    case False
    then show ?thesis using q next_batch_negative [of ps db_now d] by (simp add: verify_run_def next_batch_def)
  qed
qed

lemma lag_overflows_iff:
  assumes "db_ok d"
  shows "lag_overflows pl d \<longleftrightarrow> (\<exists>l \<in> set (ledger d). pl_lag pl (l_account_id l) (l_no l)
    \<and> \<not> bigint_ok (l_no l - anchor_no_of d (l_account_id l)))"
    (is "_ \<longleftrightarrow> ?overflow")
proof
  assume "lag_overflows pl d"
  then obtain a l where "a \<in> set (accounts d)" "l \<in> set (ledger d)" "l_account_id l = a_id a" "pl_lag pl (a_id a) (l_no l)"
    "\<not> bigint_ok (l_no l - anchor_no_of d (a_id a))"
    unfolding lag_overflows_def list_ex_iff by blast
  then show ?overflow by (intro bexI [of _ l]) simp_all
next
  assume ?overflow
  then obtain l where l: "l \<in> set (ledger d)" "pl_lag pl (l_account_id l) (l_no l)"
    "\<not> bigint_ok (l_no l - anchor_no_of d (l_account_id l))" by blast
  have "account_exists d (l_account_id l)" using assms l(1) by (simp add: constraint_defs)
  then obtain a where "a \<in> set (accounts d)" "a_id a = l_account_id l" by (auto simp: account_exists_def list_ex_iff)
  then show "lag_overflows pl d"
    using l unfolding lag_overflows_def list_ex_iff by (intro bexI [of _ a] bexI [of _ l]) simp_all
qed

text \<open>C9: A run that gets the lock fails in exactly these cases: the query raises, because a setting is too
  big for its parameter, a limit is negative (that of the window only when there is a target), the time limit is
  computed and no timestamp can hold it, or the distance of a row from the last checkpoint is computed and does
  not fit a \<open>bigint\<close>; or the expected balance of a broken row does not fit the column it is stored in. Then all
  of the run is rolled back, the checkpoints and reports of every other account included; otherwise all of it is
  committed.\<close>

theorem verify_run_fails_iff:
  assumes "db_ok d"
  shows "let fails = (\<not> parameters_ok ps \<or> accounts_per_run ps < 0 \<or> rows_per_account ps < -1 \<and> targets ps db_now d \<noteq> []
      \<or> pl_age pl \<and> \<not> age_ok ps db_now
      \<or> (\<exists>l \<in> set (ledger d). pl_lag pl (l_account_id l) (l_no l) \<and> \<not> bigint_ok (l_no l - anchor_no_of d (l_account_id l)))
      \<or> (\<exists>v \<in> set (query_rows ps db_now d). \<exists>b. expected_balance v = Some b \<and> \<not> numeric_ok b))
    in ((\<exists>e. verify_run pl ps db_now now True d = Inl e) \<longleftrightarrow> fails)
      \<and> run_all verify_tx [\<lparr>ve_plan = pl, ve_params = ps, ve_db_now = db_now, ve_now = now, ve_lock = True\<rparr>] d
        = (if fails then d else run_effect now (query_rows ps db_now d) d)"
    (is "let fails = ?fails in _")
proof -
  have "rows_per_account ps + 1 < 0 \<longleftrightarrow> rows_per_account ps < -1"
    "\<not> representable v \<longleftrightarrow> (\<exists>b. expected_balance v = Some b \<and> \<not> numeric_ok b)" for v
    by (auto simp: representable_def split: option.splits)
  then have f: "(\<exists>e. verify_run pl ps db_now now True d = Inl e) \<longleftrightarrow> ?fails"
    unfolding verify_run_fails [OF assms] batch_query_raises_def lag_overflows_iff [OF assms] by blast
  have "d' = run_effect now (query_rows ps db_now d) d" if "verify_run pl ps db_now now True d = Inr (d', lg)" for d' lg
    using verify_run_Inr [OF assms that] by simp
  then have "run_all verify_tx [\<lparr>ve_plan = pl, ve_params = ps, ve_db_now = db_now, ve_now = now, ve_lock = True\<rparr>] d
      = (if \<exists>e. verify_run pl ps db_now now True d = Inl e then d else run_effect now (query_rows ps db_now d) d)"
    by (cases "verify_run pl ps db_now now True d") (auto simp: committed_def verify_tx_def)
  then show ?thesis unfolding Let_def f by simp
qed

text \<open>Two rows of the sample ledger changed to 60 trillion each: every value fits its column.\<close>

definition oversized_rows :: "customer_account_ledger list" where
  "oversized_rows = [sample_rows ! 0, (sample_rows ! 1)\<lparr>l_amount := 6 * 10 ^ 15, l_balance := 6 * 10 ^ 15\<rparr>,
     (sample_rows ! 2)\<lparr>l_amount := 6 * 10 ^ 15\<rparr>]"

definition oversized_db :: db where
  "oversized_db = sample_db\<lparr>ledger := oversized_rows\<rparr>"

lemma oversized_db_ok: "db_ok oversized_db"
  by (simp add: constraint_defs oversized_db_def oversized_rows_def sample_defs customer_create_def
      numeric_ok_def bigint_ok_def account_exists_def)

lemma oversized_targets: "targets sample_params now oversized_db = [sample_target]"
  by (subst single_target [of _ sample_account "last oversized_rows"])
    (simp_all add: oversized_db_def oversized_rows_def sample_rows_def)

lemma oversized_batch:
  "\<exists>v \<in> set (query_rows sample_params now oversized_db).
     \<exists>b. expected_balance v = Some b \<and> \<not> numeric_ok b"
proof -
  have "ledger_of oversized_db 10 = oversized_rows"
    by (simp add: ledger_of_def oversized_db_def oversized_rows_def sample_defs order_by_def)
  then have w: "window oversized_db 1001 sample_target = oversized_rows"
    by (simp add: window_eq [OF oversized_db_ok] oversized_rows_def sample_rows_def)
  have "query_rows sample_params now oversized_db = [reference_row 1001 sample_target oversized_rows]"
    using next_batch_eq [OF oversized_db_ok, of sample_params now] by (simp add: oversized_targets w)
  moreover have "check_window 0 0 oversized_rows =
      Broken (oversized_rows ! 2) ''balance'' 2 (6 * 10 ^ 15)"
    by (simp add: oversized_rows_def sample_rows_def)
  ultimately show ?thesis
    by (simp add: reference_row_def Let_def expected_balance_def numeric_ok_def oversized_rows_def sample_rows_def)
qed

theorem verify_run_fails_iff_witness:
  "(\<exists>e. verify_run full_plan sample_params 9 9 True oversized_db = Inl e)
   \<and> run_all verify_tx [\<lparr>ve_plan = full_plan, ve_params = sample_params, ve_db_now = 9, ve_now = 9, ve_lock = True\<rparr>] oversized_db
     = oversized_db"
  using verify_run_fails_iff [OF oversized_db_ok, where pl = full_plan and ps = sample_params and db_now = 9 and now = 9] oversized_batch
  unfolding Let_def by simp

end
