(* ===== verification/Digests.thy ===== *)
theory Digests
  imports Prelude
begin

text \<open>
  The byte-level routines of the standard library the service uses: UTF-8, URL-safe base 64,
  SHA-256 (FIPS 180-4) and HMAC (RFC 2104), written out on lists of bytes so that tokens can be
  computed.
\<close>

unbundle bit_operations_syntax

type_synonym byte = "8 word"

section \<open>Text\<close>

text \<open>\<open>s.encode("utf-8")\<close> for code points below 256.\<close>

definition utf8_char :: "char \<Rightarrow> byte list" where
  "utf8_char c = (let n = of_char c :: nat
     in if n < 128 then [of_nat n] else [of_nat (192 + n div 64), of_nat (128 + n mod 64)])"

definition utf8 :: "string \<Rightarrow> byte list" where
  "utf8 s = concat (map utf8_char s)"

text \<open>\<open>base64.urlsafe_b64encode\<close>.\<close>

definition b64_char :: "nat \<Rightarrow> char" where
  "b64_char n = ''ABCDEFGHIJKLMNOPQRSTUVWXYZabcdefghijklmnopqrstuvwxyz0123456789-_'' ! n"

definition join3 :: "byte \<Rightarrow> byte \<Rightarrow> byte \<Rightarrow> nat" where
  "join3 a b c = (unat a * 256 + unat b) * 256 + unat c"

definition sextets :: "nat \<Rightarrow> nat list" where
  "sextets n = [n div 262144, n div 4096 mod 64, n div 64 mod 64, n mod 64]"

definition quad :: "byte \<Rightarrow> byte \<Rightarrow> byte \<Rightarrow> string" where
  "quad a b c = map b64_char (sextets (join3 a b c))"

fun urlsafe_b64encode :: "byte list \<Rightarrow> string" where
  "urlsafe_b64encode [] = []"
| "urlsafe_b64encode [a] = take 2 (quad a 0 0) @ ''==''"
| "urlsafe_b64encode [a, b] = take 3 (quad a b 0) @ ''=''"
| "urlsafe_b64encode (a # b # c # bs) = quad a b c @ urlsafe_b64encode bs"

section \<open>SHA-256\<close>

type_synonym word32 = "32 word"

text \<open>The first 32 bits of the fractional parts of the cube roots of the first 64 primes, and of the
  square roots of the first eight.\<close>

definition round_constants :: "word32 list" where
  "round_constants = [
     1116352408, 1899447441, 3049323471, 3921009573, 961987163, 1508970993, 2453635748, 2870763221,
     3624381080, 310598401, 607225278, 1426881987, 1925078388, 2162078206, 2614888103, 3248222580,
     3835390401, 4022224774, 264347078, 604807628, 770255983, 1249150122, 1555081692, 1996064986,
     2554220882, 2821834349, 2952996808, 3210313671, 3336571891, 3584528711, 113926993, 338241895,
     666307205, 773529912, 1294757372, 1396182291, 1695183700, 1986661051, 2177026350, 2456956037,
     2730485921, 2820302411, 3259730800, 3345764771, 3516065817, 3600352804, 4094571909, 275423344,
     430227734, 506948616, 659060556, 883997877, 958139571, 1322822218, 1537002063, 1747873779,
     1955562222, 2024104815, 2227730452, 2361852424, 2428436474, 2756734187, 3204031479, 3329325298]"

type_synonym hash_state = "word32 \<times> word32 \<times> word32 \<times> word32 \<times> word32 \<times> word32 \<times> word32 \<times> word32"

definition initial_hash :: hash_state where
  "initial_hash = (1779033703, 3144134277, 1013904242, 2773480762, 1359893119, 2600822924, 528734635, 1541459225)"

definition big_sigma0 :: "word32 \<Rightarrow> word32" where
  "big_sigma0 x = word_rotr 2 x XOR word_rotr 13 x XOR word_rotr 22 x"

definition big_sigma1 :: "word32 \<Rightarrow> word32" where
  "big_sigma1 x = word_rotr 6 x XOR word_rotr 11 x XOR word_rotr 25 x"

definition small_sigma0 :: "word32 \<Rightarrow> word32" where
  "small_sigma0 x = word_rotr 7 x XOR word_rotr 18 x XOR drop_bit 3 x"

definition small_sigma1 :: "word32 \<Rightarrow> word32" where
  "small_sigma1 x = word_rotr 17 x XOR word_rotr 19 x XOR drop_bit 10 x"

text \<open>The message schedule, the newest word first.\<close>

fun extend_schedule :: "nat \<Rightarrow> word32 list \<Rightarrow> word32 list" where
  "extend_schedule 0 ws = ws"
| "extend_schedule (Suc n) ws =
     extend_schedule n ((small_sigma1 (ws ! 1) + ws ! 6 + small_sigma0 (ws ! 14) + ws ! 15) # ws)"

fun sha_round :: "hash_state \<Rightarrow> word32 \<times> word32 \<Rightarrow> hash_state" where
  "sha_round (a, b, c, d, e, f, g, h) (k, w) =
     (let t1 = h + big_sigma1 e + ((e AND f) XOR (NOT e AND g)) + k + w;
          t2 = big_sigma0 a + ((a AND b) XOR (a AND c) XOR (b AND c))
      in (t1 + t2, a, b, c, d + t1, e, f, g))"

fun add_state :: "hash_state \<Rightarrow> hash_state \<Rightarrow> hash_state" where
  "add_state (a, b, c, d, e, f, g, h) (a', b', c', d', e', f', g', h') =
     (a + a', b + b', c + c', d + d', e + e', f + f', g + g', h + h')"

definition compress :: "hash_state \<Rightarrow> word32 list \<Rightarrow> hash_state" where
  "compress s block =
     add_state s (foldl sha_round s (zip round_constants (rev (extend_schedule 48 (rev block)))))"

fun words_of :: "byte list \<Rightarrow> word32 list" where
  "words_of (a # b # c # d # bs) =
     of_nat (((unat a * 256 + unat b) * 256 + unat c) * 256 + unat d) # words_of bs"
| "words_of _ = []"

fun big_endian :: "nat \<Rightarrow> nat \<Rightarrow> byte list" where
  "big_endian 0 n = []"
| "big_endian (Suc k) n = big_endian k (n div 256) @ [of_nat (n mod 256)]"

definition sha_pad :: "byte list \<Rightarrow> byte list" where
  "sha_pad m = m @ [0x80] @ replicate ((119 - length m mod 64) mod 64) 0 @ big_endian 8 (8 * length m)"

function sha_blocks :: "hash_state \<Rightarrow> word32 list \<Rightarrow> hash_state" where
  "sha_blocks s ws = (if ws = [] then s else sha_blocks (compress s (take 16 ws)) (drop 16 ws))"
  by pat_completeness auto
termination
  by (relation "measure (\<lambda>(s, ws). length ws)") auto

declare sha_blocks.simps [simp del]

fun state_bytes :: "hash_state \<Rightarrow> byte list" where
  "state_bytes (a, b, c, d, e, f, g, h) = concat (map (\<lambda>w. big_endian 4 (unat w)) [a, b, c, d, e, f, g, h])"

definition sha256 :: "byte list \<Rightarrow> byte list" where
  "sha256 m = state_bytes (sha_blocks initial_hash (words_of (sha_pad m)))"

section \<open>HMAC\<close>

definition hmac_sha256 :: "byte list \<Rightarrow> byte list \<Rightarrow> byte list" where
  "hmac_sha256 key message =
     (let k = (if 64 < length key then sha256 key else key);
          padded = k @ replicate (64 - length k) 0
      in sha256 (map (\<lambda>b. b XOR 0x5c) padded @ sha256 (map (\<lambda>b. b XOR 0x36) padded @ message)))"

lemma length_big_endian [simp]: "length (big_endian k n) = k"
  by (induction k arbitrary: n) simp_all

lemma length_sha256 [simp]: "length (sha256 m) = 32"
  unfolding sha256_def by (cases "sha_blocks initial_hash (words_of (sha_pad m))" rule: state_bytes.cases) simp

lemma length_hmac [simp]: "length (hmac_sha256 k m) = 32"
  by (simp add: hmac_sha256_def Let_def)

section \<open>Base 64 is injective\<close>

definition b64_table :: string where
  "b64_table = ''ABCDEFGHIJKLMNOPQRSTUVWXYZabcdefghijklmnopqrstuvwxyz0123456789-_''"

lemma b64_table_distinct: "distinct b64_table \<and> length b64_table = 64 \<and> CHR ''='' \<notin> set b64_table"
  unfolding b64_table_def by code_simp

lemma b64_char_inj [simp]: "m < 64 \<Longrightarrow> n < 64 \<Longrightarrow> b64_char m = b64_char n \<longleftrightarrow> m = n"
  using b64_table_distinct unfolding b64_char_def b64_table_def [symmetric]
  by (simp add: nth_eq_iff_index_eq)

lemma b64_char_pad [simp]: "n < 64 \<Longrightarrow> b64_char n \<noteq> CHR ''=''"
  using b64_table_distinct unfolding b64_char_def b64_table_def [symmetric]
  by (metis nth_mem)

lemma byte_bound [simp]: "unat (a :: byte) < 256"
proof -
  have "unat a < 2 ^ LENGTH(8)" by (rule unsigned_less)
  then show ?thesis by simp
qed

lemma group3_inj:
  fixes a b c a' b' c' :: byte
  assumes "join3 a b c = join3 a' b' c'"
  shows "a = a' \<and> b = b' \<and> c = c'"
proof -
  have step: "x = x' \<and> y = y'" if "x * 256 + y = x' * 256 + y'" "y < 256" "y' < 256" for x y x' y' :: nat
  proof -
    have "(x * 256 + y) mod 256 = y" "(x' * 256 + y') mod 256 = y'" using that(2,3) by simp_all
    then have "y = y'" using that(1) by simp
    then show ?thesis using that(1) by simp
  qed
  from step [OF assms [unfolded join3_def] byte_bound byte_bound]
  have "unat a * 256 + unat b = unat a' * 256 + unat b'" and c: "unat c = unat c'" by simp_all
  from step [OF this(1) byte_bound byte_bound] c show ?thesis
    by (metis unsigned_word_eqI)
qed

lemma four_digits:
  fixes n m :: nat
  assumes "n div 262144 = m div 262144" "n div 4096 mod 64 = m div 4096 mod 64"
    "n div 64 mod 64 = m div 64 mod 64" "n mod 64 = m mod 64"
  shows "n = m"
proof -
  have d: "x div 4096 div 64 = x div 262144" "x div 64 div 64 = x div 4096" for x :: nat
    by (simp_all add: div_mult2_eq [symmetric])
  have eq: "x = y" if "x div 64 = y div 64" "x mod 64 = y mod 64" for x y :: nat
    using that by (metis div_mult_mod_eq)
  have a: "n div 4096 = m div 4096" by (rule eq) (simp_all only: d assms)
  have b: "n div 64 = m div 64" by (rule eq) (simp_all only: d assms a)
  show ?thesis by (rule eq) (simp_all only: b assms)
qed

lemma sextets_bound: "n \<in> set (sextets (join3 a b c)) \<Longrightarrow> n < 64"
proof -
  assume n: "n \<in> set (sextets (join3 a b c))"
  have "join3 a b c < 64 * 262144"
  proof -
    have "(x * 256 + y) * 256 + z < 64 * 262144" if "x < 256" "y < 256" "z < 256" for x y z :: nat
      using that by simp
    from this [OF byte_bound byte_bound byte_bound] show ?thesis unfolding join3_def .
  qed
  then have "join3 a b c div 262144 < 64" by (rule less_mult_imp_div_less)
  then show ?thesis using n by (auto simp: sextets_def)
qed

lemma quad_chars: "x \<in> set (quad a b c) \<Longrightarrow> x \<noteq> CHR ''=''"
  unfolding quad_def using sextets_bound by auto

lemma length_quad [simp]: "length (quad a b c) = 4"
  by (simp add: quad_def sextets_def)

lemma b64_map_inj: "length ms = length ns \<Longrightarrow> \<forall>m \<in> set ms. m < 64 \<Longrightarrow> \<forall>n \<in> set ns. n < 64 \<Longrightarrow>
    map b64_char ms = map b64_char ns \<Longrightarrow> ms = ns"
  by (induction ms ns rule: list_induct2) auto

lemma sextets_inj: "sextets n = sextets m \<Longrightarrow> n = m"
  unfolding sextets_def by (rule four_digits) simp_all

lemma quad_take_inj:
  assumes "take k (quad a b c) = take k (quad a' b' c')"
    and "drop k (sextets (join3 a b c)) = drop k (sextets (join3 a' b' c'))"
  shows "a = a' \<and> b = b' \<and> c = c'"
proof -
  have "map b64_char (take k (sextets (join3 a b c))) = map b64_char (take k (sextets (join3 a' b' c')))"
    using assms(1) by (simp add: quad_def take_map)
  then have "take k (sextets (join3 a b c)) = take k (sextets (join3 a' b' c'))"
    by (rule b64_map_inj [rotated 3]) (simp add: sextets_def, (meson sextets_bound in_set_takeD)+)
  then have "sextets (join3 a b c) = sextets (join3 a' b' c')"
    using assms(2) by (metis append_take_drop_id)
  then show ?thesis using sextets_inj group3_inj by blast
qed

lemma short_sextets:
  "drop 2 (sextets (join3 a 0 0)) = [0, 0]" "drop 3 (sextets (join3 a b 0)) = [0]"
proof -
  have m: "x * 256 mod 64 = 0" "x * 65536 div 64 mod 64 = 0" for x :: nat
  proof -
    have "x * 256 = (x * 4) * 64" "x * 65536 = (x * 16 * 64) * 64" by simp_all
    then show "x * 256 mod 64 = 0" "x * 65536 div 64 mod 64 = 0"
      by (simp_all only: mod_mult_self2_is_0 nonzero_mult_div_cancel_right zero_neq_numeral not_False_eq_True)
  qed
  have "join3 a 0 0 = unat a * 65536" "join3 a 0 0 = (unat a * 256) * 256" by (simp_all add: join3_def)
  then show "drop 2 (sextets (join3 a 0 0)) = [0, 0]" using m by (metis drop0 drop_Suc_Cons numeral_2_eq_2 sextets_def)
  have "join3 a b 0 = (unat a * 256 + unat b) * 256" by (simp add: join3_def)
  then show "drop 3 (sextets (join3 a b 0)) = [0]" using m by (metis drop0 drop_Suc_Cons numeral_3_eq_3 sextets_def)
qed

text \<open>How many \<open>=\<close> close the encoding of \<open>n\<close> bytes; what is left when they are stripped.\<close>

fun padding :: "nat \<Rightarrow> nat" where
  "padding 0 = 0"
| "padding (Suc 0) = 2"
| "padding (Suc (Suc 0)) = 1"
| "padding (Suc (Suc (Suc n))) = padding n"

definition rstrip :: "char \<Rightarrow> string \<Rightarrow> string" where
  "rstrip c s = rev (dropWhile (\<lambda>x. x = c) (rev s))"

lemma rstrip_replicate: "s = [] \<or> last s \<noteq> c \<Longrightarrow> rstrip c (s @ replicate n c) = s"
proof -
  assume s: "s = [] \<or> last s \<noteq> c"
  have "dropWhile (\<lambda>x. x = c) (replicate n c @ rev s) = rev s"
    using s by (induction n) (cases s rule: rev_cases; simp)+
  then show ?thesis by (simp add: rstrip_def)
qed

fun b64_body :: "byte list \<Rightarrow> string" where
  "b64_body [] = []"
| "b64_body [a] = take 2 (quad a 0 0)"
| "b64_body [a, b] = take 3 (quad a b 0)"
| "b64_body (a # b # c # bs) = quad a b c @ b64_body bs"

lemma b64_body_padding: "urlsafe_b64encode bs = b64_body bs @ replicate (padding (length bs)) (CHR ''='')"
  by (induction bs rule: b64_body.induct) (simp_all add: numeral_2_eq_2)

lemma b64_body_chars: "x \<in> set (b64_body bs) \<Longrightarrow> x \<noteq> CHR ''=''"
  by (induction bs rule: b64_body.induct) (auto dest!: in_set_takeD dest: quad_chars)

lemma b64_strip: "rstrip (CHR ''='') (urlsafe_b64encode bs) = b64_body bs"
  unfolding b64_body_padding
  by (rule rstrip_replicate) (metis b64_body_chars last_in_set)

lemma b64_body_inj: "length bs = length cs \<Longrightarrow> b64_body bs = b64_body cs \<Longrightarrow> bs = cs"
proof (induction bs arbitrary: cs rule: b64_body.induct)
  case 1
  then show ?case by simp
next
  case (2 a)
  then obtain a' where cs: "cs = [a']" by (cases cs) auto
  show ?case using quad_take_inj [of 2 a 0 0 a' 0 0] 2 short_sextets by (simp add: cs)
next
  case (3 a b)
  then obtain a' b' where cs: "cs = [a', b']" by (cases cs; cases "tl cs") auto
  show ?case using quad_take_inj [of 3 a b 0 a' b' 0] 3 short_sextets by (simp add: cs)
next
  case (4 a b c bs)
  from 4(2) obtain a' b' c' ds where cs: "cs = a' # b' # c' # ds"
    by (cases cs; cases "tl cs"; cases "tl (tl cs)") auto
  have "quad a b c @ b64_body bs = quad a' b' c' @ b64_body ds" using 4(3) by (simp add: cs)
  then have "quad a b c = quad a' b' c'" "b64_body bs = b64_body ds" by simp_all
  then show ?case
    using quad_take_inj [of 4 a b c a' b' c'] 4(1) [of ds] 4(2) by (simp add: cs sextets_def)
qed

end
