(* ===== verification/Request_Ids.thy ===== *)
theory Request_Ids
  imports Prelude
begin

text \<open>
  UUIDs as text and the request id of \<open>infra/request_id.py\<close>: \<open>str(uuid.UUID)\<close> and
  \<open>uuid.UUID(str)\<close> of the standard library as the service uses them, \<open>resolve_request_id\<close> and
  the headers that carry the id from one process to the next.
\<close>

section \<open>String operations of the language\<close>

text \<open>\<open>s.replace(old, new)\<close> for a non-empty \<open>old\<close>, and \<open>s.strip(chars)\<close>.\<close>

function replace_all :: "string \<Rightarrow> string \<Rightarrow> string \<Rightarrow> string" where
  "replace_all old new s =
     (if old = [] then s
      else case s of
        [] \<Rightarrow> []
      | c # cs \<Rightarrow> if take (length old) s = old then new @ replace_all old new (drop (length old) s)
                  else c # replace_all old new cs)"
  by pat_completeness auto
termination
  by (relation "measure (\<lambda>(old, new, s). length s)") auto

declare replace_all.simps [simp del]

definition strip_chars :: "(char \<Rightarrow> bool) \<Rightarrow> string \<Rightarrow> string" where
  "strip_chars P s = rev (dropWhile P (rev (dropWhile P s)))"

lemma replace_all_Nil [simp]: "replace_all old new [] = []"
  by (subst replace_all.simps) simp

lemma replace_all_absent: "hd old \<notin> set s \<Longrightarrow> old \<noteq> [] \<Longrightarrow> replace_all old new s = s"
proof (induction s)
  case (Cons c cs)
  have "take (length old) (c # cs) \<noteq> old"
    using Cons.prems by (cases old) auto
  then show ?case
    using Cons by (subst replace_all.simps) auto
qed simp

lemma replace_all_char: "replace_all [c] new s = concat (map (\<lambda>x. if x = c then new else [x]) s)"
  by (induction s) (simp, subst replace_all.simps, simp)

lemma strip_chars_none: "\<forall>c \<in> set s. \<not> P c \<Longrightarrow> strip_chars P s = s"
proof -
  assume a: "\<forall>c \<in> set s. \<not> P c"
  have "dropWhile P xs = xs" if "\<forall>c \<in> set xs. \<not> P c" for xs using that by (cases xs) auto
  from this [of s] this [of "rev s"] a show ?thesis by (simp add: strip_chars_def)
qed

section \<open>Hexadecimal text\<close>

definition hex_char :: "nat \<Rightarrow> char" where
  "hex_char n = ''0123456789abcdef'' ! n"

definition hex_digit :: "char \<Rightarrow> nat option" where
  "hex_digit c = (let n = of_char c :: nat
     in if 48 \<le> n \<and> n \<le> 57 then Some (n - 48)
        else if 97 \<le> n \<and> n \<le> 102 then Some (n - 87)
        else if 65 \<le> n \<and> n \<le> 70 then Some (n - 55) else None)"

fun hex_of :: "nat \<Rightarrow> nat \<Rightarrow> string" where
  "hex_of 0 n = []"
| "hex_of (Suc k) n = hex_of k (n div 16) @ [hex_char (n mod 16)]"

text \<open>
  The digits of \<open>int(s, 16)\<close>: an underscore may stand between two digits only; \<open>after\<close> says
  whether a digit has just been read.
\<close>

fun read_digits :: "nat \<Rightarrow> bool \<Rightarrow> string \<Rightarrow> nat option" where
  "read_digits acc after [] = (if after then Some acc else None)"
| "read_digits acc after (c # cs) =
     (if c = CHR ''_'' then (if after then read_digits acc False cs else None)
      else case hex_digit c of
        None \<Rightarrow> None
      | Some d \<Rightarrow> read_digits (acc * 16 + d) True cs)"

text \<open>\<open>int(s, 16)\<close>: surrounding white space, a sign, the prefix \<open>0x\<close> and one underscore after it.\<close>

definition is_space :: "char \<Rightarrow> bool" where
  "is_space c = (let n = of_char c :: nat in 9 \<le> n \<and> n \<le> 13 \<or> n = 32 \<or> n = 133 \<or> n = 160)"

definition after_prefix :: "string \<Rightarrow> string" where
  "after_prefix s =
     (case s of
        z # x # rest \<Rightarrow>
          if z = CHR ''0'' \<and> (x = CHR ''x'' \<or> x = CHR ''X'')
          then (case rest of u # more \<Rightarrow> if u = CHR ''_'' then more else rest | [] \<Rightarrow> [])
          else s
      | _ \<Rightarrow> s)"

definition int16 :: "string \<Rightarrow> int option" where
  "int16 s =
     (let t = strip_chars is_space s
      in case t of
           [] \<Rightarrow> None
         | c # cs \<Rightarrow>
             if c = CHR ''+'' then map_option int (read_digits 0 False (after_prefix cs))
             else if c = CHR ''-'' then map_option (\<lambda>n. - int n) (read_digits 0 False (after_prefix cs))
             else map_option int (read_digits 0 False (after_prefix t)))"

section \<open>UUIDs\<close>

text \<open>\<open>str(u)\<close>: 32 hexadecimal digits in groups of 8, 4, 4, 4 and 12.\<close>

definition uuid_hex :: "uuid \<Rightarrow> string" where
  "uuid_hex u = hex_of 32 (unat u)"

definition uuid_str :: "uuid \<Rightarrow> string" where
  "uuid_str u = (let h = uuid_hex u
     in take 8 h @ ''-'' @ take 4 (drop 8 h) @ ''-'' @ take 4 (drop 12 h) @ ''-''
        @ take 4 (drop 16 h) @ ''-'' @ drop 20 h)"

text \<open>\<open>uuid.UUID(hex)\<close>; every failure is a \<open>ValueError\<close>.\<close>

definition uuid_parse :: "string \<Rightarrow> exc + uuid" where
  "uuid_parse raw =
     (let s = replace_all ''uuid:'' [] (replace_all ''urn:'' [] raw);
          hex = replace_all ''-'' [] (strip_chars (\<lambda>c. c = CHR ''{'' \<or> c = CHR ''}'') s)
      in if length hex \<noteq> 32 then Inl ValueError
         else case int16 hex of
           None \<Rightarrow> Inl ValueError
         | Some n \<Rightarrow> if 0 \<le> n \<and> n < 2 ^ 128 then Inr (word_of_int n) else Inl ValueError)"

lemma less_16_cases: "n < 16 \<Longrightarrow> n \<in> {0, 1, 2, 3, 4, 5, 6, 7, 8, 9, 10, 11, 12, 13, 14, 15 :: nat}"
  by (simp only: insert_iff empty_iff) arith

lemma hex_char_digit: "n < 16 \<Longrightarrow> hex_digit (hex_char n) = Some n"
  by (drule less_16_cases) (elim insertE emptyE; simp add: hex_char_def hex_digit_def)

lemma hex_char_plain:
  "n < 16 \<Longrightarrow> hex_char n \<notin> set ''u:{}-_+xX'' \<and> \<not> is_space (hex_char n)"
  by (drule less_16_cases) (elim insertE emptyE; simp add: hex_char_def is_space_def)

lemma length_hex_of [simp]: "length (hex_of k n) = k"
  by (induction k arbitrary: n) simp_all

lemma hex_of_chars: "c \<in> set (hex_of k n) \<Longrightarrow> \<exists>m < 16. c = hex_char m"
  by (induction k arbitrary: n) (auto intro: exI [of _ "_ mod 16"])

lemma read_digits_append:
  "\<forall>c \<in> set xs. \<exists>m < 16. c = hex_char m \<Longrightarrow> xs \<noteq> [] \<Longrightarrow>
    read_digits acc a (xs @ ys) = read_digits (foldl (\<lambda>n c. n * 16 + the (hex_digit c)) acc xs) True ys"
proof (induction xs arbitrary: acc a)
  case (Cons c cs)
  then obtain m where m: "m < 16" "c = hex_char m" by auto
  have "c \<noteq> CHR ''_''" using hex_char_plain [OF m(1)] m(2) by auto
  then show ?case
    using Cons hex_char_digit [OF m(1)] m(2) by (cases "cs = []") auto
qed simp

lemma foldl_hex_of: "n < 16 ^ k \<Longrightarrow> foldl (\<lambda>n c. n * 16 + the (hex_digit c)) acc (hex_of k n) = acc * 16 ^ k + n"
proof (induction k arbitrary: n)
  case (Suc k)
  have "n div 16 < 16 ^ k" using Suc.prems by (simp add: less_mult_imp_div_less mult.commute)
  then have "foldl (\<lambda>n c. n * 16 + the (hex_digit c)) acc (hex_of k (n div 16)) = acc * 16 ^ k + n div 16"
    by (rule Suc.IH)
  then show ?case by (simp add: hex_char_digit algebra_simps)
qed simp

lemma read_hex_of: "0 < k \<Longrightarrow> n < 16 ^ k \<Longrightarrow> read_digits 0 a (hex_of k n) = Some n"
  using read_digits_append [of "hex_of k n" 0 a "[]"] hex_of_chars foldl_hex_of [of n k 0]
  by (force simp flip: length_0_conv)

lemma int16_hex_of:
  assumes "1 < k" "n < 16 ^ k"
  shows "int16 (hex_of k n) = Some (int n)"
proof -
  let ?h = "hex_of k n"
  have plain: "\<not> is_space c \<and> c \<noteq> CHR ''+'' \<and> c \<noteq> CHR ''-'' \<and> c \<noteq> CHR ''x'' \<and> c \<noteq> CHR ''X''" if "c \<in> set ?h" for c
    using hex_of_chars [OF that] hex_char_plain by auto
  then have s: "strip_chars is_space ?h = ?h" by (simp add: strip_chars_none)
  obtain c d cs where h: "?h = c # d # cs"
    using assms(1) by (cases ?h; cases "tl ?h") (auto dest!: arg_cong [of _ _ length])
  have "after_prefix ?h = ?h" using plain [of d] by (simp add: h after_prefix_def)
  moreover have "c \<noteq> CHR ''+''" "c \<noteq> CHR ''-''" using plain [of c] by (simp_all add: h)
  ultimately show ?thesis
    using read_hex_of [OF _ assms(2), of False] assms(1) unfolding int16_def s Let_def
    by (simp add: h del: read_digits.simps)
qed

lemma uuid_hex_chars: "c \<in> set (uuid_hex u) \<Longrightarrow> c \<notin> set ''u:{}-_+xX''"
  using hex_of_chars hex_char_plain unfolding uuid_hex_def by blast

lemma uuid_str_dashes: "filter (\<lambda>c. c \<noteq> CHR ''-'') (uuid_str u) = uuid_hex u"
proof -
  let ?h = "uuid_hex u"
  have f: "filter (\<lambda>c. c \<noteq> CHR ''-'') xs = xs" if "set xs \<subseteq> set ?h" for xs
    using that uuid_hex_chars by (fastforce simp: filter_id_conv)
  have sub: "set (take 8 ?h) \<subseteq> set ?h" "set (take 4 (drop n ?h)) \<subseteq> set ?h" "set (drop n ?h) \<subseteq> set ?h" for n
    by (meson set_take_subset set_drop_subset subset_trans)+
  have "?h = take 8 ?h @ take 4 (drop 8 ?h) @ take 4 (drop 12 ?h) @ take 4 (drop 16 ?h) @ drop 20 ?h"
    using append_take_drop_id [of 8 ?h] append_take_drop_id [of 4 "drop 8 ?h"]
      append_take_drop_id [of 4 "drop 12 ?h"] append_take_drop_id [of 4 "drop 16 ?h"]
    by (simp del: append_take_drop_id)
  then show ?thesis
    by (simp add: uuid_str_def Let_def f sub)
qed

lemma uuid_str_chars: "c \<in> set (uuid_str u) \<Longrightarrow> c \<notin> set ''u:{}_+xX''"
proof -
  assume c: "c \<in> set (uuid_str u)"
  show ?thesis
  proof (cases "c = CHR ''-''")
    case False
    then have "c \<in> set (filter (\<lambda>c. c \<noteq> CHR ''-'') (uuid_str u))" using c by simp
    then show ?thesis using uuid_hex_chars unfolding uuid_str_dashes by fastforce
  qed simp
qed

lemma no_u: "CHR ''u'' \<notin> set (uuid_str u)"
  using uuid_str_chars [of "CHR ''u''" u] by auto

lemma uuid_parse_clean:
  assumes "replace_all ''uuid:'' [] (replace_all ''urn:'' [] raw) = s"
    and "strip_chars (\<lambda>c. c = CHR ''{'' \<or> c = CHR ''}'') s = uuid_str u"
  shows "uuid_parse raw = Inr u"
proof -
  have cat: "concat (map (\<lambda>x. if x = c then [] else [x]) xs) = filter (\<lambda>x. x \<noteq> c) xs" for xs and c :: char
    by (induction xs) simp_all
  have d: "replace_all ''-'' [] (uuid_str u) = uuid_hex u"
    unfolding replace_all_char cat by (rule uuid_str_dashes)
  have "unat u < 2 ^ LENGTH(128)" by (rule unsigned_less)
  then have lt: "unat u < 16 ^ 32" by simp
  have i: "int16 (uuid_hex u) = Some (int (unat u))"
    unfolding uuid_hex_def by (rule int16_hex_of) (use lt in simp_all)
  have len: "length (uuid_hex u) = 32" by (simp add: uuid_hex_def)
  have "uint u < 2 ^ LENGTH(128)" by (rule unsigned_less)
  then have "int (unat u) < 2 ^ 128" by simp
  then show ?thesis
    unfolding uuid_parse_def assms d Let_def i by (simp add: len)
qed

lemma strip_braces:
  "strip_chars (\<lambda>c. c = CHR ''{'' \<or> c = CHR ''}'') (uuid_str u) = uuid_str u"
  "strip_chars (\<lambda>c. c = CHR ''{'' \<or> c = CHR ''}'') (''{'' @ uuid_str u @ ''}'') = uuid_str u"
proof -
  have *: "\<forall>c \<in> set (uuid_str u). \<not> (c = CHR ''{'' \<or> c = CHR ''}'')"
    using uuid_str_chars by fastforce
  then show one: "strip_chars (\<lambda>c. c = CHR ''{'' \<or> c = CHR ''}'') (uuid_str u) = uuid_str u"
    by (rule strip_chars_none)
  have ne: "uuid_str u \<noteq> []" by (simp add: uuid_str_def Let_def)
  have "dropWhile P (xs @ ys) = xs @ ys" if "xs \<noteq> []" "\<forall>c \<in> set xs. \<not> P c" for P and xs ys :: string
    using that by (cases xs) auto
  from this [OF ne, of _ "''}''"] this [of "rev (uuid_str u)" _ "[]"] *
  show "strip_chars (\<lambda>c. c = CHR ''{'' \<or> c = CHR ''}'') (''{'' @ uuid_str u @ ''}'') = uuid_str u"
    using ne by (simp add: strip_chars_def)
qed

lemma uuid_parse_str [simp]: "uuid_parse (uuid_str u) = Inr u"
  by (rule uuid_parse_clean [OF _ strip_braces(1)]) (simp add: replace_all_absent no_u)

lemma uuid_parse_braces: "uuid_parse (''{'' @ uuid_str u @ ''}'') = Inr u"
  by (rule uuid_parse_clean [OF _ strip_braces(2)]) (simp add: replace_all_absent no_u)

lemma replace_all_skip:
  "take (length old) (c # cs) \<noteq> old \<Longrightarrow> old \<noteq> [] \<Longrightarrow> replace_all old new (c # cs) = c # replace_all old new cs"
  by (subst replace_all.simps) simp

lemma replace_all_hit:
  "old \<noteq> [] \<Longrightarrow> replace_all old new (old @ cs) = new @ replace_all old new cs"
  by (subst replace_all.simps) (cases old; simp)

lemma uuid_parse_urn: "uuid_parse (''urn:uuid:'' @ uuid_str u) = Inr u"
proof (rule uuid_parse_clean [OF _ strip_braces(1)])
  let ?s = "uuid_str u"
  have "replace_all ''urn:'' [] (''urn:'' @ (''uuid:'' @ ?s)) = replace_all ''urn:'' [] (''uuid:'' @ ?s)"
    by (subst replace_all_hit) simp_all
  also have "\<dots> = ''uu'' @ replace_all ''urn:'' [] (''id:'' @ ?s)"
    by (simp add: replace_all_skip)
  also have "replace_all ''urn:'' [] (''id:'' @ ?s) = ''id:'' @ ?s"
    by (rule replace_all_absent) (use no_u in simp_all)
  finally have "replace_all ''urn:'' [] (''urn:uuid:'' @ ?s) = ''uuid:'' @ ?s" by simp
  moreover have "replace_all ''uuid:'' [] (''uuid:'' @ ?s) = ?s"
    by (subst replace_all_hit) (simp_all add: replace_all_absent no_u)
  ultimately show "replace_all ''uuid:'' [] (replace_all ''urn:'' [] (''urn:uuid:'' @ ?s)) = ?s"
    by simp
qed

section \<open>Request ids\<close>

text \<open>A header's value: a string, or anything else the transport may carry.\<close>

datatype header_value = H_str string | H_other

definition request_id_header :: string where
  "request_id_header = ''x-request-id''"

text \<open>\<open>resolve_request_id\<close>; \<open>fresh\<close> is what \<open>uuid7()\<close> returns.\<close>

definition resolve_request_id :: "uuid \<Rightarrow> header_value option \<Rightarrow> string" where
  "resolve_request_id fresh raw =
     (case raw of
        Some (H_str s) \<Rightarrow> (case uuid_parse s of Inr u \<Rightarrow> uuid_str u | Inl _ \<Rightarrow> uuid_str fresh)
      | _ \<Rightarrow> uuid_str fresh)"

definition request_id_from :: "uuid \<Rightarrow> (string \<rightharpoonup> header_value) option \<Rightarrow> string" where
  "request_id_from fresh headers =
     resolve_request_id fresh (case headers of None \<Rightarrow> None | Some h \<Rightarrow> h request_id_header)"

text \<open>\<open>propagation_headers\<close> reads the context variables, which hold text only.\<close>

definition propagation_headers :: "(string \<rightharpoonup> string) \<Rightarrow> (string \<rightharpoonup> header_value) option" where
  "propagation_headers contextvars =
     (case contextvars ''request_id'' of
        None \<Rightarrow> None
      | Some request_id \<Rightarrow> Some [request_id_header \<mapsto> H_str request_id])"

lemma resolve_is_uuid: "\<exists>u. resolve_request_id fresh raw = uuid_str u"
  by (cases raw; cases "the raw") (auto simp: resolve_request_id_def split: sum.splits)

lemma resolve_uuid_str [simp]: "resolve_request_id fresh (Some (H_str (uuid_str u))) = uuid_str u"
  by (simp add: resolve_request_id_def)

text \<open>
  One hop: a process that received \<open>headers\<close> binds the request id it resolved and passes it on with
  its own messages.
\<close>

definition hop :: "uuid \<Rightarrow> (string \<rightharpoonup> header_value) option \<Rightarrow> (string \<rightharpoonup> header_value) option" where
  "hop fresh headers = propagation_headers [''request_id'' \<mapsto> request_id_from fresh headers]"

section \<open>Properties\<close>

text \<open>Text and UUID agree: parsing what \<open>str\<close> writes gives the UUID back, in the plain form, in
  braces, and with the \<open>urn:uuid:\<close> prefix.\<close>

lemma uuid_text_roundtrip:
  "uuid_parse (uuid_str u) = Inr u \<and> uuid_parse (''{'' @ uuid_str u @ ''}'') = Inr u
   \<and> uuid_parse (''urn:uuid:'' @ uuid_str u) = Inr u"
  by (simp only: uuid_parse_str uuid_parse_braces uuid_parse_urn simp_thms)

text \<open>C40: A request keeps its id through the whole system: whatever headers the first process received,
  the id it resolved is the one every later process resolves after any number of hops, whatever
  fresh ids those processes would have drawn.\<close>

theorem request_id_survives_hops:
  "request_id_from f (fold hop fresh (hop g headers)) = request_id_from g headers"
proof -
  obtain u where u: "request_id_from g headers = uuid_str u"
    using resolve_is_uuid unfolding request_id_from_def by blast
  have keep: "request_id_from h (Some [request_id_header \<mapsto> H_str (uuid_str u)]) = uuid_str u" for h
    by (simp add: request_id_from_def)
  have "hop h (Some [request_id_header \<mapsto> H_str (uuid_str u)]) = Some [request_id_header \<mapsto> H_str (uuid_str u)]" for h
    unfolding hop_def keep by (simp add: propagation_headers_def)
  then have "fold hop fresh (Some [request_id_header \<mapsto> H_str (uuid_str u)]) = Some [request_id_header \<mapsto> H_str (uuid_str u)]"
    by (induction fresh) (simp_all only: fold_simps)
  moreover have "hop g headers = Some [request_id_header \<mapsto> H_str (uuid_str u)]"
    by (simp add: hop_def propagation_headers_def u)
  ultimately show ?thesis by (simp only: u keep)
qed

end
