(* ===== verification/Version_Tokens.thy ===== *)
theory Version_Tokens
  imports Digests Request_Ids
begin

text \<open>
  The opaque tokens of \<open>app/version_token.py\<close>: the truncated keyed digest of an entity's id and its
  version, as URL-safe text.
\<close>

section \<open>Decimal text\<close>

definition dec_char :: "nat \<Rightarrow> char" where
  "dec_char n = ''0123456789'' ! n"

fun nat_str :: "nat \<Rightarrow> string" where
  "nat_str n = (if n < 10 then [dec_char n] else nat_str (n div 10) @ [dec_char (n mod 10)])"

declare nat_str.simps [simp del]

definition int_str :: "int \<Rightarrow> string" where
  "int_str n = (if n < 0 then CHR ''-'' # nat_str (nat (- n)) else nat_str (nat n))"

lemma dec_char_inj: "m < 10 \<Longrightarrow> n < 10 \<Longrightarrow> dec_char m = dec_char n \<longleftrightarrow> m = n"
proof -
  have "distinct ''0123456789''" by simp
  then show "m < 10 \<Longrightarrow> n < 10 \<Longrightarrow> dec_char m = dec_char n \<longleftrightarrow> m = n"
    unfolding dec_char_def by (subst nth_eq_iff_index_eq) simp_all
qed

lemma dec_char_range: "n < 10 \<Longrightarrow> dec_char n \<in> set ''0123456789''"
  unfolding dec_char_def by (rule nth_mem) simp

lemma nat_str_small: "n < 10 \<Longrightarrow> nat_str n = [dec_char n]"
  by (subst nat_str.simps) simp

lemma nat_str_big: "\<not> n < 10 \<Longrightarrow> nat_str n = nat_str (n div 10) @ [dec_char (n mod 10)]"
  by (subst nat_str.simps) simp

lemma nat_str_not_Nil [simp]: "nat_str n \<noteq> []"
  by (cases "n < 10") (simp_all add: nat_str_small nat_str_big)

lemma nat_str_dec_chars: "list_all (\<lambda>c. c \<in> set ''0123456789'') (nat_str n)"
proof (induction n rule: nat_str.induct)
  case (1 n)
  have "dec_char (n mod 10) \<in> set ''0123456789''" by (rule dec_char_range) simp
  with 1 show ?case
    by (cases "n < 10") (simp_all add: nat_str_small nat_str_big dec_char_range del: set_simps)
qed

lemma nat_str_chars: "c \<in> set (nat_str n) \<Longrightarrow> c \<in> set ''0123456789''"
  using nat_str_dec_chars unfolding list_all_iff by blast

lemma nat_str_one: "length (nat_str k) = Suc 0 \<longleftrightarrow> k < 10"
  by (cases "k < 10") (simp_all add: nat_str_small nat_str_big)

lemma nat_str_last: "last (nat_str k) = dec_char (k mod 10)"
  by (cases "k < 10") (simp_all add: nat_str_small nat_str_big)

lemma nat_str_inj: "nat_str m = nat_str n \<Longrightarrow> m = n"
proof (induction m arbitrary: n rule: nat_str.induct)
  case (1 m)
  have "dec_char (m mod 10) = dec_char (n mod 10)"
    using arg_cong [OF 1(2), of last] by (simp only: nat_str_last)
  then have mod: "m mod 10 = n mod 10" using dec_char_inj [of "m mod 10" "n mod 10"] by simp
  have same: "m < 10 \<longleftrightarrow> n < 10" using nat_str_one [of m] nat_str_one [of n] 1(2) by simp
  show ?case
  proof (cases "m < 10")
    case True
    then show ?thesis using mod same by simp
  next
    case False
    have "nat_str (m div 10) = nat_str (n div 10)"
      using 1(2) nat_str_big [of m] nat_str_big [of n] False same by simp
    then have "m div 10 = n div 10" by (rule 1(1) [OF False])
    then show ?thesis using mod by (metis div_mult_mod_eq)
  qed
qed

lemma int_str_inj: "int_str m = int_str n \<Longrightarrow> m = n"
proof -
  assume eq: "int_str m = int_str n"
  have nodash: "nat_str k \<noteq> CHR ''-'' # s" for k s
    using nat_str_chars [of "CHR ''-''" k] by auto
  show ?thesis
    using eq nodash nodash [symmetric]
    by (auto simp: int_str_def split: if_splits dest!: nat_str_inj)
qed

section \<open>Tokens\<close>

definition digest_bytes :: nat where
  "digest_bytes = 16"

definition token_length :: nat where
  "token_length = length (rstrip (CHR ''='') (urlsafe_b64encode (replicate digest_bytes 0)))"

definition token_message :: "uuid \<Rightarrow> int \<Rightarrow> string" where
  "token_message entity_id version = uuid_str entity_id @ '':'' @ int_str version"

definition issue :: "string \<Rightarrow> uuid \<Rightarrow> int \<Rightarrow> string" where
  "issue secret entity_id version =
     (let digest = take digest_bytes (hmac_sha256 (utf8 secret) (utf8 (token_message entity_id version)))
      in rstrip (CHR ''='') (urlsafe_b64encode digest))"

text \<open>
  \<open>hmac.compare_digest\<close> on text: it compares strings of ASCII characters and raises \<open>TypeError\<close> on
  any other string.
\<close>

definition is_ascii :: "string \<Rightarrow> bool" where
  "is_ascii s = list_all (\<lambda>c. (of_char c :: nat) < 128) s"

definition compare_digest :: "string \<Rightarrow> string \<Rightarrow> exc + bool" where
  "compare_digest a b = (if is_ascii a \<and> is_ascii b then Inr (a = b) else Inl TypeError)"

definition verify_token :: "string \<Rightarrow> uuid \<Rightarrow> int \<Rightarrow> string \<Rightarrow> exc + bool" where
  "verify_token secret entity_id version token = compare_digest (issue secret entity_id version) token"

lemma length_b64_body: "length bs = 16 \<Longrightarrow> length (b64_body bs) = 22"
proof -
  assume l: "length bs = 16"
  have "length (b64_body bs) + padding (length bs) = length (urlsafe_b64encode bs)" for bs
    unfolding b64_body_padding by simp
  have step: "length (b64_body xs) = 4 + length (b64_body (drop 3 xs))" if "3 \<le> length xs" for xs :: "byte list"
    using that by (cases xs rule: b64_body.cases) simp_all
  have "length (b64_body (drop 15 bs)) = 2"
    using l by (cases "drop 15 bs" rule: b64_body.cases) (auto dest!: arg_cong [of _ _ length])
  then show ?thesis using l by (simp add: step)
qed

lemma uuid_str_length [simp]: "length (uuid_str u) = 36"
  by (simp add: uuid_str_def uuid_hex_def Let_def)

lemma uuid_str_inj: "uuid_str u = uuid_str v \<Longrightarrow> u = v"
  by (metis sum.inject(2) uuid_parse_str)

lemma token_message_inj: "token_message e v = token_message e' v' \<longleftrightarrow> e = e' \<and> v = v'"
proof
  assume "token_message e v = token_message e' v'"
  then have "uuid_str e = uuid_str e' \<and> int_str v = int_str v'"
    unfolding token_message_def by (subst (asm) append_eq_append_conv) auto
  then show "e = e' \<and> v = v'" using uuid_str_inj int_str_inj by blast
qed simp

lemma length_issue: "length (issue secret e v) = 22"
  by (simp add: issue_def Let_def b64_strip length_b64_body digest_bytes_def)

lemma token_length_eq: "token_length = 22"
  by (simp add: token_length_def b64_strip length_b64_body digest_bytes_def)

lemma b64_table_ascii: "list_all (\<lambda>c. (of_char c :: nat) < 128) b64_table"
  unfolding b64_table_def by code_simp

lemma quad_ascii: "x \<in> set (quad a b c) \<Longrightarrow> (of_char x :: nat) < 128"
proof -
  assume "x \<in> set (quad a b c)"
  then obtain n where "n \<in> set (sextets (join3 a b c))" and x: "x = b64_char n" unfolding quad_def by auto
  then have n: "n < 64" "x = b64_char n" using sextets_bound by blast+
  then have "x \<in> set b64_table"
    using b64_table_distinct unfolding b64_char_def b64_table_def [symmetric] by (metis nth_mem)
  then show ?thesis using b64_table_ascii unfolding list_all_iff by blast
qed

lemma b64_body_ascii: "is_ascii (b64_body bs)"
proof -
  have "x \<in> set (b64_body bs) \<Longrightarrow> (of_char x :: nat) < 128" for x
    by (induction bs rule: b64_body.induct) (auto dest!: in_set_takeD dest: quad_ascii)
  then show ?thesis by (simp add: is_ascii_def list_all_iff)
qed

lemma issue_ascii: "is_ascii (issue secret e v)"
  by (simp add: issue_def Let_def b64_strip b64_body_ascii)

lemma issue_eq_iff:
  "issue secret e v = issue secret e' v' \<longleftrightarrow>
     take digest_bytes (hmac_sha256 (utf8 secret) (utf8 (token_message e v)))
     = take digest_bytes (hmac_sha256 (utf8 secret) (utf8 (token_message e' v')))"
  by (auto simp: issue_def Let_def b64_strip digest_bytes_def dest!: b64_body_inj [rotated])

section \<open>Properties\<close>

text \<open>Every token has the length the request schemas demand of one, \<open>TOKEN_LENGTH\<close>, which is 22
  characters, all of them ASCII; so no token the service hands out is refused or makes the
  comparison raise when it comes back.\<close>

lemma issued_tokens_pass_the_schema:
  "length (issue secret entity_id version) = token_length \<and> token_length = 22
   \<and> verify_token secret entity_id version (issue secret entity_id version) = Inr True"
  by (simp add: length_issue token_length_eq verify_token_def compare_digest_def issue_ascii)

text \<open>C38: A token is bound to its entity and its version: checking the token issued for one entity and
  version against another never raises, accepts its own, and accepts a different one only if the
  keyed digests of two different messages collide in their first 16 bytes.\<close>

theorem token_binds_entity_and_version:
  "\<exists>accepted. verify_token secret e v (issue secret e' v') = Inr accepted
    \<and> (e = e' \<and> v = v' \<longrightarrow> accepted)
    \<and> (accepted \<and> \<not> (e = e' \<and> v = v') \<longrightarrow>
         token_message e v \<noteq> token_message e' v'
         \<and> take 16 (hmac_sha256 (utf8 secret) (utf8 (token_message e v)))
           = take 16 (hmac_sha256 (utf8 secret) (utf8 (token_message e' v'))))"
proof -
  have "verify_token secret e v (issue secret e' v') = Inr (issue secret e v = issue secret e' v')"
    by (simp add: verify_token_def compare_digest_def issue_ascii)
  then show ?thesis
    unfolding token_message_inj using issue_eq_iff [of secret e v e' v'] by (auto simp: digest_bytes_def)
qed

theorem token_binds_entity_and_version_witness:
  "\<exists>accepted. verify_token ''secret'' 7 1 (issue ''secret'' 7 1) = Inr accepted \<and> accepted"
  using token_binds_entity_and_version [of "''secret''" 7 1 7 1] by simp

text \<open>The check raises \<open>TypeError\<close> exactly on tokens with a character outside ASCII.\<close>

lemma token_check_raises_iff_not_ascii:
  "verify_token secret e v token = Inl TypeError \<longleftrightarrow> \<not> is_ascii token"
  by (simp add: verify_token_def compare_digest_def issue_ascii)

end
