(* ===== verification/Messaging.thy ===== *)
theory Messaging
  imports Payments Digests Request_Ids
begin

text \<open>
  Messages in and out: the events of \<open>app/events\<close>, the command of \<open>app/commands/local/main.py\<close>,
  their routes and deduplication keys, and the RabbitMQ subscribers of \<open>app/subscribers/main.py\<close>.
  JSON encoding and decoding belong to pydantic and are parameters; so is the queue the jobs go to.
\<close>

section \<open>Events\<close>

record customer_created =
  cc_id :: uuid
  cc_email :: string
  cc_name :: string
  cc_status :: string
  cc_created_at :: timestamp
  cc_updated_at :: "timestamp option"

record payment_event =
  pe_id :: uuid
  pe_account_id :: uuid
  pe_amount :: money
  pe_occurred_at :: timestamp

text \<open>\<open>Field(gt=0, decimal_places=2)\<close>: money is in hundredths already.\<close>

definition payment_event_valid :: "payment_event \<Rightarrow> bool" where
  "payment_event_valid e \<longleftrightarrow> 0 < pe_amount e"

record account_created =
  ac_id :: uuid
  ac_customer_id :: uuid
  ac_currency :: string
  ac_name :: "string option"
  ac_status :: string
  ac_created_at :: timestamp
  ac_updated_at :: "timestamp option"

datatype async_message = M_payment create_payment | M_account_created account_created

definition create_payment_route :: string where
  "create_payment_route = ''payment.create''"

definition account_created_route :: string where
  "account_created_route = ''customer-account.created''"

fun route :: "async_message \<Rightarrow> string" where
  "route (M_payment _) = create_payment_route"
| "route (M_account_created _) = account_created_route"

fun message_id :: "async_message \<Rightarrow> uuid" where
  "message_id (M_payment p) = p_id p"
| "message_id (M_account_created a) = ac_id a"

definition dedupe_key :: "async_message \<Rightarrow> string" where
  "dedupe_key m = route m @ ''.'' @ uuid_str (message_id m)"

section \<open>Enqueueing\<close>

record job_request =
  jr_entrypoint :: string
  jr_payload :: "byte list"
  jr_dedupe_key :: string
  jr_headers :: "(string \<rightharpoonup> header_value) option"

text \<open>
  \<open>JobEnqueuer.enqueue\<close>: \<open>dump\<close> is \<open>to_payload_bytes\<close>, \<open>put\<close> the queue's own \<open>enqueue\<close>.
\<close>

definition enqueue :: "(async_message \<Rightarrow> byte list) \<Rightarrow> (job_request \<Rightarrow> 'q \<Rightarrow> exc + 'q)
    \<Rightarrow> (string \<rightharpoonup> string) \<Rightarrow> async_message \<Rightarrow> 'q \<Rightarrow> exc + 'q" where
  "enqueue dump put contextvars event q =
     put \<lparr>jr_entrypoint = route event, jr_payload = dump event, jr_dedupe_key = dedupe_key event,
          jr_headers = propagation_headers contextvars\<rparr> q"

definition deposit_command :: "payment_event \<Rightarrow> create_payment" where
  "deposit_command event = \<lparr>p_id = pe_id event, p_account_id = pe_account_id event,
     p_type = Op_DEPOSIT, p_signed_amount = pe_amount event, p_occurred_at = pe_occurred_at event\<rparr>"

definition withdrawal_command :: "payment_event \<Rightarrow> create_payment" where
  "withdrawal_command event = \<lparr>p_id = pe_id event, p_account_id = pe_account_id event,
     p_type = Op_WITHDRAWAL, p_signed_amount = pe_amount event * - 1, p_occurred_at = pe_occurred_at event\<rparr>"

definition on_payment_deposited :: "(async_message \<Rightarrow> byte list) \<Rightarrow> (job_request \<Rightarrow> 'q \<Rightarrow> exc + 'q)
    \<Rightarrow> (string \<rightharpoonup> string) \<Rightarrow> payment_event \<Rightarrow> 'q \<Rightarrow> exc + 'q" where
  "on_payment_deposited dump put contextvars event q =
     enqueue dump put contextvars (M_payment (deposit_command event)) q"

definition on_payment_withdrawn :: "(async_message \<Rightarrow> byte list) \<Rightarrow> (job_request \<Rightarrow> 'q \<Rightarrow> exc + 'q)
    \<Rightarrow> (string \<rightharpoonup> string) \<Rightarrow> payment_event \<Rightarrow> 'q \<Rightarrow> exc + 'q" where
  "on_payment_withdrawn dump put contextvars event q =
     enqueue dump put contextvars (M_payment (withdrawal_command event)) q"

section \<open>New customers\<close>

text \<open>
  \<open>insert(Customer).values(\<dots>).on_conflict_do_nothing()\<close>: names that are no column of the table make
  the statement fail to compile; a row whose id or e-mail exists is skipped. \<open>status\<close> defaults to
  active, the other missing columns to \<open>NULL\<close>.
\<close>

datatype column_value =
    CV_uuid uuid
  | CV_text "string option"
  | CV_status customer_status
  | CV_time "timestamp option"

definition customer_columns :: "string list" where
  "customer_columns = [''id'', ''email'', ''name'', ''status'', ''created_at'', ''updated_at'']"

definition insert_customer :: "(string \<times> column_value) list \<Rightarrow> db \<Rightarrow> exc + db" where
  "insert_customer values d =
     (let unconsumed = filter (\<lambda>k. k \<notin> set customer_columns) (map fst values)
      in if unconsumed \<noteq> [] then Inl (CompileError unconsumed)
         else case (map_of values ''id'', map_of values ''email'', map_of values ''created_at'') of
           (Some (CV_uuid i), Some (CV_text (Some e)), Some (CV_time (Some c))) \<Rightarrow>
             if list_ex (\<lambda>x. c_id x = i \<or> c_email x = e) (customers d) then Inr d
             else Inr (d\<lparr>customers := customers d @
               [customer_create i e
                 (case map_of values ''name'' of Some (CV_text n) \<Rightarrow> n | _ \<Rightarrow> None)
                 (case map_of values ''status'' of Some (CV_status s) \<Rightarrow> s | _ \<Rightarrow> Cust_ACTIVE) c
                 (case map_of values ''updated_at'' of Some (CV_time u) \<Rightarrow> u | _ \<Rightarrow> None)]\<rparr>)
         | _ \<Rightarrow> Inl (IntegrityError ''not null''))"

definition on_customer_created :: "customer_created \<Rightarrow> db \<Rightarrow> exc + db" where
  "on_customer_created event d =
     (case customer_find_by_id d (cc_id event) of
        Inl e \<Rightarrow> Inl e
      | Inr (Some _) \<Rightarrow> Inr d
      | Inr None \<Rightarrow>
          (case customer_status_of (cc_status event) of
             Inl e \<Rightarrow> Inl e
           | Inr status \<Rightarrow> insert_customer
               [(''entity_id'', CV_uuid (cc_id event)), (''email'', CV_text (Some (cc_email event))),
                (''name'', CV_text (Some (cc_name event))), (''status'', CV_status status),
                (''created_at'', CV_time (Some (cc_created_at event))),
                (''updated_at'', CV_time (cc_updated_at event))] d))"

section \<open>Properties\<close>

lemma uuid_str_inject: "uuid_str u = uuid_str v \<longleftrightarrow> u = v"
  by (metis sum.inject(2) uuid_parse_str)

lemma uuid_str_len: "length (uuid_str u) = 36"
  by (simp add: uuid_str_def uuid_hex_def Let_def)

text \<open>Two messages have the same deduplication key exactly if they are of the same kind and carry
  the same id: a redelivered event maps to the same job, and no two different ones are merged.\<close>

lemma dedupe_key_identifies_message:
  "dedupe_key m = dedupe_key n \<longleftrightarrow> route m = route n \<and> message_id m = message_id n"
proof
  assume eq: "dedupe_key m = dedupe_key n"
  then have "(route m @ ''.'') @ uuid_str (message_id m) = (route n @ ''.'') @ uuid_str (message_id n)"
    by (simp add: dedupe_key_def)
  then have "route m @ ''.'' = route n @ ''.'' \<and> uuid_str (message_id m) = uuid_str (message_id n)"
    by (subst (asm) append_eq_append_conv) (simp_all add: uuid_str_len)
  then show "route m = route n \<and> message_id m = message_id n"
    by (simp add: uuid_str_inject)
qed (simp add: dedupe_key_def)

definition sample_event :: payment_event where
  "sample_event = \<lparr>pe_id = 30, pe_account_id = 10, pe_amount = 1250, pe_occurred_at = 8\<rparr>"

text \<open>A customer the service does not know is never stored: the statement names the column
  \<open>entity_id\<close>, which the table does not have, so it fails to compile (or the status is refused
  before), for every event and every database. Naming the column \<open>id\<close> instead stores exactly the
  customer the event describes.\<close>

lemma created_customers_are_never_stored:
  assumes "distinct (map c_id (customers d))" "\<forall>c \<in> set (customers d). c_id c \<noteq> cc_id event"
  shows "on_customer_created event d =
      (case customer_status_of (cc_status event) of
         Inl e \<Rightarrow> Inl e | Inr _ \<Rightarrow> Inl (CompileError [''entity_id'']))
    \<and> ((\<forall>c \<in> set (customers d). c_email c \<noteq> cc_email event) \<longrightarrow>
      insert_customer
        [(''id'', CV_uuid (cc_id event)), (''email'', CV_text (Some (cc_email event))),
         (''name'', CV_text (Some (cc_name event))), (''status'', CV_status status),
         (''created_at'', CV_time (Some (cc_created_at event))),
         (''updated_at'', CV_time (cc_updated_at event))] d =
      Inr (d\<lparr>customers := customers d @ [customer_create (cc_id event) (cc_email event)
        (Some (cc_name event)) status (cc_created_at event) (cc_updated_at event)]\<rparr>))"
proof -
  have "find (\<lambda>c. c_id c = cc_id event) (customers d) = None"
    using assms(2) by (auto simp: find_None_iff)
  then have none: "customer_find_by_id d (cc_id event) = Inr None"
    using assms(1) by (simp add: customer_find_by_id_def scalar_one_or_none_distinct)
  have "list_ex (\<lambda>x. c_id x = cc_id event \<or> c_email x = cc_email event) (customers d)
      \<longleftrightarrow> \<not> (\<forall>c \<in> set (customers d). c_email c \<noteq> cc_email event)"
    using assms(2) by (auto simp: list_ex_iff)
  then show ?thesis
    by (simp add: none on_customer_created_def insert_customer_def customer_columns_def split: sum.splits)
qed

definition sample_customer_event :: customer_created where
  "sample_customer_event = \<lparr>cc_id = 2, cc_email = ''d@mail.com'', cc_name = ''d'', cc_status = ''active'',
     cc_created_at = 0, cc_updated_at = None\<rparr>"

lemma created_customers_are_never_stored_witness:
  "on_customer_created sample_customer_event sample_db = Inl (CompileError [''entity_id''])"
  using created_customers_are_never_stored [of sample_db sample_customer_event]
  by (simp add: sample_customer_event_def sample_customer_def customer_create_def customer_status_of_def)

end
