(* ===== verification/Jobs.thy ===== *)
theory Jobs
  imports Messaging
begin

text \<open>
  The background jobs: decoding of payloads and the two entrypoints of
  \<open>app/consumers/entrypoints/main.py\<close>, the retry executor of \<open>app/consumers/executor.py\<close>, and the
  life of a job between them, as a step relation in which other transactions run in between.
\<close>

section \<open>Entrypoints\<close>

record job =
  j_entrypoint :: string
  j_payload :: "byte list option"
  j_attempts :: nat
  j_headers :: "(string \<rightharpoonup> header_value) option"

text \<open>
  \<open>from_payload_bytes\<close> and \<open>_decode_or_fail\<close>; \<open>load\<close> is \<open>model_validate_json\<close>. Only pydantic's
  \<open>ValidationError\<close> is turned into a terminal error.
\<close>

definition from_payload_bytes :: "(byte list \<Rightarrow> exc + 'm) \<Rightarrow> byte list option \<Rightarrow> exc + 'm option" where
  "from_payload_bytes load payload =
     (case payload of None \<Rightarrow> Inr None | Some b \<Rightarrow> map_sum id Some (load b))"

definition decode_or_fail :: "(byte list \<Rightarrow> exc + 'm) \<Rightarrow> job \<Rightarrow> exc + 'm" where
  "decode_or_fail load job =
     (case from_payload_bytes load (j_payload job) of
        Inr (Some event) \<Rightarrow> Inr event
      | Inr None \<Rightarrow> Inl (TerminalJobError (Undecodable (j_entrypoint job) EmptyPayload))
      | Inl e \<Rightarrow>
          if e = ValidationError
          then Inl (TerminalJobError (Undecodable (j_entrypoint job) (StrOf ValidationError)))
          else Inl e)"

definition on_create_payment :: "(byte list \<Rightarrow> exc + create_payment) \<Rightarrow> job \<Rightarrow> timestamp \<Rightarrow> db \<Rightarrow> exc + db" where
  "on_create_payment load job now d =
     (case decode_or_fail load job of
        Inl e \<Rightarrow> Inl e
      | Inr event \<Rightarrow> apply_payment now event d)"

text \<open>What the service publishes when an account was created.\<close>

record publication =
  pub_body :: account_created
  pub_routing_key :: string
  pub_exchange :: string
  pub_content_encoding :: string
  pub_content_type :: string
  pub_headers :: "(string \<rightharpoonup> header_value) option"

definition outgoing_route :: string where
  "outgoing_route = ''customer-account.created''"

definition on_customer_account_created ::
  "(byte list \<Rightarrow> exc + account_created) \<Rightarrow> (publication \<Rightarrow> 'b \<Rightarrow> exc + 'b) \<Rightarrow> (string \<rightharpoonup> string)
    \<Rightarrow> job \<Rightarrow> 'b \<Rightarrow> exc + 'b"
where
  "on_customer_account_created load publish contextvars job broker =
     (case decode_or_fail load job of
        Inl e \<Rightarrow> Inl e
      | Inr event \<Rightarrow> publish
          \<lparr>pub_body = \<lparr>ac_id = ac_id event, ac_customer_id = ac_customer_id event,
             ac_currency = ac_currency event, ac_name = ac_name event, ac_status = ac_status event,
             ac_created_at = ac_created_at event, ac_updated_at = ac_updated_at event\<rparr>,
           pub_routing_key = outgoing_route, pub_exchange = ''events'',
           pub_content_encoding = ''utf-8'', pub_content_type = ''application/json'',
           pub_headers = propagation_headers contextvars\<rparr> broker)"

text \<open>The job the queue makes of what was enqueued.\<close>

definition queued :: "job_request \<Rightarrow> job" where
  "queued r = \<lparr>j_entrypoint = jr_entrypoint r, j_payload = Some (jr_payload r), j_attempts = 0, j_headers = jr_headers r\<rparr>"

section \<open>The executor\<close>

text \<open>
  Durations in microseconds. The multiplier \<open>5.0\<close> is a whole number and its powers below the attempt
  limit are exact as floats, so the delays are computed on integers.
\<close>

record executor =
  ex_max_attempts :: nat
  ex_initial_delay :: int
  ex_max_delay :: int
  ex_backoff_multiplier :: int

definition entrypoint_executor :: executor where
  "entrypoint_executor = \<lparr>ex_max_attempts = 3, ex_initial_delay = 200000, ex_max_delay = 60000000,
     ex_backoff_multiplier = 5\<rparr>"

definition retry_delay :: "executor \<Rightarrow> nat \<Rightarrow> int" where
  "retry_delay ex attempts = min (ex_initial_delay ex * ex_backoff_multiplier ex ^ attempts) (ex_max_delay ex)"

text \<open>\<open>execute\<close>, with what the entrypoint returned or raised; \<open>_fail\<close> logs and raises.\<close>

definition fail :: "exc \<Rightarrow> exc + 'a" where
  "fail e = Inl (LastAttemptError (StrOf e))"

definition execute :: "executor \<Rightarrow> nat \<Rightarrow> exc + 'a \<Rightarrow> exc + 'a" where
  "execute ex attempts outcome =
     (case outcome of
        Inr x \<Rightarrow> Inr x
      | Inl (TerminalJobError r) \<Rightarrow> fail (TerminalJobError r)
      | Inl e \<Rightarrow>
          if attempts \<ge> ex_max_attempts ex then fail e
          else Inl (RetryRequested (Some (retry_delay ex attempts)) (StrOf e)))"

lemma execute_simps:
  "execute ex n (Inr x) = Inr x"
  "execute ex n (Inl (TerminalJobError r)) = Inl (LastAttemptError (StrOf (TerminalJobError r)))"
  "(\<And>r. e \<noteq> TerminalJobError r) \<Longrightarrow> execute ex n (Inl e) =
     (if ex_max_attempts ex \<le> n then Inl (LastAttemptError (StrOf e))
      else Inl (RetryRequested (Some (retry_delay ex n)) (StrOf e)))"
  by (simp_all add: execute_def fail_def split: exc.splits)

lemma execute_Inr_iff [simp]: "execute ex n outcome = Inr x \<longleftrightarrow> outcome = Inr x"
  by (auto simp: execute_def fail_def split: sum.splits exc.splits)

lemma execute_retry: "execute ex n outcome = Inl (RetryRequested del r) \<Longrightarrow> n < ex_max_attempts ex"
  by (auto simp: execute_def fail_def split: sum.splits exc.splits if_splits)

section \<open>The life of a job\<close>

text \<open>
  A job is queued with the number of its earlier attempts, done, or held for an operator
  (\<open>on_failure="hold"\<close>). Between two attempts other transactions may commit.
\<close>

datatype job_status = Queued nat | Done | Held

inductive job_step :: "executor \<Rightarrow> (timestamp \<Rightarrow> db \<Rightarrow> exc + db) \<Rightarrow> (db \<Rightarrow> db \<Rightarrow> bool)
    \<Rightarrow> job_status \<times> db \<Rightarrow> job_status \<times> db \<Rightarrow> bool"
  for ex run other
where
  finished: "execute ex n (run now d) = Inr d' \<Longrightarrow> job_step ex run other (Queued n, d) (Done, d')"
| retried: "execute ex n (run now d) = Inl (RetryRequested (Some del) r) \<Longrightarrow>
    job_step ex run other (Queued n, d) (Queued (Suc n), d)"
| held: "execute ex n (run now d) = Inl (LastAttemptError r) \<Longrightarrow>
    job_step ex run other (Queued n, d) (Held, d)"
| interleaved: "other d d' \<Longrightarrow> job_step ex run other (s, d) (s, d')"

inductive_cases job_stepE: "job_step ex run other (s, d) (s', d')"

abbreviation job_runs :: "executor \<Rightarrow> (timestamp \<Rightarrow> db \<Rightarrow> exc + db) \<Rightarrow> (db \<Rightarrow> db \<Rightarrow> bool)
    \<Rightarrow> job_status \<times> db \<Rightarrow> job_status \<times> db \<Rightarrow> bool" where
  "job_runs ex run other \<equiv> (job_step ex run other)\<^sup>*\<^sup>*"

lemma job_attempts_bounded:
  assumes "job_runs ex run other (s, d) (s', d')" "case s of Queued n \<Rightarrow> n \<le> ex_max_attempts ex | _ \<Rightarrow> True"
  shows "case s' of Queued n \<Rightarrow> n \<le> ex_max_attempts ex | _ \<Rightarrow> True"
  using assms
proof (induction rule: rtranclp_induct2)
  case (step s1 d1 s2 d2)
  note inv = step(3) [OF step.prems]
  from step(2) show ?case
    by (elim job_stepE) (use inv in \<open>auto dest: execute_retry\<close>)
qed simp

lemma retry_delay_entrypoint: "retry_delay entrypoint_executor n = min (200000 * 5 ^ n) 60000000"
  by (simp add: retry_delay_def entrypoint_executor_def)

section \<open>Properties\<close>

text \<open>What a job that nothing runs beside does in one step.\<close>

abbreviation job_alone :: "executor \<Rightarrow> (timestamp \<Rightarrow> db \<Rightarrow> exc + db) \<Rightarrow> job_status \<times> db \<Rightarrow> job_status \<times> db \<Rightarrow> bool" where
  "job_alone ex run \<equiv> job_step ex run (\<lambda>_ _. False)"

lemma failing_attempt:
  assumes "\<And>now. \<exists>e. run now d = Inl e \<and> (\<forall>r. e \<noteq> TerminalJobError r)"
  shows "job_alone ex run (Queued n, d) (s, d') \<longleftrightarrow> d' = d \<and> s = (if n < ex_max_attempts ex then Queued (Suc n) else Held)"
proof -
  have x: "\<exists>e. execute ex n (run now d) = (if n < ex_max_attempts ex
      then Inl (RetryRequested (Some (retry_delay ex n)) (StrOf e)) else Inl (LastAttemptError (StrOf e)))" for now
  proof -
    obtain e where e: "run now d = Inl e" "\<And>r. e \<noteq> TerminalJobError r" using assms by blast
    show ?thesis unfolding e(1) execute_simps(3) [OF e(2)] by (intro exI [of _ e]) simp
  qed
  show ?thesis
  proof
    assume "job_alone ex run (Queued n, d) (s, d')"
    then obtain now where "(\<exists>y. run now d = Inr y)
        \<or> (\<exists>del r. execute ex n (run now d) = Inl (RetryRequested (Some del) r)) \<and> s = Queued (Suc n) \<and> d' = d
        \<or> (\<exists>r. execute ex n (run now d) = Inl (LastAttemptError r)) \<and> s = Held \<and> d' = d"
      by (elim job_stepE) blast+
    then show "d' = d \<and> s = (if n < ex_max_attempts ex then Queued (Suc n) else Held)"
      using x [of now] assms [of now] by (auto split: if_splits)
  next
    assume s: "d' = d \<and> s = (if n < ex_max_attempts ex then Queued (Suc n) else Held)"
    show "job_alone ex run (Queued n, d) (s, d')"
      using s x [of 0] by (cases "n < ex_max_attempts ex") (auto intro: job_step.retried job_step.held)
  qed
qed

lemma done_stays: "\<not> job_alone ex run (Done, d) x" "\<not> job_alone ex run (Held, d) x"
  by (cases x; auto elim: job_stepE)+

lemma failing_attempts:
  assumes "\<And>now. \<exists>e. run now d = Inl e \<and> (\<forall>r. e \<noteq> TerminalJobError r)"
  shows "(job_alone ex run ^^ k) (Queued 0, d) (s, d') \<longleftrightarrow> d' = d \<and>
    (k \<le> ex_max_attempts ex \<and> s = Queued k \<or> k = Suc (ex_max_attempts ex) \<and> s = Held)"
proof (induction k arbitrary: s d')
  case (Suc k)
  have "(job_alone ex run ^^ Suc k) (Queued 0, d) (s, d') \<longleftrightarrow>
      k \<le> ex_max_attempts ex \<and> job_alone ex run (Queued k, d) (s, d')
      \<or> k = Suc (ex_max_attempts ex) \<and> job_alone ex run (Held, d) (s, d')"
    unfolding relpowp.simps relcompp_apply split_paired_Ex Suc.IH by blast
  then show ?case unfolding failing_attempt [of run d, OF assms] using done_stays(2) by auto
qed auto

text \<open>C21: A job that fails is retried after 0.2, 1 and 5 seconds and given up at its fourth attempt, whatever it
  raised, an error of the database included; only a terminal error gives it up at once. A job that starts with no
  attempts behind it and keeps failing is held after exactly four of them and not before, and has changed nothing;
  whatever runs in between, it is never queued with more than three.\<close>

theorem failing_jobs_are_retried_three_times:
  "(\<forall>e n. execute entrypoint_executor n (Inl e) =
      (if (\<exists>r. e = TerminalJobError r) \<or> 3 \<le> n then Inl (LastAttemptError (StrOf e))
       else Inl (RetryRequested (Some ([200000, 1000000, 5000000] ! n)) (StrOf e))))
   \<and> ((\<forall>now. \<exists>e. run now d = Inl e \<and> (\<forall>r. e \<noteq> TerminalJobError r)) \<longrightarrow>
      (\<forall>k s d'. (job_alone entrypoint_executor run ^^ k) (Queued 0, d) (s, d') \<longleftrightarrow>
        d' = d \<and> (k \<le> 3 \<and> s = Queued k \<or> k = 4 \<and> s = Held)))
   \<and> (job_runs entrypoint_executor run other (Queued 0, d) (Queued k, d') \<longrightarrow> k \<le> 3)"
proof (intro conjI allI impI)
  have m: "ex_max_attempts entrypoint_executor = 3" by (simp add: entrypoint_executor_def)
  fix e n
  have "n < 3 \<Longrightarrow> retry_delay entrypoint_executor n = [200000, 1000000, 5000000] ! n"
    by (auto simp: retry_delay_entrypoint less_Suc_eq numeral_3_eq_3)
  then show "execute entrypoint_executor n (Inl e) =
      (if (\<exists>r. e = TerminalJobError r) \<or> 3 \<le> n then Inl (LastAttemptError (StrOf e))
       else Inl (RetryRequested (Some ([200000, 1000000, 5000000] ! n)) (StrOf e)))"
    by (cases "\<exists>r. e = TerminalJobError r") (auto simp: execute_simps m)
next
  fix k s d'
  assume "\<forall>now. \<exists>e. run now d = Inl e \<and> (\<forall>r. e \<noteq> TerminalJobError r)"
  then show "(job_alone entrypoint_executor run ^^ k) (Queued 0, d) (s, d') \<longleftrightarrow>
        d' = d \<and> (k \<le> 3 \<and> s = Queued k \<or> k = 4 \<and> s = Held)"
    using failing_attempts [where run = run and d = d and ex = entrypoint_executor] by (simp add: entrypoint_executor_def)
next
  assume "job_runs entrypoint_executor run other (Queued 0, d) (Queued k, d')"
  then show "k \<le> 3"
    using job_attempts_bounded [of entrypoint_executor run other "Queued 0" d "Queued k" d']
    by (simp add: entrypoint_executor_def)
qed

theorem failing_jobs_are_retried_three_times_witness:
  "(job_alone entrypoint_executor (\<lambda>_ _. Inl (DataError ''x'')) ^^ 4) (Queued 0, empty_db) (Held, empty_db)
   \<and> \<not> (job_alone entrypoint_executor (\<lambda>_ _. Inl (DataError ''x'')) ^^ 3) (Queued 0, empty_db) (Held, empty_db)"
  using failing_jobs_are_retried_three_times [where run = "\<lambda>_ _. Inl (DataError ''x'')" and d = empty_db, THEN conjunct2, THEN conjunct1]
  by simp

lemma job_payment_inv:
  assumes "job_runs ex (on_create_payment load job) other (s, d) (s', d')"
    and "decode_or_fail load job = Inr event"
    and "\<And>d d'. other d d' \<Longrightarrow> db_ok d \<Longrightarrow> db_ok d' \<and> set (ledger d) \<subseteq> set (ledger d')"
    and "db_ok d" "s = Done \<Longrightarrow> has_ledger_operation d (p_account_id event) (p_id event)"
  shows "db_ok d' \<and> (s' = Done \<longrightarrow> has_ledger_operation d' (p_account_id event) (p_id event))"
  using assms(1,4,5)
proof (induction rule: rtranclp_induct2)
  case refl
  then show ?case by simp
next
  case (step s1 d1 s2 d2)
  have inv: "db_ok d1" "s1 = Done \<Longrightarrow> has_ledger_operation d1 (p_account_id event) (p_id event)"
    using step(3) [OF step.prems] by auto
  from step(2) show ?case
  proof (elim job_stepE)
    fix n now
    assume s: "s1 = Queued n" "s2 = Done" "on_create_payment load job now d1 = Inr d2"
    then have run: "apply_payment now event d1 = Inr d2"
      by (simp add: on_create_payment_def assms(2))
    then have "has_ledger_operation d2 (p_account_id event) (p_id event)"
      by (rule apply_payment_recorded [OF inv(1)])
    then show ?case using apply_payment_ok [OF inv(1) run] by simp
  next
    assume s: "s2 = s1" "other d1 d2"
    then show ?case
      using assms(3) [OF _ inv(1)] inv(2) by (auto simp: has_ledger_operation_def list_ex_iff)
  qed (use inv in auto)
qed

text \<open>C20: A payment job that ends well has applied its payment exactly once: whatever other transactions
  commit between its attempts, redeliveries of the same payment included, as long as they keep the
  table constraints and delete no ledger row, the ledger then holds exactly one row with the
  payment's account and id. An attempt that fails changes nothing.\<close>

theorem finished_payment_job_applied_once:
  assumes "job_runs ex (on_create_payment load job) other (Queued 0, d) (Done, d')"
    and "decode_or_fail load job = Inr event"
    and "\<And>d d'. other d d' \<Longrightarrow> db_ok d \<Longrightarrow> db_ok d' \<and> set (ledger d) \<subseteq> set (ledger d')"
    and "db_ok d"
  shows "\<exists>row. filter (\<lambda>r. l_account_id r = p_account_id event \<and> l_operation_id r = p_id event) (ledger d') = [row]"
proof -
  have inv: "db_ok d'" "has_ledger_operation d' (p_account_id event) (p_id event)"
    using job_payment_inv [OF assms(1-4)] by simp_all
  have "distinct (map (\<lambda>r. (l_account_id r, l_operation_id r)) (ledger d'))"
    using inv(1) by (simp add: constraint_defs)
  from filter_distinct_key [OF this, of "(p_account_id event, p_id event)"] inv(2) show ?thesis
    by (auto simp: has_ledger_operation_def list_ex_iff find_None_iff split: option.splits)
qed

definition sample_job :: job where
  "sample_job = \<lparr>j_entrypoint = create_payment_route, j_payload = Some [1], j_attempts = 0, j_headers = None\<rparr>"

theorem finished_payment_job_applied_once_witness:
  "\<exists>row. filter (\<lambda>r. l_account_id r = 10 \<and> l_operation_id r = 23) (sample_rows @
      [ledger_follow 4 (last sample_rows) (-1500) Op_WITHDRAWAL 23 None]) = [row]"
proof -
  let ?load = "\<lambda>b. Inr (sample_payment 23 (-1500)) :: exc + create_payment"
  let ?other = "\<lambda>d d'. \<exists>e. payment_tx e d = Inr d'"
  let ?d' = "sample_db\<lparr>ledger := sample_rows @
      [ledger_follow 4 (last sample_rows) (-1500) Op_WITHDRAWAL 23 None]\<rparr>"
  have dec: "decode_or_fail ?load sample_job = Inr (sample_payment 23 (-1500))"
    by (simp add: decode_or_fail_def from_payload_bytes_def sample_job_def)
  have "execute entrypoint_executor 0 (on_create_payment ?load sample_job 4 sample_db) = Inr ?d'"
    by (simp add: on_create_payment_def dec sample_apply)
  then have "job_step entrypoint_executor (on_create_payment ?load sample_job) ?other (Queued 0, sample_db) (Done, ?d')"
    by (rule finished)
  then have run: "job_runs entrypoint_executor (on_create_payment ?load sample_job) ?other (Queued 0, sample_db) (Done, ?d')" by (rule r_into_rtranclp)
  have other: "db_ok d' \<and> set (ledger d) \<subseteq> set (ledger d')" if "\<exists>e. payment_tx e d = Inr d'" "db_ok d" for d d'
    using that apply_payment_ok apply_payment_frame(7) by auto blast
  from finished_payment_job_applied_once [OF run dec other sample_db_ok] show ?thesis by simp
qed

section \<open>From the event to the wallet\<close>

text \<open>C22: A payment event reaches the wallet with the right sign. Whatever queue a subscriber has, it puts exactly one
  job into it, keyed by the route and the id of the event. When the entrypoint runs that job on an active account with
  an intact ledger, it does to the wallet what the specification says of a movement under the event's id of plus the
  amount for a deposit and minus the amount for a withdrawal; what it adds to the ledger is one row of that account,
  id, type and amount. On a wallet that is not overdrawn a deposit is never refused for lack of funds. The payload
  is read back as it was written.\<close>

theorem payment_events_reach_the_wallet:
  assumes "load (dump (M_payment (deposit_command event))) = Inr (deposit_command event)"
    and "load (dump (M_payment (withdrawal_command event))) = Inr (withdrawal_command event)"
    and "db_ok d" "a \<in> set (accounts d)" "a_id a = pe_account_id event" "a_status a = Acc_ACTIVE"
    and "ledger_intact d (pe_account_id event)" "ledger_of d (pe_account_id event) \<noteq> []"
  shows "\<exists>deposit withdrawal.
      (\<forall>put q. on_payment_deposited dump put ctx event q = put deposit q)
    \<and> (\<forall>put q. on_payment_withdrawn dump put ctx event q = put withdrawal q)
    \<and> (\<forall>(request, kind, amount) \<in> {(deposit, Op_DEPOSIT, pe_amount event), (withdrawal, Op_WITHDRAWAL, - pe_amount event)}.
        jr_entrypoint request = ''payment.create'' \<and> jr_dedupe_key request = ''payment.create.'' @ uuid_str (pe_id event)
        \<and> map_sum id (\<lambda>d'. wallet_of d' (pe_account_id event)) (on_create_payment load (queued request) now d)
          = wallet_apply \<lparr>p_id = pe_id event, p_account_id = pe_account_id event, p_type = kind, p_signed_amount = amount,
              p_occurred_at = pe_occurred_at event\<rparr> (wallet_of d (pe_account_id event))
        \<and> (\<forall>d'. on_create_payment load (queued request) now d = Inr d' \<longrightarrow>
            d' = d \<or> (\<exists>row. d' = d\<lparr>ledger := ledger d @ [row]\<rparr> \<and> l_account_id row = pe_account_id event
              \<and> l_operation_id row = pe_id event \<and> l_operation_type row = kind \<and> l_amount row = amount)))
    \<and> (payment_event_valid event \<and> 0 \<le> w_balance (wallet_of d (pe_account_id event)) \<longrightarrow>
        (\<forall>r. on_create_payment load (queued deposit) now d \<noteq> Inl (TerminalJobError r)))"
proof -
  let ?i = "pe_account_id event"
  let ?command = "\<lambda>kind amount. \<lparr>p_id = pe_id event, p_account_id = ?i, p_type = kind, p_signed_amount = amount,
      p_occurred_at = pe_occurred_at event\<rparr>"
  let ?request = "\<lambda>kind amount. \<lparr>jr_entrypoint = ''payment.create'', jr_payload = dump (M_payment (?command kind amount)),
      jr_dedupe_key = ''payment.create.'' @ uuid_str (pe_id event), jr_headers = propagation_headers ctx\<rparr>"
  let ?deposit = "?request Op_DEPOSIT (pe_amount event)" and ?withdrawal = "?request Op_WITHDRAWAL (- pe_amount event)"
  have c: "deposit_command event = ?command Op_DEPOSIT (pe_amount event)"
    "withdrawal_command event = ?command Op_WITHDRAWAL (- pe_amount event)"
    by (simp_all add: deposit_command_def withdrawal_command_def)
  have run: "on_create_payment load (queued (?request kind amount)) now d = apply_payment now (?command kind amount) d"
    if "load (dump (M_payment (?command kind amount))) = Inr (?command kind amount)" for kind amount
    using that by (simp add: on_create_payment_def decode_or_fail_def from_payload_bytes_def queued_def)
  have put: "on_payment_deposited dump put ctx event q = put ?deposit q"
    "on_payment_withdrawn dump put ctx event q = put ?withdrawal q" for put q
    unfolding on_payment_deposited_def on_payment_withdrawn_def enqueue_def c
    by (simp_all add: dedupe_key_def create_payment_route_def)
  have wallet: "map_sum id (\<lambda>d'. wallet_of d' ?i) (apply_payment now (?command kind amount) d)
      = wallet_apply (?command kind amount) (wallet_of d ?i)" for kind amount
    using apply_payment_wallet [OF assms(3,4), of "?command kind amount" now] assms(5-8) by simp
  have row: "d' = d \<or> (\<exists>row. d' = d\<lparr>ledger := ledger d @ [row]\<rparr> \<and> l_account_id row = ?i
      \<and> l_operation_id row = pe_id event \<and> l_operation_type row = kind \<and> l_amount row = amount)"
    if "apply_payment now (?command kind amount) d = Inr d'" for kind amount d'
    using assms(3) that
  proof (cases rule: apply_payment_cases)
    case (appended previous)
    then have "l_account_id previous = ?i" using last_ledger_of [of d ?i] by simp
    with appended(5) show ?thesis by (intro disjI2 exI [of _ "ledger_follow now previous amount kind (pe_id event) None"])
        (simp add: ledger_follow_def)
  qed simp
  have funds: "apply_payment now (?command Op_DEPOSIT (pe_amount event)) d \<noteq> Inl (TerminalJobError r)"
    if "payment_event_valid event" "0 \<le> w_balance (wallet_of d ?i)" for r
  proof
    assume "apply_payment now (?command Op_DEPOSIT (pe_amount event)) d = Inl (TerminalJobError r)"
    then show False
      using that wallet [of Op_DEPOSIT "pe_amount event"]
      by (simp add: wallet_apply_def payment_event_valid_def split: if_splits)
  qed
  let ?serves = "\<lambda>request kind amount. jr_entrypoint request = ''payment.create''
      \<and> jr_dedupe_key request = ''payment.create.'' @ uuid_str (pe_id event)
      \<and> map_sum id (\<lambda>d'. wallet_of d' ?i) (on_create_payment load (queued request) now d)
        = wallet_apply (?command kind amount) (wallet_of d ?i)
      \<and> (\<forall>d'. on_create_payment load (queued request) now d = Inr d' \<longrightarrow> d' = d
        \<or> (\<exists>row. d' = d\<lparr>ledger := ledger d @ [row]\<rparr> \<and> l_account_id row = ?i
            \<and> l_operation_id row = pe_id event \<and> l_operation_type row = kind \<and> l_amount row = amount))"
  have serves: "?serves (?request kind amount) kind amount"
    if "load (dump (M_payment (?command kind amount))) = Inr (?command kind amount)" for kind amount
    unfolding run [OF that] wallet using row [of kind amount] by simp
  have "\<forall>(request, kind, amount) \<in> {(?deposit, Op_DEPOSIT, pe_amount event), (?withdrawal, Op_WITHDRAWAL, - pe_amount event)}.
      ?serves request kind amount"
    by (intro ballI, elim insertE emptyE; hypsubst; unfold prod.case; rule serves; rule assms(1,2) [unfolded c])
  moreover have "\<forall>put q. on_payment_deposited dump put ctx event q = put ?deposit q"
    "\<forall>put q. on_payment_withdrawn dump put ctx event q = put ?withdrawal q"
    using put by blast+
  moreover have "payment_event_valid event \<and> 0 \<le> w_balance (wallet_of d ?i) \<longrightarrow>
      (\<forall>r. on_create_payment load (queued ?deposit) now d \<noteq> Inl (TerminalJobError r))"
    unfolding run [OF assms(1) [unfolded c]] using funds by blast
  ultimately show ?thesis by blast
qed

fun sample_dump :: "async_message \<Rightarrow> byte list" where
  "sample_dump (M_payment c) = (if 0 < p_signed_amount c then [1] else [2])"
| "sample_dump (M_account_created _) = [3]"

definition sample_load :: "byte list \<Rightarrow> exc + create_payment" where
  "sample_load b = Inr (if b = [1] then deposit_command sample_event else withdrawal_command sample_event)"

theorem payment_events_reach_the_wallet_witness:
  "\<exists>job. on_payment_withdrawn sample_dump (\<lambda>j q. Inr (j # q)) Map.empty sample_event [] = Inr [job]
    \<and> map_sum id (\<lambda>d'. w_balance (wallet_of d' 10)) (on_create_payment sample_load (queued job) 9 sample_db) = Inr 750"
proof -
  have s: "pe_account_id sample_event = 10" "pe_amount sample_event = 1250" "pe_id sample_event = 30" by (simp_all add: sample_event_def)
  have ld: "sample_load (sample_dump (M_payment (deposit_command sample_event))) = Inr (deposit_command sample_event)"
    "sample_load (sample_dump (M_payment (withdrawal_command sample_event))) = Inr (withdrawal_command sample_event)"
    by (simp_all add: sample_load_def deposit_command_def withdrawal_command_def s)
  have ok: "ledger_intact sample_db (pe_account_id sample_event)" "ledger_of sample_db (pe_account_id sample_event) \<noteq> []"
    "a_id sample_account = pe_account_id sample_event"
    unfolding s by (rule sample_intact, simp add: sample_ledger_of sample_rows_def, simp)
  have acc: "sample_account \<in> set (accounts sample_db)" "a_status sample_account = Acc_ACTIVE" by simp_all
  obtain withdrawal where r: "\<forall>put (q :: job_request list). on_payment_withdrawn sample_dump put Map.empty sample_event q = put withdrawal q"
    "map_sum id (\<lambda>d'. wallet_of d' 10) (on_create_payment sample_load (queued withdrawal) 9 sample_db)
      = wallet_apply \<lparr>p_id = 30, p_account_id = 10, p_type = Op_WITHDRAWAL, p_signed_amount = - 1250,
          p_occurred_at = pe_occurred_at sample_event\<rparr> (wallet_of sample_db 10)"
    using payment_events_reach_the_wallet [OF ld sample_db_ok acc(1) ok(3) acc(2) ok(1,2), of Map.empty 9]
    unfolding s ball_simps(5,7) prod.case by (elim exE conjE) (rule that; assumption)
  have w: "wallet_of sample_db 10 = \<lparr>w_rows = 3, w_balance = 2000, w_operations = l_operation_id ` set sample_rows\<rparr>"
    by (simp add: wallet_of_def sample_ledger_of sample_rows_def del: set_ledger_of)
  have "30 \<notin> l_operation_id ` set sample_rows" by (simp add: sample_rows_def)
  then have "map_sum id (\<lambda>d'. wallet_of d' 10) (on_create_payment sample_load (queued withdrawal) 9 sample_db)
      = Inr \<lparr>w_rows = 4, w_balance = 750, w_operations = insert 30 (l_operation_id ` set sample_rows)\<rparr>"
    using r(2) by (simp add: w wallet_apply_def numeric_ok_def bigint_ok_def)
  then have "map_sum id (\<lambda>d'. w_balance (wallet_of d' 10)) (on_create_payment sample_load (queued withdrawal) 9 sample_db) = Inr 750"
    by (cases "on_create_payment sample_load (queued withdrawal) 9 sample_db") simp_all
  then show ?thesis using r(1) by auto
qed

end
