(* ===== verification/Sessions.thy ===== *)
theory Sessions
  imports Store
begin

text \<open>
  The sessions of a request: the two dependencies of \<open>deps.py\<close> that \<open>fast_deps.py\<close> hands to the repositories
  and the endpoints, what each session's transaction has written, and what of it is left when the request ends.
\<close>

text \<open>\<open>get_session\<close> and \<open>get_tx_session\<close>. Within a request FastAPI calls a dependency once, so whoever depends on
  one function gets one session; two functions open two.\<close>

datatype dependency = Get_session | Get_tx_session

fun wired_sessions :: "dependency \<Rightarrow> nat" where
  "wired_sessions Get_session = 0"
| "wired_sessions Get_tx_session = 1"

text \<open>The test suite overrides both functions with one session.\<close>

definition one_session :: "dependency \<Rightarrow> nat" where
  "one_session dep = 0"

definition sessions_shared :: bool where
  "sessions_shared \<longleftrightarrow> wired_sessions Get_session = wired_sessions Get_tx_session"

lemma not_sessions_shared [simp]: "\<not> sessions_shared"
  by (simp add: sessions_shared_def)

lemma one_session_not_wired [simp]: "one_session \<noteq> wired_sessions" "wired_sessions \<noteq> one_session"
  by (metis one_session_def wired_sessions.simps(2) zero_neq_one)+

text \<open>The database as committed, and for each session what its transaction, if it has one, has made of it.\<close>

record request_db =
  rq_committed :: db
  rq_written :: "nat \<Rightarrow> db option"

definition request_start :: "db \<Rightarrow> request_db" where
  "request_start d = \<lparr>rq_committed = d, rq_written = \<lambda>_. None\<rparr>"

definition session_db :: "nat \<Rightarrow> request_db \<Rightarrow> db" where
  "session_db s r = (case rq_written r s of None \<Rightarrow> rq_committed r | Some d \<Rightarrow> d)"

definition session_write :: "nat \<Rightarrow> db \<Rightarrow> request_db \<Rightarrow> request_db" where
  "session_write s d r = r\<lparr>rq_written := (rq_written r)(s := Some d)\<rparr>"

text \<open>The exits of the two functions after the endpoint has returned: \<open>session.begin()\<close> commits what the session
  of \<open>get_tx_session\<close> has written, the session of \<open>get_session\<close> is closed and rolled back.\<close>

definition request_end :: "(dependency \<Rightarrow> nat) \<Rightarrow> request_db \<Rightarrow> db" where
  "request_end sessions r = session_db (sessions Get_tx_session) r"

lemma session_db_simps [simp]:
  "session_db s (request_start d) = d"
  "session_db t (session_write s d r) = (if t = s then d else session_db t r)"
  by (simp_all add: session_db_def request_start_def session_write_def split: option.split)

text \<open>\<open>session.add\<close> of an object that session \<open>t\<close> has loaded; \<open>refuses\<close> is SQLAlchemy's answer to whether
  session \<open>s\<close> may have it, and its documentation says which objects those are.\<close>

definition session_add :: "(nat \<Rightarrow> nat \<Rightarrow> bool) \<Rightarrow> nat \<Rightarrow> nat \<Rightarrow> exc + unit" where
  "session_add refuses s t = (if refuses s t then Inl InvalidRequestError else Inr ())"

definition refuses_foreign_objects :: "(nat \<Rightarrow> nat \<Rightarrow> bool) \<Rightarrow> bool" where
  "refuses_foreign_objects refuses \<longleftrightarrow> (\<forall>s t. refuses s t \<longleftrightarrow> s \<noteq> t)"

end
