(* ===== verification/Accounts.thy ===== *)
theory Accounts
  imports Messaging Version_Tokens Verifier Sessions
begin

text \<open>
  The account endpoints of \<open>app/routers/admin/account.py\<close>: create, update, delete, the report of an
  open discrepancy and its resolution, with the flush of a changed account (the history row and the
  guarded \<open>UPDATE\<close>) and the sessions \<open>fast_deps.py\<close> wires into them.
\<close>

section \<open>Requests\<close>

record account_create_body =
  nb_name :: string
  nb_customer_id :: uuid
  nb_currency :: currency

definition account_create_valid :: "account_create_body \<Rightarrow> bool" where
  "account_create_valid b \<longleftrightarrow> 3 \<le> length (nb_name b) \<and> length (nb_name b) \<le> 50"

record account_update_body =
  ub_version :: string
  ub_name :: "string option"
  ub_status :: "customer_account_status option"

definition account_update_valid :: "account_update_body \<Rightarrow> bool" where
  "account_update_valid b \<longleftrightarrow> length (ub_version b) = token_length
     \<and> (case ub_name b of None \<Rightarrow> True | Some n \<Rightarrow> 3 \<le> length n \<and> length n \<le> 50)
     \<and> ub_status b \<noteq> Some Acc_DELETED"

section \<open>The flush of a changed account\<close>

text \<open>
  The unit of work holds the row it read and the values set on it. \<open>before_flush\<close> decides with
  \<open>create_version\<close>; if nothing changed there is nothing to write. Otherwise SQLAlchemy emits the
  \<open>INSERT\<close> of the history row and the \<open>UPDATE\<close> of the changed columns, guarded by the version that
  was read (\<open>version_id_col\<close>); in which order is up to it, hence \<open>history_first\<close>. The database may
  have moved on since the row was read.
\<close>

definition account_object :: "customer_account \<Rightarrow> customer_account \<Rightarrow> (account_attr, cell) orm_object" where
  "account_object loaded current = \<lparr>obj_loaded = account_attrs loaded, obj_current = account_attrs current,
     obj_version = a_version loaded\<rparr>"

definition set_changed :: "timestamp \<Rightarrow> customer_account \<Rightarrow> customer_account \<Rightarrow> int \<Rightarrow> customer_account \<Rightarrow> customer_account" where
  "set_changed db_now loaded current version row =
     row\<lparr>a_name := (if a_name current \<noteq> a_name loaded then a_name current else a_name row),
         a_status := (if a_status current \<noteq> a_status loaded then a_status current else a_status row),
         a_updated_by := (if a_updated_by current \<noteq> a_updated_by loaded then a_updated_by current else a_updated_by row),
         a_updated_at := db_now, a_version := version\<rparr>"

definition update_account_row :: "timestamp \<Rightarrow> customer_account \<Rightarrow> customer_account \<Rightarrow> int \<Rightarrow> db \<Rightarrow> exc + db" where
  "update_account_row db_now loaded current version d =
     (let matches = (\<lambda>a. a_id a = a_id loaded \<and> a_version a = a_version loaded)
      in if list_ex matches (accounts d)
         then Inr (d\<lparr>accounts := map (\<lambda>a. if matches a then set_changed db_now loaded current version a else a) (accounts d)\<rparr>)
         else Inl StaleDataError)"

definition flush_account :: "(account_attr, cell) get_history \<Rightarrow> bool \<Rightarrow> timestamp \<Rightarrow> timestamp
    \<Rightarrow> customer_account \<Rightarrow> customer_account \<Rightarrow> db \<Rightarrow> exc + db" where
  "flush_account gh history_first now db_now loaded current d =
     (let (obj, h) = create_version account_mapper gh now False (account_object loaded current)
      in case h of
           None \<Rightarrow> Inr d
         | Some row \<Rightarrow>
             let upd = update_account_row db_now loaded current (obj_version obj)
             in if history_first
                then (case insert_account_history row d of Inl e \<Rightarrow> Inl e | Inr d1 \<Rightarrow> upd d1)
                else (case upd d of Inl e \<Rightarrow> Inl e | Inr d1 \<Rightarrow> insert_account_history row d1))"

section \<open>Endpoints\<close>

text \<open>The clocks, the secret, the sessions the endpoint and its repository get, and what is SQLAlchemy's business:
  which objects \<open>session.add\<close> refuses, and the order of a flush.\<close>

record endpoint_env =
  en_now :: timestamp
  en_db_now :: timestamp
  en_secret :: string
  en_sessions :: "dependency \<Rightarrow> nat"
  en_refuses :: "nat \<Rightarrow> nat \<Rightarrow> bool"
  en_history_first :: bool

definition en_shared :: "endpoint_env \<Rightarrow> bool" where
  "en_shared env \<longleftrightarrow> en_sessions env Get_session = en_sessions env Get_tx_session"

definition account_created_event :: "customer_account \<Rightarrow> account_created" where
  "account_created_event a = \<lparr>ac_id = a_id a, ac_customer_id = a_customer_id a,
     ac_currency = a_currency a, ac_name = a_name a, ac_status = account_status_value (a_status a),
     ac_created_at = a_created_at a, ac_updated_at = Some (a_updated_at a)\<rparr>"

definition create_customer_account ::
  "(async_message \<Rightarrow> byte list) \<Rightarrow> (job_request \<Rightarrow> 'q \<Rightarrow> exc + 'q) \<Rightarrow> (string \<rightharpoonup> string)
    \<Rightarrow> timestamp \<Rightarrow> uuid \<Rightarrow> account_create_body \<Rightarrow> uuid \<Rightarrow> db \<Rightarrow> 'q \<Rightarrow> exc + db \<times> 'q \<times> uuid"
where
  "create_customer_account dump put contextvars now entity_id body sub d q =
     (let account = account_create now entity_id (nb_customer_id body)
            (currency_value (nb_currency body)) (Some (nb_name body)) sub
      in case (case insert_account account d of
                 Inl e \<Rightarrow> Inl e
               | Inr d1 \<Rightarrow> insert_ledger (ledger_create now (a_id account) (Some sub)) d1) of
           Inl (IntegrityError c) \<Rightarrow> Inl (HTTPException 400 (StrOf (IntegrityError c)))
         | Inl e \<Rightarrow> Inl e
         | Inr d2 \<Rightarrow>
             (case enqueue dump put contextvars (M_account_created (account_created_event account)) q of
                Inl e \<Rightarrow> Inl e
              | Inr q' \<Rightarrow> Inr (d2, q', a_id account)))"

text \<open>
  What update and delete share: the account as read through the repository's session, the check of its token, and
  the change \<open>assign\<close> made to it, which the endpoint's session writes and commits. \<open>dr\<close> is the database when the
  account is read, \<open>dw\<close> when it is written.
\<close>

definition edit_account :: "(account_attr, cell) get_history \<Rightarrow> endpoint_env \<Rightarrow> uuid \<Rightarrow> string
    \<Rightarrow> (customer_account \<Rightarrow> customer_account) \<Rightarrow> db \<Rightarrow> db \<Rightarrow> exc + db" where
  "edit_account gh env account_id token assign dr dw =
     (case account_find_by_id dr account_id of
        Inl e \<Rightarrow> Inl e
      | Inr None \<Rightarrow> Inl (HTTPException 404 (Message ''Account not found''))
      | Inr (Some account) \<Rightarrow>
          if a_status account = Acc_DELETED
          then Inl (HTTPException 404 (Message ''Account not found''))
          else case verify_token (en_secret env) (a_id account) (a_version account) token of
            Inl e \<Rightarrow> Inl e
          | Inr False \<Rightarrow> Inl (HTTPException 409
              (Message ''Account was modified by someone else; reload and retry''))
          | Inr True \<Rightarrow>
              (case session_add (en_refuses env) (en_sessions env Get_tx_session) (en_sessions env Get_session) of
                 Inl e \<Rightarrow> Inl e
               | Inr _ \<Rightarrow> flush_account gh (en_history_first env) (en_now env) (en_db_now env)
                   account (assign account) dw))"

definition update_assign :: "account_update_body \<Rightarrow> uuid \<Rightarrow> customer_account \<Rightarrow> customer_account" where
  "update_assign body sub account =
     (let named = (case ub_name body of None \<Rightarrow> account | Some n \<Rightarrow> account\<lparr>a_name := Some n\<rparr>);
          stated = (case ub_status body of None \<Rightarrow> named | Some s \<Rightarrow> named\<lparr>a_status := s\<rparr>)
      in stated\<lparr>a_updated_by := sub\<rparr>)"

definition update_customer_account :: "(account_attr, cell) get_history \<Rightarrow> endpoint_env \<Rightarrow> uuid
    \<Rightarrow> account_update_body \<Rightarrow> uuid \<Rightarrow> db \<Rightarrow> db \<Rightarrow> exc + db" where
  "update_customer_account gh env account_id body sub dr dw =
     edit_account gh env account_id (ub_version body) (update_assign body sub) dr dw"

definition delete_assign :: "uuid \<Rightarrow> customer_account \<Rightarrow> customer_account" where
  "delete_assign sub account = account\<lparr>a_status := Acc_DELETED, a_updated_by := sub\<rparr>"

definition delete_customer_account :: "(account_attr, cell) get_history \<Rightarrow> endpoint_env \<Rightarrow> uuid
    \<Rightarrow> string \<Rightarrow> uuid \<Rightarrow> db \<Rightarrow> db \<Rightarrow> exc + db" where
  "delete_customer_account gh env account_id version sub dr dw =
     edit_account gh env account_id version (delete_assign sub) dr dw"

text \<open>The discrepancy report.\<close>

record discrepancy_display =
  dd_id :: uuid
  dd_no :: int
  dd_kind :: ledger_discrepancy_kind
  dd_prev_no :: int
  dd_expected_balance :: "money option"
  dd_actual_balance :: money
  dd_detected_at :: timestamp
  dd_verified_through_no :: int

definition no_open_discrepancy :: exc where
  "no_open_discrepancy = HTTPException 404 (Message ''No open ledger discrepancy for this account'')"

definition get_ledger_discrepancy :: "uuid \<Rightarrow> db \<Rightarrow> exc + discrepancy_display" where
  "get_ledger_discrepancy account_id d =
     (case find_open_discrepancy d account_id of
        Inl e \<Rightarrow> Inl e
      | Inr None \<Rightarrow> Inl no_open_discrepancy
      | Inr (Some x) \<Rightarrow>
          (case find_latest_checkpoint d account_id of
             Inl e \<Rightarrow> Inl e
           | Inr checkpoint \<Rightarrow> Inr
               \<lparr>dd_id = d_account_id x, dd_no = d_no x, dd_kind = d_kind x, dd_prev_no = d_prev_no x,
                dd_expected_balance = d_expected_balance x, dd_actual_balance = d_actual_balance x,
                dd_detected_at = d_detected_at x,
                dd_verified_through_no =
                  (case checkpoint of None \<Rightarrow> 0 | Some v \<Rightarrow> v_through_no v)\<rparr>))"

text \<open>
  The resolution. The repository reads and writes through its session; \<open>request_end\<close> says what is left of that.
\<close>

definition accepted_through_no :: "int option \<Rightarrow> customer_account_ledger_discrepancy \<Rightarrow> int option" where
  "accepted_through_no through_no x =
     (let default = (if d_kind x = ANCHOR_BALANCE then None else Some (d_no x))
      in case through_no of None \<Rightarrow> default | Some n \<Rightarrow> if n = 0 then default else Some n)"

definition resolve_ledger_discrepancy :: "endpoint_env \<Rightarrow> uuid \<Rightarrow> int option \<Rightarrow> uuid \<Rightarrow> db \<Rightarrow> exc + db" where
  "resolve_ledger_discrepancy env account_id resolution sub d =
     (let repo = en_sessions env Get_session; r0 = request_start d
      in case find_open_discrepancy (session_db repo r0) account_id of
        Inl e \<Rightarrow> Inl e
      | Inr None \<Rightarrow> Inl no_open_discrepancy
      | Inr (Some x) \<Rightarrow>
          (case find_latest_checkpoint (session_db repo r0) account_id of
             Inl e \<Rightarrow> Inl e
           | Inr checkpoint \<Rightarrow>
               let anchor_no = (case checkpoint of None \<Rightarrow> 0 | Some v \<Rightarrow> v_through_no v)
               in case accepted_through_no resolution x of
                    None \<Rightarrow> Inl (HTTPException 422 (Message ''through_no is required''))
                  | Some through_no \<Rightarrow>
                      if through_no \<le> anchor_no
                      then Inl (HTTPException 422 (Message ''through_no must be greater''))
                      else case find_ledger_balance (session_db repo r0) account_id through_no of
                        Inl e \<Rightarrow> Inl e
                      | Inr None \<Rightarrow> Inl (HTTPException 422 (Message ''No ledger row''))
                      | Inr (Some balance) \<Rightarrow>
                          (case add_checkpoint (en_now env) account_id through_no balance (session_db repo r0) of
                             Inl e \<Rightarrow> Inl e
                           | Inr d1 \<Rightarrow>
                               let r1 = session_write repo d1 r0
                               in case resolve_discrepancy (en_now env) (d_id x) (d_account_id x) sub (session_db repo r1) of
                                  Inl e \<Rightarrow> Inl e
                                | Inr d2 \<Rightarrow>
                                    let r2 = session_write repo d2 r1 in Inr (request_end (en_sessions env) r2))))"

text \<open>The status a client sees: \<open>main.py\<close> answers a stale version with 409, everything else with 500.\<close>

fun status_code :: "exc \<Rightarrow> nat" where
  "status_code (HTTPException code _) = code"
| "status_code StaleDataError = 409"
| "status_code _ = 500"

end
