(* ===== verification/Account_Edits.thy ===== *)
theory Account_Edits
  imports Accounts Verifier_Invariants
begin

text \<open>
  Creating and editing accounts: what the endpoints write, the audit trail they keep, and what
  happens when two edits of one account meet. The audit invariant says that an account at version
  \<open>v\<close> has exactly the archived versions 1 to \<open>v - 1\<close>, in order.
\<close>

section \<open>The flush, resolved\<close>

definition archived :: "timestamp \<Rightarrow> customer_account \<Rightarrow> (account_attr, cell) history_row" where
  "archived now a = \<lparr>hist_attrs = account_attrs a, hist_version = a_version a, hist_changed = now\<rparr>"

lemma archived_sel [simp]:
  "hist_attrs (archived now a) = account_attrs a" "hist_version (archived now a) = a_version a"
  by (simp_all add: archived_def)

lemma create_version_account:
  assumes "attribute_history gh"
  shows "create_version account_mapper gh now False (account_object loaded current) =
    (if account_attrs loaded = account_attrs current then (account_object loaded current, None)
     else ((account_object loaded current)\<lparr>obj_version := a_version loaded + 1\<rparr>, Some (archived now loaded)))"
proof -
  have "list_ex (\<lambda>k. account_attrs loaded k \<noteq> account_attrs current k) account_keys
      \<longleftrightarrow> account_attrs loaded \<noteq> account_attrs current"
    by (auto simp: list_ex_iff)
  moreover have "fully_loaded (set (mapper_keys account_mapper)) (account_object loaded current)"
    by (simp add: fully_loaded_def account_object_def)
  ultimately show ?thesis
    by (simp add: attribute_history.create_version_eq [OF assms] mapper_keys_account account_object_def
        archived_def restrict_map_def)
qed

lemma flush_account_eq:
  assumes "attribute_history gh"
  shows "flush_account gh history_first now db_now loaded current d =
    (if account_attrs loaded = account_attrs current then Inr d
     else if history_first
     then (case insert_account_history (archived now loaded) d of Inl e \<Rightarrow> Inl e
           | Inr d1 \<Rightarrow> update_account_row db_now loaded current (a_version loaded + 1) d1)
     else (case update_account_row db_now loaded current (a_version loaded + 1) d of Inl e \<Rightarrow> Inl e
           | Inr d1 \<Rightarrow> insert_account_history (archived now loaded) d1))"
  unfolding flush_account_def create_version_account [OF assms]
  by (simp add: Let_def account_object_def split: sum.splits)

section \<open>The audit trail\<close>

definition history_of :: "db \<Rightarrow> uuid \<Rightarrow> (account_attr, cell) history_row list" where
  "history_of d i = filter (\<lambda>h. hist_attrs h At_id = Some (V_uuid i)) (account_history d)"

definition audit_ok :: "db \<Rightarrow> bool" where
  "audit_ok d \<longleftrightarrow>
     (\<forall>a \<in> set (accounts d). 1 \<le> a_version a
        \<and> map hist_version (history_of d (a_id a)) = versions_from 1 (nat (a_version a - 1)))
     \<and> (\<forall>h \<in> set (account_history d). \<exists>a \<in> set (accounts d). hist_attrs h At_id = Some (V_uuid (a_id a)))"

lemma versions_from_snoc: "1 \<le> v \<Longrightarrow> versions_from 1 (nat (v - 1)) @ [v] = versions_from 1 (nat v)"
proof -
  assume "1 \<le> v"
  then have "nat v = Suc (nat (v - 1))" by simp
  with \<open>1 \<le> v\<close> show ?thesis by (simp add: versions_from_def)
qed

lemma versions_from_mem: "w \<in> set (versions_from 1 (nat (v - 1))) \<longleftrightarrow> 1 \<le> w \<and> w < v"
proof
  assume "1 \<le> w \<and> w < v"
  then have "w = 1 + int (nat (w - 1))" "nat (w - 1) < nat (v - 1)" by auto
  then show "w \<in> set (versions_from 1 (nat (v - 1)))" unfolding versions_from_def by (metis atLeastLessThan_iff imageI image_set le0 set_upt)
qed (auto simp: versions_from_def)

lemma audit_history_mem:
  assumes "audit_ok d" "b \<in> set (accounts d)"
  shows "(\<exists>h \<in> set (account_history d). hist_attrs h At_id = Some (V_uuid (a_id b)) \<and> hist_version h = w)
    \<longleftrightarrow> 1 \<le> w \<and> w < a_version b"
proof -
  have "w \<in> set (map hist_version (history_of d (a_id b))) \<longleftrightarrow> 1 \<le> w \<and> w < a_version b"
    using assms versions_from_mem by (auto simp: audit_ok_def)
  then show ?thesis by (auto simp: history_of_def)
qed

lemma insert_history_eq:
  assumes "db_ok d" "audit_ok d" "b \<in> set (accounts d)" "a_id b = a_id a" "a_customer_id b = a_customer_id a" "1 \<le> a_version a"
  shows "insert_account_history (archived now a) d =
    (if a_version a < a_version b then Inl (IntegrityError ''pk_customer_account_history'')
     else Inr (d\<lparr>account_history := account_history d @ [archived now a]\<rparr>))"
proof -
  have "list_ex (\<lambda>c. Some (V_uuid (c_id c)) = account_attrs a At_customer_id) (customers d)"
  proof -
    obtain c where "c \<in> set (customers d)" "c_id c = a_customer_id b"
      using assms(1,3) by (auto simp: constraint_defs list_ex_iff)
    then show ?thesis using assms(5) by (auto simp: list_ex_iff)
  qed
  moreover have "list_ex (\<lambda>g. hist_attrs g At_id = account_attrs a At_id \<and> hist_version g = a_version a) (account_history d)
      \<longleftrightarrow> a_version a < a_version b"
    using audit_history_mem [OF assms(2,3), of "a_version a"] assms(4,6) by (auto simp: list_ex_iff)
  ultimately show ?thesis by (simp add: insert_account_history_def)
qed

lemma account_unique:
  assumes "db_ok d" "a \<in> set (accounts d)" "b \<in> set (accounts d)" "a_id a = a_id b"
  shows "a = b"
  using assms db_okD(2) [OF assms(1)] by (metis distinct_map inj_onD)

definition edited :: "timestamp \<Rightarrow> customer_account \<Rightarrow> customer_account \<Rightarrow> customer_account" where
  "edited db_now loaded current = set_changed db_now loaded current (a_version loaded + 1) loaded"

text \<open>What a flush with a change does to a database that still has the version that was read.\<close>

definition after_edit :: "timestamp \<Rightarrow> timestamp \<Rightarrow> customer_account \<Rightarrow> customer_account \<Rightarrow> db \<Rightarrow> db" where
  "after_edit now db_now loaded current d =
     d\<lparr>accounts := map (\<lambda>a. if a_id a = a_id loaded then edited db_now a current else a) (accounts d),
       account_history := account_history d @ [archived now loaded]\<rparr>"

lemma update_row_fresh:
  assumes "db_ok d" "a \<in> set (accounts d)"
  shows "update_account_row db_now a current (a_version a + 1) d =
    Inr (d\<lparr>accounts := map (\<lambda>b. if a_id b = a_id a then edited db_now b current else b) (accounts d)\<rparr>)"
proof -
  have "(if a_id b = a_id a \<and> a_version b = a_version a then set_changed db_now a current (a_version a + 1) b else b)
      = (if a_id b = a_id a then edited db_now b current else b)" if "b \<in> set (accounts d)" for b
    using account_unique [OF assms(1) that assms(2)] by (auto simp: edited_def)
  then show ?thesis
    using assms(2) by (auto simp: update_account_row_def list_ex_iff cong: map_cong)
qed

lemma update_row_stale:
  assumes "db_ok d" "b \<in> set (accounts d)" "a_id b = a_id a" "a_version b \<noteq> a_version a"
  shows "update_account_row db_now a current v d = Inl StaleDataError"
proof -
  have "\<not> list_ex (\<lambda>c. a_id c = a_id a \<and> a_version c = a_version a) (accounts d)"
    using account_unique [OF assms(1) _ assms(2)] assms(3,4) by (auto simp: list_ex_iff)
  then show ?thesis by (simp add: update_account_row_def Let_def)
qed

lemma db_ok_cong:
  assumes "customers d' = customers d" "ledger d' = ledger d" "verified d' = verified d"
    "discrepancies d' = discrepancies d" "next_discrepancy_id d' = next_discrepancy_id d"
    and "map a_id (accounts d') = map a_id (accounts d)"
    and "map (\<lambda>a. (a_customer_id a, a_currency a)) (accounts d') = map (\<lambda>a. (a_customer_id a, a_currency a)) (accounts d)"
    and "db_ok d"
  shows "db_ok d'"
proof -
  have ex: "account_exists d' i = account_exists d i" for i
  proof -
    have "account_exists x i \<longleftrightarrow> i \<in> set (map a_id (accounts x))" for x
      by (auto simp: account_exists_def list_ex_iff)
    then show ?thesis using assms(6) by (simp only:)
  qed
  have fk: "(\<forall>a \<in> set (accounts d'). list_ex (\<lambda>c. c_id c = a_customer_id a) (customers d'))"
  proof -
    have "fst ` set (map (\<lambda>a. (a_customer_id a, a_currency a)) (accounts d'))
        = fst ` set (map (\<lambda>a. (a_customer_id a, a_currency a)) (accounts d))" using assms(7) by simp
    then have "a_customer_id ` set (accounts d') = a_customer_id ` set (accounts d)" by (simp add: image_image)
    moreover have "list_ex (\<lambda>c. c_id c = k) (customers d)" if "k \<in> a_customer_id ` set (accounts d)" for k
      using assms(8) that by (auto simp: constraint_defs)
    ultimately show ?thesis using assms(1) by auto
  qed
  show ?thesis
    using assms fk unfolding constraint_defs ex
    by (simp only: simp_thms) (elim conjE, intro conjI, assumption+)
qed

section \<open>What an edit does\<close>

text \<open>The changes the endpoints make: name, status and author only.\<close>

definition edits_only :: "(customer_account \<Rightarrow> customer_account) \<Rightarrow> bool" where
  "edits_only assign \<longleftrightarrow> (\<forall>a. assign a = a\<lparr>a_name := a_name (assign a), a_status := a_status (assign a),
     a_updated_by := a_updated_by (assign a)\<rparr>)"

lemma update_edits_only: "edits_only (update_assign body sub)"
  by (auto simp: edits_only_def update_assign_def Let_def split: option.splits)

lemma delete_edits_only: "edits_only (delete_assign sub)"
  by (simp add: edits_only_def delete_assign_def)

lemma edits_only_sel:
  assumes "edits_only assign"
  shows "a_id (assign a) = a_id a" "a_customer_id (assign a) = a_customer_id a"
    "a_currency (assign a) = a_currency a" "a_created_at (assign a) = a_created_at a"
    "a_updated_at (assign a) = a_updated_at a" "a_version (assign a) = a_version a"
  using assms unfolding edits_only_def
  by (metis customer_account.simps(1-9) customer_account.update_convs customer_account.select_convs customer_account.surjective)+

lemma edits_only_attrs: "edits_only assign \<Longrightarrow> account_attrs a = account_attrs (assign a) \<longleftrightarrow> assign a = a"
proof -
  assume e: "edits_only assign"
  have "assign a = a" if "account_attrs a = account_attrs (assign a)"
  proof -
    have "a_name (assign a) = a_name a" using fun_cong [OF that, of At_name] by simp
    moreover have "a_status (assign a) = a_status a" using fun_cong [OF that, of At_status] by simp
    moreover have "a_updated_by (assign a) = a_updated_by a" using fun_cong [OF that, of At_updated_by] by simp
    moreover have "assign a = a\<lparr>a_name := a_name (assign a), a_status := a_status (assign a),
       a_updated_by := a_updated_by (assign a)\<rparr>" using e by (simp add: edits_only_def)
    ultimately show ?thesis by simp
  qed
  then show ?thesis by auto
qed

lemma edited_assign:
  "edits_only assign \<Longrightarrow> edited db_now a (assign a) =
     (assign a)\<lparr>a_updated_at := db_now, a_version := a_version a + 1\<rparr>"
proof -
  assume e: "edits_only assign"
  have "assign a = a\<lparr>a_name := a_name (assign a), a_status := a_status (assign a),
     a_updated_by := a_updated_by (assign a)\<rparr>" using e by (simp add: edits_only_def)
  then show ?thesis
    by (cases a; cases "assign a") (simp add: edited_def set_changed_def)
qed

lemma edited_sel [simp]:
  "a_id (edited t a c) = a_id a" "a_customer_id (edited t a c) = a_customer_id a"
  "a_currency (edited t a c) = a_currency a" "a_version (edited t a c) = a_version a + 1"
  by (simp_all add: edited_def set_changed_def)

lemma after_edit_sel [simp]:
  "customers (after_edit now t a c d) = customers d" "ledger (after_edit now t a c d) = ledger d"
  "verified (after_edit now t a c d) = verified d" "discrepancies (after_edit now t a c d) = discrepancies d"
  "next_discrepancy_id (after_edit now t a c d) = next_discrepancy_id d"
  "account_history (after_edit now t a c d) = account_history d @ [archived now a]"
  "accounts (after_edit now t a c d) = map (\<lambda>b. if a_id b = a_id a then edited t b c else b) (accounts d)"
  by (simp_all add: after_edit_def)

lemma insert_history_accounts:
  "insert_account_history h (d\<lparr>accounts := as\<rparr>) = map_sum id (\<lambda>d'. d'\<lparr>accounts := as\<rparr>) (insert_account_history h d)"
  by (simp add: insert_account_history_def)

lemma audit_version: "audit_ok d \<Longrightarrow> a \<in> set (accounts d) \<Longrightarrow> 1 \<le> a_version a"
  by (simp add: audit_ok_def)

lemma flush_current:
  assumes "attribute_history gh" "edits_only assign" "db_ok d" "audit_ok d" "a \<in> set (accounts d)"
  shows "flush_account gh history_first now db_now a (assign a) d =
    Inr (if assign a = a then d else after_edit now db_now a (assign a) d)"
proof (cases "assign a = a")
  case True
  then show ?thesis
    unfolding flush_account_eq [OF assms(1)] edits_only_attrs [OF assms(2)] by simp
next
  case False
  have ins: "insert_account_history (archived now a) d = Inr (d\<lparr>account_history := account_history d @ [archived now a]\<rparr>)"
    using insert_history_eq [OF assms(3-5) refl refl audit_version [OF assms(4,5)]] by simp
  have ok1: "db_ok (d\<lparr>account_history := h\<rparr>)" for h
    by (rule db_ok_cong [OF _ _ _ _ _ _ _ assms(3)]) simp_all
  show ?thesis
    unfolding flush_account_eq [OF assms(1)] edits_only_attrs [OF assms(2)]
    using False update_row_fresh [OF ok1, of a] update_row_fresh [OF assms(3,5)] ins assms(5)
    by (simp add: after_edit_def insert_history_accounts)
qed

lemma flush_stale:
  assumes "attribute_history gh" "edits_only assign" "db_ok d" "audit_ok d" "b \<in> set (accounts d)"
    and "a_id b = a_id a" "a_customer_id b = a_customer_id a" "1 \<le> a_version a" "a_version a < a_version b"
    and "assign a \<noteq> a"
  shows "flush_account gh history_first now db_now a (assign a) d =
    Inl (if history_first then IntegrityError ''pk_customer_account_history'' else StaleDataError)"
  unfolding flush_account_eq [OF assms(1)] edits_only_attrs [OF assms(2)]
  using assms(9,10) insert_history_eq [OF assms(3-8)] update_row_stale [OF assms(3,5,6)] by simp

lemma after_edit_ok:
  assumes "db_ok d"
  shows "db_ok (after_edit now t a c d)"
  by (rule db_ok_cong [OF _ _ _ _ _ _ _ assms]) (simp_all add: comp_def)

lemma history_of_after_edit:
  "history_of (after_edit now t a c d) i = history_of d i @ (if i = a_id a then [archived now a] else [])"
  by (auto simp: history_of_def)

lemma after_edit_audit:
  assumes "db_ok d" "audit_ok d" "a \<in> set (accounts d)"
  shows "audit_ok (after_edit now t a c d)"
proof -
  have v: "1 \<le> a_version a" "map hist_version (history_of d (a_id a)) = versions_from 1 (nat (a_version a - 1))"
    using assms(2,3) by (auto simp: audit_ok_def)
  have b: "1 \<le> a_version x \<and> map hist_version (history_of (after_edit now t a c d) (a_id x)) = versions_from 1 (nat (a_version x - 1))"
    if x: "x \<in> set (accounts (after_edit now t a c d))" for x
  proof (cases "a_id x = a_id a")
    case True
    then obtain y where y: "y \<in> set (accounts d)" "a_id y = a_id a" "x = edited t y c"
      using x by (auto split: if_splits)
    then have "y = a" using account_unique [OF assms(1) y(1) assms(3)] by simp
    then show ?thesis using y(3) v versions_from_snoc [OF v(1)] by (simp add: history_of_after_edit)
  next
    case False
    then have "x \<in> set (accounts d)" using x by (auto split: if_splits)
    then show ?thesis using False assms(2) by (simp add: history_of_after_edit audit_ok_def)
  qed
  have "\<exists>x \<in> set (accounts (after_edit now t a c d)). hist_attrs h At_id = Some (V_uuid (a_id x))"
    if h: "h \<in> set (account_history (after_edit now t a c d))" for h
  proof -
    obtain y where "y \<in> set (accounts d)" "hist_attrs h At_id = Some (V_uuid (a_id y))"
      using h assms(2,3) by (auto simp: audit_ok_def)
    then show ?thesis
      by (cases "a_id y = a_id a") (auto intro!: bexI [of _ y] split: if_splits simp: Bex_def)
  qed
  then show ?thesis using b by (simp add: audit_ok_def)
qed

lemma edit_account_InrD:
  assumes "db_ok dr" "edit_account gh env i token assign dr dw = Inr d'"
  obtains a where "a \<in> set (accounts dr)" "a_id a = i" "a_status a \<noteq> Acc_DELETED"
    "verify_token (en_secret env) i (a_version a) token = Inr True"
    "flush_account gh (en_history_first env) (en_now env) (en_db_now env) a (assign a) dw = Inr d'"
proof -
  from assms(2) obtain a where "account_find_by_id dr i = Inr (Some a)"
    and r: "a_status a \<noteq> Acc_DELETED" "verify_token (en_secret env) (a_id a) (a_version a) token = Inr True"
    "flush_account gh (en_history_first env) (en_now env) (en_db_now env) a (assign a) dw = Inr d'"
    by (auto simp: edit_account_def session_add_def split: sum.splits option.splits if_splits bool.splits)
  then show thesis
    using that [of a] r account_find_Some_iff [OF assms(1), of i a] by auto
qed

lemma edit_account_authorized:
  assumes "db_ok dr" "a \<in> set (accounts dr)" "a_id a = i" "a_status a \<noteq> Acc_DELETED"
    and "token = issue (en_secret env) i (a_version a)" "refuses_foreign_objects (en_refuses env)"
  shows "edit_account gh env i token assign dr dw =
    (if en_shared env
     then flush_account gh (en_history_first env) (en_now env) (en_db_now env) a (assign a) dw
     else Inl InvalidRequestError)"
proof -
  have "account_find_by_id dr i = Inr (Some a)"
    using account_find_Some_iff [OF assms(1)] assms(2,3) by simp
  moreover have "session_add (en_refuses env) (en_sessions env Get_tx_session) (en_sessions env Get_session)
      = (if en_shared env then Inr () else Inl InvalidRequestError)"
    using assms(6) by (auto simp: session_add_def refuses_foreign_objects_def en_shared_def)
  ultimately show ?thesis
    using assms(3-5) by (simp add: edit_account_def verify_token_def compare_digest_def issue_ascii)
qed

end
