(* ===== verification/Account_Properties.thy ===== *)
theory Account_Properties
  imports Account_Edits
begin

text \<open>
  The properties of the account endpoints: what a creation leaves behind and when it is refused,
  what an edit writes, and that an edit never overwrites a version it has not seen.
\<close>

section \<open>Creating an account\<close>

definition new_account :: "timestamp \<Rightarrow> uuid \<Rightarrow> account_create_body \<Rightarrow> uuid \<Rightarrow> customer_account" where
  "new_account now i body sub = account_create now i (nb_customer_id body)
     (currency_value (nb_currency body)) (Some (nb_name body)) sub"

lemma new_account_sel [simp]:
  "a_id (new_account now i body sub) = i" "a_customer_id (new_account now i body sub) = nb_customer_id body"
  "a_currency (new_account now i body sub) = currency_value (nb_currency body)"
  "a_name (new_account now i body sub) = Some (nb_name body)"
  "a_status (new_account now i body sub) = Acc_ACTIVE" "a_version (new_account now i body sub) = 1"
  "a_updated_at (new_account now i body sub) = now" "a_updated_by (new_account now i body sub) = sub"
  by (simp_all add: new_account_def)

definition opened :: "timestamp \<Rightarrow> uuid \<Rightarrow> account_create_body \<Rightarrow> uuid \<Rightarrow> db \<Rightarrow> db" where
  "opened now i body sub d = d\<lparr>accounts := accounts d @ [new_account now i body sub],
     ledger := ledger d @ [ledger_create now i (Some sub)]\<rparr>"

definition creatable :: "uuid \<Rightarrow> account_create_body \<Rightarrow> db \<Rightarrow> bool" where
  "creatable i body d \<longleftrightarrow> i \<notin> a_id ` set (accounts d)
     \<and> (nb_customer_id body, currency_value (nb_currency body)) \<notin> (\<lambda>a. (a_customer_id a, a_currency a)) ` set (accounts d)
     \<and> nb_customer_id body \<in> c_id ` set (customers d)"

lemma ledger_account_exists: "db_ok d \<Longrightarrow> r \<in> set (ledger d) \<Longrightarrow> l_account_id r \<in> a_id ` set (accounts d)"
proof -
  assume "db_ok d" "r \<in> set (ledger d)"
  then have "account_exists d (l_account_id r)" by (simp add: constraint_defs)
  then show ?thesis by (force simp: account_exists_def list_ex_iff)
qed

lemma fresh_account_no_rows: "db_ok d \<Longrightarrow> i \<notin> a_id ` set (accounts d) \<Longrightarrow> r \<in> set (ledger d) \<Longrightarrow> l_account_id r \<noteq> i"
  using ledger_account_exists by blast

lemma opened_inserts:
  assumes "db_ok d"
  shows "(case insert_account (new_account now i body sub) d of
      Inl e \<Rightarrow> Inl e | Inr d1 \<Rightarrow> insert_ledger (ledger_create now i (Some sub)) d1) =
    (if creatable i body d then Inr (opened now i body sub d)
     else insert_account (new_account now i body sub) d)"
proof (cases "creatable i body d")
  case True
  then have "insert_account (new_account now i body sub) d = Inr (d\<lparr>accounts := accounts d @ [new_account now i body sub]\<rparr>)"
    by (force simp: insert_account_def creatable_def list_ex_iff)
  moreover have "insert_ledger (ledger_create now i (Some sub)) (d\<lparr>accounts := accounts d @ [new_account now i body sub]\<rparr>)
      = Inr (opened now i body sub d)"
    using True fresh_account_no_rows [OF assms]
    by (auto simp: insert_ledger_def creatable_def list_ex_iff opened_def numeric_ok_def bigint_ok_def account_exists_def)
  ultimately show ?thesis using True by simp
next
  case False
  then have "\<exists>c. insert_account (new_account now i body sub) d = Inl (IntegrityError c)"
    by (force simp: insert_account_def creatable_def list_ex_iff)
  with False show ?thesis by auto
qed

lemma uncreatable_integrity:
  "\<not> creatable i body d \<Longrightarrow> \<exists>c. insert_account (new_account now i body sub) d = Inl (IntegrityError c)"
  by (force simp: insert_account_def creatable_def list_ex_iff)

text \<open>The job the endpoint queues with the account.\<close>

definition creation_job :: "(async_message \<Rightarrow> byte list) \<Rightarrow> (string \<rightharpoonup> string) \<Rightarrow> customer_account \<Rightarrow> job_request" where
  "creation_job dump contextvars a =
     (let m = M_account_created (account_created_event a)
      in \<lparr>jr_entrypoint = account_created_route, jr_payload = dump m,
          jr_dedupe_key = account_created_route @ ''.'' @ uuid_str (a_id a),
          jr_headers = propagation_headers contextvars\<rparr>)"

lemma create_customer_account_eq:
  assumes "db_ok d"
  shows "create_customer_account dump put contextvars now i body sub d q =
    (if creatable i body d
     then map_sum id (\<lambda>q'. (opened now i body sub d, q', i)) (put (creation_job dump contextvars (new_account now i body sub)) q)
     else (case insert_account (new_account now i body sub) d of
             Inl e \<Rightarrow> Inl (HTTPException 400 (StrOf e)) | Inr _ \<Rightarrow> undefined))"
proof -
  have "put (creation_job dump contextvars a) q = enqueue dump put contextvars (M_account_created (account_created_event a)) q" for a
    by (simp add: creation_job_def enqueue_def dedupe_key_def Let_def account_created_event_def)
  note job = this [symmetric, of "new_account now i body sub"]
  note inserts = opened_inserts [OF assms, of now i sub body]
  show ?thesis
  proof (cases "creatable i body d")
    case True
    then show ?thesis
      using inserts unfolding create_customer_account_def new_account_def [symmetric]
      by (simp add: job map_sum_def split: sum.splits)
  next
    case False
    obtain c where "insert_account (new_account now i body sub) d = Inl (IntegrityError c)"
      using uncreatable_integrity [OF False] by blast
    then show ?thesis
      using False unfolding create_customer_account_def new_account_def [symmetric] by simp
  qed
qed

lemma opened_sel [simp]:
  "customers (opened now i body sub d) = customers d"
  "accounts (opened now i body sub d) = accounts d @ [new_account now i body sub]"
  "ledger (opened now i body sub d) = ledger d @ [ledger_create now i (Some sub)]"
  "verified (opened now i body sub d) = verified d" "discrepancies (opened now i body sub d) = discrepancies d"
  "account_history (opened now i body sub d) = account_history d"
  by (simp_all add: opened_def)

lemma opened_ok: "db_ok d \<Longrightarrow> creatable i body d \<Longrightarrow> db_ok (opened now i body sub d)"
proof -
  assume d: "db_ok d" and c: "creatable i body d"
  from opened_inserts [OF d, where now = now and i = i and body = body and sub = sub] c obtain d1 where
    "insert_account (new_account now i body sub) d = Inr d1"
    "insert_ledger (ledger_create now i (Some sub)) d1 = Inr (opened now i body sub d)"
    by (auto split: sum.splits)
  then show ?thesis using d insert_account_ok insert_ledger_ok by metis
qed

lemma opened_ledger_of:
  assumes "db_ok d" "creatable i body d"
  shows "ledger_of (opened now i body sub d) j = (if j = i then [ledger_create now i (Some sub)] else ledger_of d j)"
proof -
  have "filter (\<lambda>r. l_account_id r = i) (ledger d) = []"
    using fresh_account_no_rows [OF assms(1)] assms(2) by (auto simp: filter_empty_conv creatable_def)
  then show ?thesis by (auto simp: ledger_of_def order_by_def)
qed

lemma opened_audit:
  assumes "db_ok d" "audit_ok d" "creatable i body d"
  shows "audit_ok (opened now i body sub d)"
proof -
  have "hist_attrs h At_id \<noteq> Some (V_uuid i)" if "h \<in> set (account_history d)" for h
    using that assms(2,3) by (force simp: audit_ok_def creatable_def)
  then have "history_of d i = []" by (simp add: history_of_def filter_empty_conv)
  moreover have "history_of (opened now i body sub d) j = history_of d j" for j by (simp add: history_of_def)
  ultimately show ?thesis
    using assms(2) by (auto simp: audit_ok_def versions_from_def)
qed

section \<open>Properties of the creation\<close>

text \<open>C14: Creating an account succeeds exactly when the id is new, the customer exists and has no
  account in that currency yet: then the account is stored, active and at version 1, with its opening
  ledger row, and one job is queued, keyed by route and account id; the database keeps its constraints
  and its audit trail, the new ledger is a wallet with balance zero and every other ledger is
  untouched. Otherwise the answer is 400 with the constraint that failed.\<close>

theorem account_creation_outcome:
  assumes "db_ok d" "audit_ok d"
  shows "(creatable i body d \<longrightarrow>
      (\<exists>d'. create_customer_account dump put contextvars now i body sub d q
          = map_sum id (\<lambda>q'. (d', q', i)) (put (creation_job dump contextvars (new_account now i body sub)) q)
        \<and> db_ok d' \<and> audit_ok d' \<and> account_find_by_id d' i = Inr (Some (new_account now i body sub))
        \<and> ledger_intact d' i \<and> wallet_of d' i = \<lparr>w_rows = 1, w_balance = 0, w_operations = {i}\<rparr>
        \<and> (\<forall>j. j \<noteq> i \<longrightarrow> ledger_of d' j = ledger_of d j)))
    \<and> (\<not> creatable i body d \<longrightarrow>
      (\<exists>c. create_customer_account dump put contextvars now i body sub d q = Inl (HTTPException 400 (StrOf (IntegrityError c)))))"
proof (intro conjI impI)
  assume c: "creatable i body d"
  let ?d = "opened now i body sub d"
  have "account_find_by_id ?d i = Inr (Some (new_account now i body sub))"
    unfolding account_find_Some_iff [OF opened_ok [OF assms(1) c]] by simp
  moreover have "ledger_intact ?d i" "wallet_of ?d i = \<lparr>w_rows = 1, w_balance = 0, w_operations = {i}\<rparr>"
    using opened_ledger_of [OF assms(1) c, of now sub i]
    by (simp_all add: ledger_intact_def wallet_of_def del: set_ledger_of)
  ultimately show "\<exists>d'. create_customer_account dump put contextvars now i body sub d q
          = map_sum id (\<lambda>q'. (d', q', i)) (put (creation_job dump contextvars (new_account now i body sub)) q)
        \<and> db_ok d' \<and> audit_ok d' \<and> account_find_by_id d' i = Inr (Some (new_account now i body sub))
        \<and> ledger_intact d' i \<and> wallet_of d' i = \<lparr>w_rows = 1, w_balance = 0, w_operations = {i}\<rparr>
        \<and> (\<forall>j. j \<noteq> i \<longrightarrow> ledger_of d' j = ledger_of d j)"
    using opened_ok [OF assms(1) c] opened_audit [OF assms c] opened_ledger_of [OF assms(1) c] c
    by (intro exI [of _ ?d]) (simp add: create_customer_account_eq [OF assms(1)] del: set_ledger_of)
next
  assume c: "\<not> creatable i body d"
  then show "\<exists>c. create_customer_account dump put contextvars now i body sub d q = Inl (HTTPException 400 (StrOf (IntegrityError c)))"
    using uncreatable_integrity [of i body d now sub] by (auto simp: create_customer_account_eq [OF assms(1)])
qed

lemma sample_audit: "audit_ok sample_db"
  by (simp add: audit_ok_def history_of_def versions_from_def)

definition sample_body :: account_create_body where
  "sample_body = \<lparr>nb_name = ''savings'', nb_customer_id = 1, nb_currency = USD\<rparr>"

theorem account_creation_outcome_witness:
  "(\<exists>d'. create_customer_account (\<lambda>_. []) (\<lambda>j q. Inr (j # q)) Map.empty 5 11 sample_body 7 sample_db []
      = Inr (d', [creation_job (\<lambda>_. []) Map.empty (new_account 5 11 sample_body 7)], 11)
      \<and> w_balance (wallet_of d' 11) = 0)
   \<and> (\<exists>c. create_customer_account (\<lambda>_. []) (\<lambda>j q. Inr (j # q)) Map.empty 5 11 (sample_body\<lparr>nb_currency := EUR\<rparr>) 7 sample_db []
      = Inl (HTTPException 400 (StrOf (IntegrityError c))))"
proof -
  have "creatable 11 sample_body sample_db" "\<not> creatable 11 (sample_body\<lparr>nb_currency := EUR\<rparr>) sample_db"
    by (simp_all add: creatable_def sample_body_def sample_account_def sample_customer_def customer_create_def)
  then show ?thesis
    using account_creation_outcome [OF sample_db_ok sample_audit, of 11 sample_body "\<lambda>_. []" "\<lambda>j q. Inr (j # q)" Map.empty 5 7 "[]"]
      account_creation_outcome [OF sample_db_ok sample_audit, of 11 "sample_body\<lparr>nb_currency := EUR\<rparr>" "\<lambda>_. []" "\<lambda>j q. Inr (j # q)" Map.empty 5 7 "[]"]
    by auto
qed

section \<open>Properties of the edits\<close>

lemma sum_bind_InrD: "(case x of Inl e \<Rightarrow> Inl e | Inr y \<Rightarrow> f y) = Inr z \<Longrightarrow> \<exists>y. x = Inr y \<and> f y = Inr z"
  by (cases x) simp_all

lemma filter_edit_other:
  "j \<noteq> i \<Longrightarrow> filter (\<lambda>x. a_id x = j) (map (\<lambda>b. if a_id b = i then edited t b c else b) xs) = filter (\<lambda>x. a_id x = j) xs"
  by (induction xs) auto

lemma find_after_edit_other:
  "j \<noteq> a_id a \<Longrightarrow> account_find_by_id (after_edit now t a c d) j = account_find_by_id d j"
  by (simp add: account_find_by_id_def filter_edit_other del: filter_map)

lemma find_after_edit:
  assumes "db_ok d" "a \<in> set (accounts d)"
  shows "account_find_by_id (after_edit now t a c d) (a_id a) = Inr (Some (edited t a c))"
  unfolding account_find_Some_iff [OF after_edit_ok [OF assms(1)]] using assms(2) by (auto simp: image_iff)

lemma update_assign_changed:
  "update_assign body sub a = a \<longleftrightarrow> a_updated_by a = sub
     \<and> (case ub_name body of None \<Rightarrow> True | Some n \<Rightarrow> a_name a = Some n)
     \<and> (case ub_status body of None \<Rightarrow> True | Some s \<Rightarrow> a_status a = s)"
  by (cases a) (auto simp: update_assign_def Let_def split: option.splits)

text \<open>C13: When repository and endpoint share one session, as the tests have it, an update with the token of the
  stored version writes exactly what was asked for: name and status where given, the author, the time and the next
  version, and files the old row under the old version in the history; other accounts, ledgers, checkpoints and
  reports stay as they are, and so do the constraints and the audit trail. If the request changes nothing, nothing is
  written. When they have two sessions, as the service is wired, the same request is refused when the account is added
  to the endpoint's session, and nothing is written.\<close>

theorem update_writes_what_was_asked:
  assumes "attribute_history gh" "db_ok d" "audit_ok d" "a \<in> set (accounts d)" "a_status a \<noteq> Acc_DELETED"
    and "refuses_foreign_objects (en_refuses env)"
    and "ub_version body = issue (en_secret env) (a_id a) (a_version a)"
  shows "(en_sessions env = one_session \<longrightarrow>
      (\<exists>d'. update_customer_account gh env (a_id a) body sub d d = Inr d' \<and> db_ok d' \<and> audit_ok d'
        \<and> (if update_assign body sub a = a then d' = d
           else account_find_by_id d' (a_id a) =
              Inr (Some ((update_assign body sub a)\<lparr>a_updated_at := en_db_now env, a_version := a_version a + 1\<rparr>))
            \<and> history_of d' (a_id a) = history_of d (a_id a) @ [archived (en_now env) a]
            \<and> (\<forall>j. j \<noteq> a_id a \<longrightarrow> account_find_by_id d' j = account_find_by_id d j \<and> history_of d' j = history_of d j)
            \<and> ledger d' = ledger d \<and> verified d' = verified d \<and> discrepancies d' = discrepancies d)))
    \<and> (en_sessions env = wired_sessions \<longrightarrow>
      update_customer_account gh env (a_id a) body sub d d = Inl InvalidRequestError \<and> status_code InvalidRequestError = 500)"
proof (intro conjI impI)
  assume "en_sessions env = wired_sessions"
  then have "\<not> en_shared env" by (simp add: en_shared_def)
  then show "update_customer_account gh env (a_id a) body sub d d = Inl InvalidRequestError"
    using edit_account_authorized [OF assms(2,4) refl assms(5,7,6)] by (simp add: update_customer_account_def)
next
  assume "en_sessions env = one_session"
  then have shared: "en_shared env" by (simp add: en_shared_def one_session_def)
  let ?c = "update_assign body sub a"
  let ?d = "after_edit (en_now env) (en_db_now env) a ?c d"
  have run: "update_customer_account gh env (a_id a) body sub d d = Inr (if ?c = a then d else ?d)"
    using edit_account_authorized [OF assms(2,4) refl assms(5,7,6)] flush_current [OF assms(1) update_edits_only assms(2-4)] shared
    by (simp add: update_customer_account_def)
  have ok: "db_ok ?d" "audit_ok ?d"
    using after_edit_ok [OF assms(2)] after_edit_audit [OF assms(2-4)] by blast+
  have "account_find_by_id ?d (a_id a) = Inr (Some (?c\<lparr>a_updated_at := en_db_now env, a_version := a_version a + 1\<rparr>))"
    unfolding edited_assign [OF update_edits_only, symmetric] by (rule find_after_edit [OF assms(2,4)])
  then show "\<exists>d'. update_customer_account gh env (a_id a) body sub d d = Inr d' \<and> db_ok d' \<and> audit_ok d'
        \<and> (if ?c = a then d' = d
           else account_find_by_id d' (a_id a) =
              Inr (Some (?c\<lparr>a_updated_at := en_db_now env, a_version := a_version a + 1\<rparr>))
            \<and> history_of d' (a_id a) = history_of d (a_id a) @ [archived (en_now env) a]
            \<and> (\<forall>j. j \<noteq> a_id a \<longrightarrow> account_find_by_id d' j = account_find_by_id d j \<and> history_of d' j = history_of d j)
            \<and> ledger d' = ledger d \<and> verified d' = verified d \<and> discrepancies d' = discrepancies d)"
    using run ok assms(2,3) by (auto simp: history_of_after_edit find_after_edit_other)
qed simp

text \<open>C18: No edit is lost: an update or a deletion that read the account while another one changed it
  fails and writes nothing, whatever it set out to change. With one session for repository and endpoint it fails
  with a stale version (the client sees 409) if the guarded row update is sent first, with a duplicate key of the
  history table (the client sees 500) if the history row is; with the two sessions of the service as wired, when the
  account is added to the endpoint's session (the client sees 500).\<close>

theorem edit_of_changed_account_fails:
  assumes "attribute_history gh" "db_ok dr" "a \<in> set (accounts dr)" "a_status a \<noteq> Acc_DELETED" "1 \<le> a_version a"
    and "refuses_foreign_objects (en_refuses env)" "en_sessions env \<in> {one_session, wired_sessions}"
    and "db_ok dw" "audit_ok dw" "b \<in> set (accounts dw)" "a_id b = a_id a" "a_customer_id b = a_customer_id a"
      "a_version a < a_version b"
    and "ub_version body = issue (en_secret env) (a_id a) (a_version a)" "update_assign body sub a \<noteq> a"
  shows "let e = (if en_sessions env = wired_sessions then InvalidRequestError
        else if en_history_first env then IntegrityError ''pk_customer_account_history'' else StaleDataError)
    in update_customer_account gh env (a_id a) body sub dr dw = Inl e
      \<and> delete_customer_account gh env (a_id a) (ub_version body) sub dr dw = Inl e
      \<and> status_code e = (if e = StaleDataError then 409 else 500)"
proof -
  have d: "delete_assign sub a \<noteq> a" using assms(4) by (cases a) (auto simp: delete_assign_def)
  have s: "en_shared env \<longleftrightarrow> en_sessions env \<noteq> wired_sessions"
    using assms(7) by (auto simp: en_shared_def one_session_def)
  show ?thesis
    using edit_account_authorized [OF assms(2,3) refl assms(4,14,6)]
      flush_stale [OF assms(1) update_edits_only assms(8-12,5,13) assms(15)]
      flush_stale [OF assms(1) delete_edits_only assms(8-12,5,13) d]
    by (simp add: update_customer_account_def delete_customer_account_def s)
qed

text \<open>A token is good for one change: after an update has changed an account, the token it used
  is answered with 409 whatever else is asked with it, unless the account is deleted (then 404) or
  the digests of the two versions collide in their first 16 bytes.\<close>

lemma used_token_is_spent:
  assumes "attribute_history gh" "db_ok d" "audit_ok d" "a \<in> set (accounts d)" "a_status a \<noteq> Acc_DELETED" "en_shared env"
    and "ub_version body = issue (en_secret env) (a_id a) (a_version a)" "update_assign body sub a \<noteq> a"
    and "refuses_foreign_objects (en_refuses env)"
    and "update_customer_account gh env (a_id a) body sub d d = Inr d'"
  shows "edit_account gh env (a_id a) (ub_version body) assign d' dw =
    Inl (if ub_status body = Some Acc_DELETED
         then HTTPException 404 (Message ''Account not found'')
         else HTTPException 409 (Message ''Account was modified by someone else; reload and retry''))
    \<or> take 16 (hmac_sha256 (utf8 (en_secret env)) (utf8 (token_message (a_id a) (a_version a))))
      = take 16 (hmac_sha256 (utf8 (en_secret env)) (utf8 (token_message (a_id a) (a_version a + 1))))"
proof (rule disjCI)
  assume fresh: "take 16 (hmac_sha256 (utf8 (en_secret env)) (utf8 (token_message (a_id a) (a_version a))))
      \<noteq> take 16 (hmac_sha256 (utf8 (en_secret env)) (utf8 (token_message (a_id a) (a_version a + 1))))"
  let ?c = "update_assign body sub a"
  let ?d = "after_edit (en_now env) (en_db_now env) a ?c d"
  have d': "d' = ?d"
    using edit_account_authorized [OF assms(2,4) refl assms(5,7,9)] flush_current [OF assms(1) update_edits_only assms(2-4)] assms(6,8,10)
    by (simp add: update_customer_account_def)
  let ?e = "edited (en_db_now env) a ?c"
  have e: "account_find_by_id ?d (a_id a) = Inr (Some ?e)"
    by (rule find_after_edit [OF assms(2,4)])
  have s: "a_status ?e = Acc_DELETED \<longleftrightarrow> ub_status body = Some Acc_DELETED"
    unfolding edited_assign [OF update_edits_only]
    using assms(5) by (simp add: update_assign_def Let_def split: option.splits)
  have "verify_token (en_secret env) (a_id a) (a_version a + 1) (ub_version body) = Inr False"
    using assms(7) fresh by (auto simp: verify_token_def compare_digest_def issue_ascii issue_eq_iff digest_bytes_def)
  then show "edit_account gh env (a_id a) (ub_version body) assign d' dw = Inl (if ub_status body = Some Acc_DELETED
         then HTTPException 404 (Message ''Account not found'')
         else HTTPException 409 (Message ''Account was modified by someone else; reload and retry''))"
    unfolding d' edit_account_def using e s by simp
qed

text \<open>Deleting an account with the token of its stored version marks it deleted and files its last
  state in the history; from then on every edit of it is answered with 404, whatever token it has.\<close>

lemma deleted_account_is_gone:
  assumes "attribute_history gh" "db_ok d" "audit_ok d" "a \<in> set (accounts d)" "a_status a \<noteq> Acc_DELETED" "en_shared env"
    and "refuses_foreign_objects (en_refuses env)"
  shows "\<exists>d'. delete_customer_account gh env (a_id a) (issue (en_secret env) (a_id a) (a_version a)) sub d d = Inr d'
    \<and> account_find_by_id d' (a_id a) = Inr (Some (a\<lparr>a_status := Acc_DELETED, a_updated_by := sub,
          a_updated_at := en_db_now env, a_version := a_version a + 1\<rparr>))
    \<and> history_of d' (a_id a) = history_of d (a_id a) @ [archived (en_now env) a] \<and> ledger d' = ledger d
    \<and> (\<forall>env' body token sub' dw.
          update_customer_account gh env' (a_id a) body sub' d' dw = Inl (HTTPException 404 (Message ''Account not found''))
        \<and> delete_customer_account gh env' (a_id a) token sub' d' dw = Inl (HTTPException 404 (Message ''Account not found'')))"
proof -
  let ?c = "delete_assign sub a"
  let ?d = "after_edit (en_now env) (en_db_now env) a ?c d"
  have c: "?c \<noteq> a" using assms(5) by (cases a) (auto simp: delete_assign_def)
  have "delete_customer_account gh env (a_id a) (issue (en_secret env) (a_id a) (a_version a)) sub d d = Inr ?d"
    using edit_account_authorized [OF assms(2,4) refl assms(5) refl assms(7)] flush_current [OF assms(1) delete_edits_only assms(2-4)] assms(6) c
    by (simp add: delete_customer_account_def)
  moreover have e: "edited (en_db_now env) a ?c = a\<lparr>a_status := Acc_DELETED, a_updated_by := sub,
          a_updated_at := en_db_now env, a_version := a_version a + 1\<rparr>"
    unfolding edited_assign [OF delete_edits_only] by (simp add: delete_assign_def)
  ultimately show ?thesis
    using find_after_edit [OF assms(2,4), of "en_now env" "en_db_now env" ?c]
    by (intro exI [of _ ?d])
      (simp add: update_customer_account_def delete_customer_account_def edit_account_def history_of_after_edit)
qed

text \<open>C17: As \<open>fast_deps.py\<close> wires the sessions, the outcome of every edit is decided before anything is
  written: 404 for an account that is missing or deleted, an uncaught \<open>TypeError\<close> (500) for a token
  with a character outside ASCII, 409 for any other wrong token, and for the right token the
  \<open>InvalidRequestError\<close> (500) of adding an object of another session, which SQLAlchemy refuses. No edit is ever
  stored.\<close>

theorem edits_as_wired_store_nothing:
  assumes "db_ok d" "en_sessions env = wired_sessions" "refuses_foreign_objects (en_refuses env)"
  shows "edit_account gh env i token assign d dw = Inl (case find (\<lambda>a. a_id a = i) (accounts d) of
      None \<Rightarrow> HTTPException 404 (Message ''Account not found'')
    | Some a \<Rightarrow>
        if a_status a = Acc_DELETED then HTTPException 404 (Message ''Account not found'')
        else if \<not> is_ascii token then TypeError
        else if token \<noteq> issue (en_secret env) i (a_version a)
        then HTTPException 409 (Message ''Account was modified by someone else; reload and retry'')
        else InvalidRequestError)"
proof (cases "find (\<lambda>a. a_id a = i) (accounts d)")
  case (Some a)
  then have "a_id a = i" by (auto dest: find_SomeD)
  with Some show ?thesis
    using assms(2,3)
    by (auto simp: edit_account_def account_find_eq [OF assms(1)] verify_token_def compare_digest_def issue_ascii
        session_add_def refuses_foreign_objects_def)
qed (simp add: edit_account_def account_find_eq [OF assms(1)])

section \<open>Witnesses\<close>

definition sample_env :: endpoint_env where
  "sample_env = \<lparr>en_now = 5, en_db_now = 6, en_secret = ''secret'', en_sessions = one_session,
     en_refuses = (\<lambda>s t. s \<noteq> t), en_history_first = False\<rparr>"

lemma sample_env_sel [simp]:
  "en_now sample_env = 5" "en_db_now sample_env = 6" "en_secret sample_env = ''secret''" "en_shared sample_env"
  "en_sessions sample_env = one_session" "refuses_foreign_objects (en_refuses sample_env)" "\<not> en_history_first sample_env"
  by (simp_all add: sample_env_def en_shared_def one_session_def refuses_foreign_objects_def)

definition sample_rename :: account_update_body where
  "sample_rename = \<lparr>ub_version = issue ''secret'' 10 1, ub_name = Some ''wallet'', ub_status = None\<rparr>"

lemma sample_rename_sel [simp]:
  "ub_version sample_rename = issue ''secret'' 10 1" "ub_name sample_rename = Some ''wallet''" "ub_status sample_rename = None"
  by (simp_all add: sample_rename_def)

lemma sample_rename_changes: "update_assign sample_rename 8 sample_account \<noteq> sample_account"
  by (simp add: update_assign_changed sample_account_def)

theorem update_writes_what_was_asked_witness:
  "\<exists>d'. update_customer_account scalar_history sample_env 10 sample_rename 8 sample_db sample_db = Inr d'
    \<and> account_find_by_id d' 10 = Inr (Some (sample_account\<lparr>a_name := Some ''wallet'', a_updated_by := 8,
        a_updated_at := 6, a_version := 2\<rparr>))
    \<and> history_of d' 10 = [archived 5 sample_account] \<and> ledger d' = sample_rows"
proof -
  have "update_assign sample_rename 8 sample_account = sample_account\<lparr>a_name := Some ''wallet'', a_updated_by := 8\<rparr>"
    by (simp add: update_assign_def)
  moreover have "history_of sample_db 10 = []" by (simp add: history_of_def)
  ultimately show ?thesis
    using update_writes_what_was_asked [OF scalar.attribute_history_axioms sample_db_ok sample_audit,
        of sample_account sample_env sample_rename 8] sample_rename_changes
    by auto
qed

definition sample_renamed_db :: db where
  "sample_renamed_db = after_edit 5 6 sample_account (update_assign sample_rename 8 sample_account) sample_db"

lemma sample_renamed_ok: "db_ok sample_renamed_db" "audit_ok sample_renamed_db"
  by (simp_all add: sample_renamed_db_def after_edit_ok after_edit_audit sample_db_ok sample_audit)

lemma sample_update:
  "update_customer_account scalar_history sample_env 10 sample_rename 8 sample_db sample_db = Inr sample_renamed_db"
  using edit_account_authorized [OF sample_db_ok, of sample_account 10 "issue ''secret'' 10 1" sample_env]
    flush_current [OF scalar.attribute_history_axioms update_edits_only sample_db_ok sample_audit, of sample_account]
    sample_rename_changes
  by (simp add: update_customer_account_def sample_renamed_db_def)

lemma used_token_is_spent_witness:
  "edit_account scalar_history sample_env 10 (issue ''secret'' 10 1) id sample_renamed_db sample_renamed_db =
     Inl (HTTPException 409 (Message ''Account was modified by someone else; reload and retry''))
   \<or> take 16 (hmac_sha256 (utf8 ''secret'') (utf8 (token_message 10 1)))
     = take 16 (hmac_sha256 (utf8 ''secret'') (utf8 (token_message 10 2)))"
  using used_token_is_spent [OF scalar.attribute_history_axioms sample_db_ok sample_audit, of sample_account
      sample_env sample_rename 8 sample_renamed_db id sample_renamed_db] sample_rename_changes sample_update
  by simp

theorem edit_of_changed_account_fails_witness:
  "update_customer_account scalar_history sample_env 10 sample_rename 8 sample_db sample_renamed_db = Inl StaleDataError"
  using edit_of_changed_account_fails [OF scalar.attribute_history_axioms sample_db_ok _ _ _ _ _ sample_renamed_ok,
      of sample_account sample_env "edited 6 sample_account (update_assign sample_rename 8 sample_account)" sample_rename 8]
    sample_rename_changes
  by (simp add: sample_renamed_db_def)

lemma deleted_account_is_gone_witness:
  "\<exists>d'. delete_customer_account scalar_history sample_env 10 (issue ''secret'' 10 1) 8 sample_db sample_db = Inr d'
    \<and> history_of d' 10 = [archived 5 sample_account]
    \<and> delete_customer_account scalar_history sample_env 10 (issue ''secret'' 10 1) 8 d' d' =
        Inl (HTTPException 404 (Message ''Account not found''))"
proof -
  have "history_of sample_db 10 = []" by (simp add: history_of_def)
  then show ?thesis
    using deleted_account_is_gone [OF scalar.attribute_history_axioms sample_db_ok sample_audit,
        of sample_account sample_env 8]
    by auto
qed

theorem edits_as_wired_store_nothing_witness:
  "edit_account scalar_history (sample_env\<lparr>en_sessions := wired_sessions\<rparr>) 10 (issue ''secret'' 10 1) id sample_db sample_db
    = Inl InvalidRequestError"
  using edits_as_wired_store_nothing [OF sample_db_ok, of "sample_env\<lparr>en_sessions := wired_sessions\<rparr>" scalar_history 10
      "issue ''secret'' 10 1" id sample_db]
  by (simp add: issue_ascii)

end
