(* ===== verification/Resolution.thy ===== *)
theory Resolution
  imports Account_Properties Verifier_Properties
begin

text \<open>
  The resolution of a discrepancy: a forced checkpoint past the break, which lifts the quarantine
  the verification put on the account.
\<close>

section \<open>What the endpoint reads\<close>

lemma find_open_eq:
  assumes "db_ok d"
  shows "find_open_discrepancy d i = Inr (find (\<lambda>x. d_account_id x = i) (filter is_open (discrepancies d)))"
proof -
  have "filter (\<lambda>x. d_account_id x = i \<and> d_resolved_at x = None) (discrepancies d)
      = filter (\<lambda>x. d_account_id x = i) (filter is_open (discrepancies d))"
    by (simp add: is_open_def conj_commute)
  moreover have "distinct (map d_account_id (filter is_open (discrepancies d)))"
    using assms by (simp add: constraint_defs)
  ultimately show ?thesis
    by (simp only: find_open_discrepancy_def scalar_one_or_none_distinct)
qed

lemma find_open_SomeD:
  assumes "db_ok d" "find_open_discrepancy d i = Inr (Some x)"
  shows "x \<in> set (discrepancies d)" "is_open x" "d_account_id x = i"
proof -
  have "find (\<lambda>x. d_account_id x = i) (filter is_open (discrepancies d)) = Some x"
    using assms by (simp add: find_open_eq)
  from find_SomeD [OF this] show "x \<in> set (discrepancies d)" "is_open x" "d_account_id x = i" by auto
qed

lemma find_open_None_iff: "db_ok d \<Longrightarrow> find_open_discrepancy d i = Inr None \<longleftrightarrow> \<not> has_open_discrepancy d i"
  by (auto simp: find_open_eq find_None_iff has_open_discrepancy_def is_open_def list_ex_iff)

lemma find_latest_eq: "find_latest_checkpoint d i = Inr (latest_checkpoint d i)"
  by (simp add: find_latest_checkpoint_def latest_checkpoint_def split: list.split)

lemma anchor_case: "(case latest_checkpoint d i of None \<Rightarrow> 0 | Some v \<Rightarrow> v_through_no v) = anchor_no_of d i"
  by (simp add: anchor_no_of_def coalesce_def split: option.splits)

definition row_at :: "db \<Rightarrow> uuid \<Rightarrow> int \<Rightarrow> customer_account_ledger option" where
  "row_at d i n = find (\<lambda>r. (l_account_id r, l_no r) = (i, n)) (ledger d)"

lemma row_at_SomeD: "row_at d i n = Some r \<Longrightarrow> r \<in> set (ledger d) \<and> l_account_id r = i \<and> l_no r = n"
  by (auto simp: row_at_def dest: find_SomeD)

lemma find_ledger_balance_eq:
  assumes "db_ok d" "bigint_ok n"
  shows "find_ledger_balance d i n = Inr (map_option l_balance (row_at d i n))"
proof -
  have "filter (\<lambda>l. l_account_id l = i \<and> l_no l = n) (ledger d)
      = filter (\<lambda>r. (l_account_id r, l_no r) = (i, n)) (ledger d)" by simp
  also have "\<dots> = (case row_at d i n of None \<Rightarrow> [] | Some r \<Rightarrow> [r])"
    using assms(1) unfolding row_at_def by (intro filter_distinct_key) (simp add: db_okD)
  finally show ?thesis
    using assms(2) by (simp add: find_ledger_balance_def split: option.splits)
qed

section \<open>What it writes\<close>

definition resolved_db :: "timestamp \<Rightarrow> customer_account_ledger_discrepancy \<Rightarrow> int \<Rightarrow> money \<Rightarrow> uuid \<Rightarrow> db \<Rightarrow> db" where
  "resolved_db now x n b sub d = d\<lparr>
     verified := verified d @ [\<lparr>v_account_id = d_account_id x, v_through_no = n, v_balance = b, v_verified_at = now\<rparr>],
     discrepancies := map (\<lambda>y. if d_id y = d_id x
       then y\<lparr>d_resolved_at := Some now, d_resolved_by := Some sub\<rparr> else y) (discrepancies d)\<rparr>"

lemma resolved_db_sel [simp]:
  "customers (resolved_db now x n b sub d) = customers d" "accounts (resolved_db now x n b sub d) = accounts d"
  "ledger (resolved_db now x n b sub d) = ledger d" "account_history (resolved_db now x n b sub d) = account_history d"
  "verified (resolved_db now x n b sub d) = verified d @
     [\<lparr>v_account_id = d_account_id x, v_through_no = n, v_balance = b, v_verified_at = now\<rparr>]"
  by (simp_all add: resolved_db_def)

lemma resolution_writes:
  assumes "db_ok d" "find_open_discrepancy d i = Inr (Some x)" "row_at d i n = Some r" "anchor_no_of d i < n"
  shows "add_checkpoint now i n (l_balance r) d = Inr (d\<lparr>verified := verified d @
      [\<lparr>v_account_id = i, v_through_no = n, v_balance = l_balance r, v_verified_at = now\<rparr>]\<rparr>)"
    and "resolve_discrepancy now (d_id x) (d_account_id x) sub (d\<lparr>verified := vs\<rparr>)
      = Inr ((resolved_db now x n (l_balance r) sub d)\<lparr>verified := vs\<rparr>)"
proof -
  note r = row_at_SomeD [OF assms(3)]
  have "\<not> list_ex (\<lambda>w. v_account_id w = i \<and> v_through_no w = n) (verified d)"
    using anchor_no_greatest [of _ d i] assms(4) by (force simp: list_ex_iff)
  moreover have "numeric_ok (l_balance r)" "bigint_ok n" "account_exists d i"
    using assms(1) r by (auto simp: constraint_defs)
  ultimately show "add_checkpoint now i n (l_balance r) d = Inr (d\<lparr>verified := verified d @
      [\<lparr>v_account_id = i, v_through_no = n, v_balance = l_balance r, v_verified_at = now\<rparr>]\<rparr>)"
    by (simp add: add_checkpoint_def insert_verified_def)
  note x = find_open_SomeD [OF assms(1,2)]
  have "distinct (map d_id (discrepancies d))" using assms(1) by (simp add: constraint_defs)
  then have "filter (\<lambda>y. d_id y = d_id x) (discrepancies d) = [x]"
    using x(1) by (simp add: filter_distinct_key find_distinct_key)
  then have "filter (\<lambda>y. d_account_id y = d_account_id x) (filter (\<lambda>y. d_id y = d_id x) (discrepancies d)) = [x]"
    by simp
  then show "resolve_discrepancy now (d_id x) (d_account_id x) sub (d\<lparr>verified := vs\<rparr>)
      = Inr ((resolved_db now x n (l_balance r) sub d)\<lparr>verified := vs\<rparr>)"
    by (simp add: resolve_discrepancy_def resolved_db_def conj_commute)
qed

text \<open>The whole endpoint as a table of outcomes.\<close>

lemma resolve_eq:
  assumes "db_ok d"
  shows "resolve_ledger_discrepancy env i res sub d =
    (case find (\<lambda>x. d_account_id x = i) (filter is_open (discrepancies d)) of
       None \<Rightarrow> Inl no_open_discrepancy
     | Some x \<Rightarrow> (case accepted_through_no res x of
           None \<Rightarrow> Inl (HTTPException 422 (Message ''through_no is required''))
         | Some n \<Rightarrow>
             if n \<le> anchor_no_of d i then Inl (HTTPException 422 (Message ''through_no must be greater''))
             else if \<not> bigint_ok n then Inl (DataError ''bigint parameter'')
             else (case row_at d i n of
                 None \<Rightarrow> Inl (HTTPException 422 (Message ''No ledger row''))
               | Some r \<Rightarrow> Inr (if en_shared env then resolved_db (en_now env) x n (l_balance r) sub d else d))))"
proof (cases "find (\<lambda>x. d_account_id x = i) (filter is_open (discrepancies d))")
  case (Some x)
  then have x: "find_open_discrepancy d i = Inr (Some x)" by (simp add: find_open_eq [OF assms])
  show ?thesis
  proof (cases "accepted_through_no res x")
    case (Some n)
    show ?thesis
    proof (cases "n \<le> anchor_no_of d i \<or> \<not> bigint_ok n")
      case True
      then show ?thesis
        using Some x \<open>find _ _ = Some x\<close>
        by (auto simp: resolve_ledger_discrepancy_def find_latest_eq anchor_case find_ledger_balance_def)
    next
      case False
      show ?thesis
      proof (cases "row_at d i n")
        case None
        then show ?thesis
          using Some x False \<open>find _ _ = Some x\<close>
          by (simp add: resolve_ledger_discrepancy_def find_latest_eq anchor_case find_ledger_balance_eq [OF assms])
      next
        case (Some r)
        have a: "anchor_no_of d i < n" using False by simp
        show ?thesis
          using \<open>accepted_through_no res x = Some n\<close> x False \<open>find _ _ = Some x\<close> Some
            resolution_writes [OF assms x Some a] find_open_SomeD(3) [OF assms x]
          by (simp add: resolve_ledger_discrepancy_def find_latest_eq anchor_case find_ledger_balance_eq [OF assms]
              resolved_db_def Let_def request_end_def en_shared_def)
      qed
    qed
  qed (simp add: resolve_ledger_discrepancy_def x Some find_latest_eq anchor_case)
qed (simp add: resolve_ledger_discrepancy_def find_open_eq [OF assms])

lemma chain_take: "chain n b ls \<Longrightarrow> chain n b (take k ls)"
  by (metis append_take_drop_id chain_append)

section \<open>The state after a resolution\<close>

lemma resolved_open:
  "filter is_open (discrepancies (resolved_db now x n b sub d)) = filter (\<lambda>y. is_open y \<and> d_id y \<noteq> d_id x) (discrepancies d)"
proof -
  have "filter is_open (map (\<lambda>y. if d_id y = d_id x then y\<lparr>d_resolved_at := Some now, d_resolved_by := Some sub\<rparr> else y) ds)
      = filter (\<lambda>y. is_open y \<and> d_id y \<noteq> d_id x) ds" for ds
    by (induction ds) (auto simp: is_open_def)
  then show ?thesis by (simp add: resolved_db_def)
qed

lemma resolved_ok:
  assumes ok: "db_ok d" and open_x: "find_open_discrepancy d i = Inr (Some x)" and row: "row_at d i n = Some r"
    and beyond: "anchor_no_of d i < n"
  shows "db_ok (resolved_db now x n (l_balance r) sub d)"
proof -
  let ?v = "\<lparr>v_account_id = i, v_through_no = n, v_balance = l_balance r, v_verified_at = now\<rparr>"
  note x = find_open_SomeD [OF ok open_x]
  have v: "db_ok (d\<lparr>verified := verified d @ [?v]\<rparr>)"
    using resolution_writes(1) [OF ok open_x row beyond, of now] insert_verified_ok ok
    unfolding add_checkpoint_def by blast
  let ?d = "resolved_db now x n (l_balance r) sub d"
  have "map d_id (discrepancies ?d) = map d_id (discrepancies d)"
    by (simp add: resolved_db_def)
  moreover have "d_id ` set (discrepancies ?d) = d_id ` set (discrepancies d)"
    using calculation by (metis set_map)
  moreover have "distinct (map d_account_id (filter is_open (discrepancies ?d)))"
  proof -
    have "filter is_open (discrepancies ?d) = filter (\<lambda>y. d_id y \<noteq> d_id x) (filter is_open (discrepancies d))"
      by (simp add: resolved_open conj_commute)
    moreover have "distinct (map d_account_id (filter is_open (discrepancies d)))"
      using ok by (simp add: constraint_defs)
    ultimately show ?thesis by (simp add: distinct_map_filter del: filter_filter)
  qed
  moreover have "next_discrepancy_id ?d = next_discrepancy_id d" by (simp add: resolved_db_def)
  ultimately have disc: "discrepancy_constraints ?d"
    using ok unfolding discrepancy_constraints_def db_ok_def by (metis (no_types, lifting) image_iff)
  have "account_exists ?d = account_exists d" by (simp add: account_exists_def fun_eq_iff)
  then show ?thesis
    using v ok disc x(3) by (simp add: db_ok_def account_constraints_def ledger_constraints_def verified_constraints_def account_exists_def)
qed

lemma resolved_no_open:
  assumes ok: "db_ok d" and open_x: "find_open_discrepancy d i = Inr (Some x)"
  shows "\<not> has_open_discrepancy (resolved_db now x n b sub d) i"
proof -
  note x = find_open_SomeD [OF ok open_x]
  have "y = x" if "y \<in> set (filter is_open (discrepancies d))" "d_account_id y = i" for y
  proof -
    have "distinct (map d_account_id (filter is_open (discrepancies d)))"
      using ok by (simp add: constraint_defs)
    then have "inj_on d_account_id (set (filter is_open (discrepancies d)))" by (simp add: distinct_map)
    moreover have "x \<in> set (filter is_open (discrepancies d))" using x by simp
    ultimately show ?thesis using that x(3) by (metis inj_onD)
  qed
  then have "\<not> (\<exists>y \<in> set (filter is_open (discrepancies (resolved_db now x n b sub d))). d_account_id y = i)"
    unfolding resolved_open by auto
  then show ?thesis by (auto simp: has_open_discrepancy_def is_open_def list_ex_iff)
qed

lemma resolved_anchor:
  assumes ok: "db_ok d" and open_x: "find_open_discrepancy d i = Inr (Some x)" and beyond: "anchor_no_of d i < n"
  shows "anchor_no_of (resolved_db now x n b sub d) i = n" "anchor_balance_of (resolved_db now x n b sub d) i = b"
proof -
  note x = find_open_SomeD [OF ok open_x]
  let ?d = "resolved_db now x n b sub d"
  have le: "v_through_no w < n" if "w \<in> set (verified d)" "v_account_id w = i" for w
    using anchor_no_greatest [OF that] beyond by simp
  have "anchor_no_of ?d i = n \<and> anchor_balance_of ?d i = b"
  proof (cases ?d i rule: anchor_cases)
    case fresh
    then show ?thesis using x(3) by auto
  next
    case (checkpoint v)
    have "n \<le> v_through_no v" using checkpoint(5) x(3) by auto
    then show ?thesis using checkpoint(1-4) le by fastforce
  qed
  then show "anchor_no_of ?d i = n" "anchor_balance_of ?d i = b" by simp_all
qed

lemma resolved_true:
  assumes "db_ok d" "find_open_discrepancy d i = Inr (Some x)" "row_at d i n = Some r" "checkpoints_true d"
  shows "checkpoints_true (resolved_db now x n (l_balance r) sub d)"
  using assms(4) row_at_SomeD [OF assms(3)] find_open_SomeD(3) [OF assms(1,2)] by (auto simp: checkpoints_true_def)

text \<open>From the accepted row on the ledger is anchored if what follows it is a chain.\<close>

lemma resolved_anchored:
  assumes ok: "db_ok d" and row: "row_at d i n = Some r"
    and after: "chain n (l_balance r) (filter (\<lambda>s. n < l_no s) (ledger_of d i))"
  shows "anchored n (l_balance r) (take k (filter (\<lambda>s. n \<le> l_no s) (ledger_of d i)))"
proof -
  have r: "r \<in> set (ledger_of d i)" "l_no r = n" using row_at_SomeD [OF row] by auto
  obtain xs ys where ls: "ledger_of d i = xs @ r # ys" using split_list [OF r(1)] by blast
  have "sorted_wrt (<) (map l_no (xs @ r # ys))" using ledger_of_strict [OF ok, of i] ls by simp
  then have o: "l_no s < n" if "s \<in> set xs" for s using that r(2) by (simp add: sorted_wrt_append)
  have o': "n < l_no s" if "s \<in> set ys" for s
    using that r(2) \<open>sorted_wrt (<) (map l_no (xs @ r # ys))\<close> by (simp add: sorted_wrt_append)
  have "filter (\<lambda>s. n < l_no s) xs = []" "filter (\<lambda>s. n \<le> l_no s) xs = []"
    "filter (\<lambda>s. n < l_no s) ys = ys" "filter (\<lambda>s. n \<le> l_no s) ys = ys"
    using o o' by (fastforce simp: filter_empty_conv filter_id_conv)+
  then have "filter (\<lambda>s. n \<le> l_no s) (ledger_of d i) = r # ys" "filter (\<lambda>s. n < l_no s) (ledger_of d i) = ys"
    using ls r(2) by simp_all
  then show ?thesis
    using after r(2) by (cases k) (auto intro: chain_take)
qed

lemma anchored_row_reports_nothing:
  assumes "db_ok d" "0 \<le> rows_per_account ps" "v \<in> set (query_rows ps now d)"
    and "\<And>k. anchored (anchor_no_of d (vf_account_id v)) (anchor_balance_of d (vf_account_id v))
          (take k (filter (\<lambda>s. anchor_no_of d (vf_account_id v) \<le> l_no s) (ledger_of d (vf_account_id v))))"
  shows "vf_break_kind v = None"
proof -
  from next_batch_row [OF assms(1-3)] obtain t where
    t: "t \<in> set (targets ps now d)" "v = reference_row (rows_per_account ps + 1) t (window d (rows_per_account ps + 1) t)"
      "vf_account_id v = tg_account_id t" .
  have "anchored (tg_anchor_no t) (tg_anchor_balance t) (window d (rows_per_account ps + 1) t)"
    using assms(4) t(3) target_anchor [OF t(1)] by (simp add: window_eq [OF assms(1)])
  then show ?thesis
    using reference_row_Intact(2) [OF _ window_nonempty [OF assms(1) t(1)], where k = "rows_per_account ps + 1"] t(2) assms(2) by simp
qed

section \<open>Properties\<close>

text \<open>C16: With one session for the request, accepting an open discrepancy through a row that exists past
  the last checkpoint lifts the quarantine and moves the account's anchor to that row: the report is
  closed in the caller's name, a checkpoint with the row's own balance is added, no ledger row, account
  or earlier checkpoint changes, checkpoints that named real rows still do, and if the rows after the
  accepted one follow from it no later verification run finds a break in that account.\<close>

theorem resolution_lifts_the_quarantine:
  assumes "db_ok d" "en_shared env" "find_open_discrepancy d i = Inr (Some x)" "res \<noteq> Some 0"
    and "case res of Some m \<Rightarrow> n = m | None \<Rightarrow> d_kind x \<noteq> ANCHOR_BALANCE \<and> n = d_no x"
    and "anchor_no_of d i < n" "r \<in> set (ledger d)" "l_account_id r = i" "l_no r = n"
  shows "\<exists>d'. resolve_ledger_discrepancy env i res sub d = Inr d' \<and> db_ok d'
    \<and> \<not> has_open_discrepancy d' i \<and> anchor_no_of d' i = n \<and> anchor_balance_of d' i = l_balance r
    \<and> x\<lparr>d_resolved_at := Some (en_now env), d_resolved_by := Some sub\<rparr> \<in> set (discrepancies d')
    \<and> ledger d' = ledger d \<and> accounts d' = accounts d \<and> set (verified d) \<subseteq> set (verified d')
    \<and> (checkpoints_true d \<longrightarrow> checkpoints_true d')
    \<and> (chain n (l_balance r) (filter (\<lambda>s. n < l_no s) (ledger_of d i)) \<longrightarrow>
        (\<forall>ps now. 0 \<le> rows_per_account ps \<longrightarrow>
          (\<forall>v \<in> set (query_rows ps now d'). vf_account_id v = i \<longrightarrow> vf_break_kind v = None)))"
proof -
  have "distinct (map (\<lambda>r. (l_account_id r, l_no r)) (ledger d))" using assms(1) by (simp add: db_okD)
  then have row: "row_at d i n = Some r"
    using assms(7-9) find_distinct_key [of "\<lambda>r. (l_account_id r, l_no r)" "ledger d" r] by (auto simp: row_at_def)
  let ?d = "resolved_db (en_now env) x n (l_balance r) sub d"
  note ok = resolved_ok [OF assms(1,3) row assms(6), of "en_now env" sub]
    and no = resolved_no_open [OF assms(1,3), of "en_now env" n "l_balance r" sub]
    and anchor = resolved_anchor [OF assms(1,3,6), of "en_now env" "l_balance r" sub]
    and x = find_open_SomeD [OF assms(1,3)]
  have b: "bigint_ok n" using assms(1,7,9) by (auto simp: constraint_defs)
  have acc: "accepted_through_no res x = Some n"
    using assms(4,5) by (auto simp: accepted_through_no_def split: option.splits)
  have "resolve_ledger_discrepancy env i res sub d = Inr ?d"
    using assms(2,3,6) acc row b by (simp add: resolve_eq [OF assms(1)] find_open_eq [OF assms(1)])
  moreover have "x\<lparr>d_resolved_at := Some (en_now env), d_resolved_by := Some sub\<rparr> \<in> set (discrepancies ?d)"
    using x(1) by (auto simp: resolved_db_def image_iff)
  moreover have "vf_break_kind v = None"
    if c: "chain n (l_balance r) (filter (\<lambda>s. n < l_no s) (ledger_of d i))" and ps: "0 \<le> rows_per_account ps"
      and v: "v \<in> set (query_rows ps now ?d)" "vf_account_id v = i" for ps now v
    using anchored_row_reports_nothing [OF ok ps v(1)] resolved_anchored [OF assms(1) row c] anchor v(2)
      ledger_of_cong [of ?d d i] by simp
  ultimately show ?thesis
    using ok no anchor resolved_true [OF assms(1,3) row] by (intro exI [of _ ?d]) auto
qed

text \<open>C19: Which resolutions are refused, and how: 404 exactly when the account has no open report; 422
  exactly when there is one and the row to accept is not named for an anchor break, does not lie past
  the last checkpoint, or does not exist; and, not caught by the schema, which bounds \<open>through_no\<close> only
  from below, 500 exactly when the number does not fit a \<open>bigint\<close>.\<close>

theorem resolution_refusals:
  assumes "db_ok d" "res \<noteq> Some 0"
  shows "((\<exists>e. resolve_ledger_discrepancy env i res sub d = Inl e \<and> status_code e = 404) \<longleftrightarrow> \<not> has_open_discrepancy d i)
    \<and> ((\<exists>e. resolve_ledger_discrepancy env i res sub d = Inl e \<and> status_code e = 422) \<longleftrightarrow>
        (\<exists>x. find_open_discrepancy d i = Inr (Some x) \<and> (res = None \<and> d_kind x = ANCHOR_BALANCE
          \<or> (let n = (case res of None \<Rightarrow> d_no x | Some m \<Rightarrow> m)
             in n \<le> anchor_no_of d i \<or> bigint_ok n \<and> (\<nexists>r. r \<in> set (ledger d) \<and> l_account_id r = i \<and> l_no r = n)))))
    \<and> ((\<exists>e. resolve_ledger_discrepancy env i res sub d = Inl e \<and> status_code e = 500) \<longleftrightarrow>
        (\<exists>x. find_open_discrepancy d i = Inr (Some x) \<and> (res = None \<longrightarrow> d_kind x \<noteq> ANCHOR_BALANCE)
          \<and> (let n = (case res of None \<Rightarrow> d_no x | Some m \<Rightarrow> m) in anchor_no_of d i < n \<and> 2 ^ 63 \<le> n)))"
proof -
  have acc: "accepted_through_no res x = (case res of None \<Rightarrow> if d_kind x = ANCHOR_BALANCE then None else Some (d_no x) | Some n \<Rightarrow> Some n)" for x
    using assms(2) by (auto simp: accepted_through_no_def split: option.splits)
  have none: "row_at d i n = None \<longleftrightarrow> (\<nexists>r. r \<in> set (ledger d) \<and> l_account_id r = i \<and> l_no r = n)" for n
    by (auto simp: row_at_def find_None_iff)
  have big: "anchor_no_of d i < n \<Longrightarrow> bigint_ok n \<longleftrightarrow> \<not> 2 ^ 63 \<le> n" for n
    using anchor_bigint [OF assms(1), of i] by (auto simp: bigint_ok_def)
  show ?thesis
  proof (cases "find (\<lambda>x. d_account_id x = i) (filter is_open (discrepancies d))")
    case None
    then show ?thesis
      using find_open_None_iff [OF assms(1), of i]
      by (simp add: resolve_eq [OF assms(1)] find_open_eq [OF assms(1)] no_open_discrepancy_def)
  next
    case (Some x)
    have "has_open_discrepancy d i"
      using find_open_None_iff [OF assms(1), of i] Some by (simp add: find_open_eq [OF assms(1)])
    then show ?thesis
      using Some none big row_at_SomeD [of d i]
      by (auto simp: acc Let_def resolve_eq [OF assms(1)] find_open_eq [OF assms(1)] split: option.splits dest: row_at_SomeD)
  qed
qed

text \<open>As \<open>fast_deps.py\<close> wires the sessions, a resolution that is answered with success leaves the
  database as it was: the account stays in quarantine.\<close>

lemma resolution_as_wired_is_lost:
  assumes "db_ok d" "en_sessions env = wired_sessions" "resolve_ledger_discrepancy env i res sub d = Inr d'"
  shows "d' = d \<and> has_open_discrepancy d' i \<and> i \<notin> tg_account_id ` set (targets ps now d')"
proof -
  have "d' = d" using assms by (auto simp: resolve_eq en_shared_def split: option.splits if_splits)
  moreover have "find_open_discrepancy d i \<noteq> Inr None"
    using assms(3) by (auto simp: resolve_ledger_discrepancy_def)
  ultimately show ?thesis
    using find_open_None_iff [OF assms(1), of i] quarantined by blast
qed

section \<open>Witnesses\<close>

definition reported_db :: db where
  "reported_db = tampered_db\<lparr>discrepancies := [\<lparr>d_id = 1, d_account_id = 10, d_no = 2, d_kind = BALANCE, d_prev_no = 1,
     d_expected_balance = None, d_actual_balance = 0, d_detected_at = 4, d_resolved_at = None, d_resolved_by = None\<rparr>],
     next_discrepancy_id := 2\<rparr>"

lemma reported_db_sel [simp]: "ledger reported_db = tampered_rows" "verified reported_db = []"
  by (simp_all add: reported_db_def)

lemma reported_ok: "db_ok reported_db"
  using tampered_db_ok
  by (simp add: constraint_defs reported_db_def account_exists_def)

lemma reported_open:
  "find_open_discrepancy reported_db 10 = Inr (Some \<lparr>d_id = 1, d_account_id = 10, d_no = 2, d_kind = BALANCE, d_prev_no = 1,
     d_expected_balance = None, d_actual_balance = 0, d_detected_at = 4, d_resolved_at = None, d_resolved_by = None\<rparr>)"
  by (simp add: find_open_discrepancy_def reported_db_def)

lemma reported_anchor: "anchor_no_of reported_db 10 = 0"
  by (cases reported_db "10 :: uuid" rule: anchor_cases) simp_all

theorem resolution_lifts_the_quarantine_witness:
  "\<exists>d'. resolve_ledger_discrepancy sample_env 10 (Some 3) 7 reported_db = Inr d' \<and> db_ok d'
    \<and> \<not> has_open_discrepancy d' 10 \<and> anchor_no_of d' 10 = 3"
proof -
  let ?x = "\<lparr>d_id = 1, d_account_id = 10, d_no = 2, d_kind = BALANCE, d_prev_no = 1,
     d_expected_balance = None, d_actual_balance = 0, d_detected_at = 4, d_resolved_at = None, d_resolved_by = None\<rparr>"
  have r: "last tampered_rows \<in> set tampered_rows" "l_account_id (last tampered_rows) = 10" "l_no (last tampered_rows) = 3"
    by (simp_all add: tampered_rows_def sample_rows_def)
  show ?thesis
    using resolution_lifts_the_quarantine [OF reported_ok _ reported_open, where env = sample_env and res = "Some 3" and n = 3 and r = "last tampered_rows" and sub = 7] r
    by (simp add: reported_anchor) blast
qed

theorem resolution_refusals_witness:
  "(\<exists>e. resolve_ledger_discrepancy sample_env 10 (Some (2 ^ 63)) 7 reported_db = Inl e \<and> status_code e = 500)
   \<and> (\<exists>e. resolve_ledger_discrepancy sample_env 11 None 7 reported_db = Inl e \<and> status_code e = 404)"
  using resolution_refusals [OF reported_ok, of "Some (2 ^ 63)" sample_env 10 7]
    resolution_refusals [OF reported_ok, of None sample_env 11 7]
  by (simp add: reported_open reported_anchor accepted_through_no_def) (simp add: has_open_discrepancy_def reported_db_def)

lemma resolution_as_wired_is_lost_witness:
  "\<exists>d'. resolve_ledger_discrepancy (sample_env\<lparr>en_sessions := wired_sessions\<rparr>) 10 (Some 3) 7 reported_db = Inr d'
    \<and> has_open_discrepancy d' 10"
proof -
  have "row_at reported_db 10 3 \<noteq> None"
    by (auto simp: row_at_def find_None_iff tampered_rows_def sample_rows_def)
  then obtain d' where "resolve_ledger_discrepancy (sample_env\<lparr>en_sessions := wired_sessions\<rparr>) 10 (Some 3) 7 reported_db = Inr d'"
    using reported_open
    by (auto simp: resolve_eq [OF reported_ok] find_open_eq [OF reported_ok] reported_anchor accepted_through_no_def bigint_ok_def)
  then show ?thesis
    using resolution_as_wired_is_lost [OF reported_ok, of "sample_env\<lparr>en_sessions := wired_sessions\<rparr>" 10 "Some 3" 7 d'] by auto
qed

end
