(* ===== verification/Service.thy ===== *)
theory Service
  imports Resolution
begin

text \<open>
  The components together: every transaction the service runs on its database (the endpoints, the
  payment jobs, the scheduled verification, the customer events), one after the other and, for the
  edits of accounts, with reads and writes of different requests interleaved.
\<close>

section \<open>One transaction of the service\<close>

datatype service_event =
    Create timestamp uuid account_create_body uuid
  | Update endpoint_env uuid account_update_body uuid
  | Delete endpoint_env uuid string uuid
  | Resolve endpoint_env uuid "int option" uuid
  | Background background_event
  | New_customer customer_created

text \<open>\<open>put\<close> is the queue as the endpoint sees it: it takes the job or raises.\<close>

fun service_tx :: "(account_attr, cell) get_history \<Rightarrow> (async_message \<Rightarrow> byte list) \<Rightarrow> (job_request \<Rightarrow> unit \<Rightarrow> exc + unit)
    \<Rightarrow> service_event \<Rightarrow> db \<Rightarrow> exc + db" where
  "service_tx gh dump put (Create now i body sub) d =
     map_sum id fst (create_customer_account dump put Map.empty now i body sub d ())"
| "service_tx gh dump put (Update env i body sub) d = update_customer_account gh env i body sub d d"
| "service_tx gh dump put (Delete env i version sub) d = delete_customer_account gh env i version sub d d"
| "service_tx gh dump put (Resolve env i res sub) d = resolve_ledger_discrepancy env i res sub d"
| "service_tx gh dump put (Background e) d = background_tx e d"
| "service_tx gh dump put (New_customer e) d = on_customer_created e d"

text \<open>
  The invariant: the constraints, the audit trail, every ledger a chain that starts with an opening
  row for each account and never goes below zero, every checkpoint a certificate, no report.
\<close>

definition ledgers_opened :: "db \<Rightarrow> bool" where
  "ledgers_opened d \<longleftrightarrow> (\<forall>a \<in> set (accounts d). ledger_of d (a_id a) \<noteq> [])"

definition service_ok :: "db \<Rightarrow> bool" where
  "service_ok d \<longleftrightarrow> db_ok d \<and> audit_ok d \<and> all_intact d \<and> ledgers_opened d \<and> solvent d
     \<and> checkpoints_certify d \<and> discrepancies d = []"

lemma service_okD:
  assumes "service_ok d"
  shows "db_ok d" "audit_ok d" "all_intact d" "ledgers_opened d" "solvent d" "checkpoints_certify d"
    "checkpoints_true d" "discrepancies d = []"
  using assms certify_true by (auto simp: service_ok_def)

lemma account_exists_image: "account_exists d i \<longleftrightarrow> i \<in> a_id ` set (accounts d)"
  by (auto simp: account_exists_def list_ex_iff image_iff intro: sym)

lemma service_ok_cong:
  assumes "service_ok d" "ledger d' = ledger d" "verified d' = verified d" "discrepancies d' = discrepancies d"
    and "db_ok d'" "audit_ok d'" "a_id ` set (accounts d') \<subseteq> a_id ` set (accounts d)"
  shows "service_ok d'"
proof -
  have l: "ledger_of d' i = ledger_of d i" for i by (rule ledger_of_cong [OF assms(2)])
  have "ledgers_opened d'"
    unfolding ledgers_opened_def l
  proof
    fix a assume "a \<in> set (accounts d')"
    then obtain b where "b \<in> set (accounts d)" "a_id a = a_id b" using assms(7) by blast
    then show "ledger_of d (a_id a) \<noteq> []" using assms(1) by (simp add: service_ok_def ledgers_opened_def)
  qed
  then show ?thesis
    using assms l certifies_cong [OF assms(2)]
    by (simp add: service_ok_def all_intact_def ledger_intact_def solvent_def checkpoints_certify_def)
qed

section \<open>Every transaction keeps the invariant\<close>

lemma create_service_ok:
  assumes "service_ok d" "creatable i body d"
  shows "service_ok (opened now i body sub d)"
proof -
  note d = service_okD [OF assms(1)]
  note l = opened_ledger_of [OF d(1) assms(2), of now sub]
  have "certifies (opened now i body sub d) v" if "v \<in> set (verified d)" for v
  proof -
    have "account_exists d (v_account_id v)" using d(1) that by (simp add: constraint_defs)
    then have "v_account_id v \<noteq> i" using assms(2) by (auto simp: account_exists_image creatable_def)
    then have "prefix_to (opened now i body sub d) (v_account_id v) n = prefix_to d (v_account_id v) n" for n
      using l by (simp add: prefix_to_def)
    then show ?thesis using d(6) that by (simp add: certifies_def checkpoints_certify_def)
  qed
  then show ?thesis
    using d opened_ok [OF d(1) assms(2), of now sub] opened_audit [OF d(1,2) assms(2), of now sub] l
    by (auto simp: service_ok_def all_intact_def ledger_intact_def ledgers_opened_def solvent_def checkpoints_certify_def
        simp del: set_ledger_of)
qed

lemma edit_service_ok:
  assumes "attribute_history gh" "edits_only assign" "service_ok d" "edit_account gh env i token assign d d = Inr d'"
  shows "service_ok d'"
proof -
  note d = service_okD [OF assms(3)]
  obtain a where a: "a \<in> set (accounts d)"
    and f: "flush_account gh (en_history_first env) (en_now env) (en_db_now env) a (assign a) d = Inr d'"
    using edit_account_InrD [OF d(1) assms(4)] by metis
  show ?thesis
  proof (cases "assign a = a")
    case True
    then show ?thesis using f flush_current [OF assms(1,2) d(1,2) a] assms(3) by simp
  next
    case False
    then have "d' = after_edit (en_now env) (en_db_now env) a (assign a) d"
      using f flush_current [OF assms(1,2) d(1,2) a] by simp
    then show ?thesis
      using after_edit_ok [OF d(1)] after_edit_audit [OF d(1,2) a] imageI [OF a, of a_id]
      by (intro service_ok_cong [OF assms(3)]) (auto simp: image_image cong: image_cong_simp)
  qed
qed

lemma payment_service_ok:
  assumes "service_ok d" "apply_payment now event d = Inr d'"
  shows "service_ok d'"
proof -
  note d = service_okD [OF assms(1)]
  note f = apply_payment_frame [OF d(1) assms(2)]
  have "audit_ok d'" using d(2) f by (simp add: audit_ok_def history_of_def)
  moreover have "ledgers_opened d'"
  proof -
    have "set (ledger_of d i) \<subseteq> set (ledger_of d' i)" for i using f(7) by auto
    then show ?thesis using d(4) f(2) unfolding ledgers_opened_def by (metis set_empty subset_empty)
  qed
  ultimately show ?thesis
    using d f apply_payment_ok [OF d(1) assms(2)] apply_payment_intact [OF d(1) assms(2)]
      apply_payment_solvent [OF d(1) assms(2)] payment_certify [OF d(1,6) assms(2)]
    by (simp add: service_ok_def all_intact_def)
qed

lemma intact_run_effect:
  assumes "service_ok d"
  shows "broken (batch_of e d) = []"
proof (cases "rows_per_account (ve_params e) < 0")
  case True
  then show ?thesis by (simp add: batch_of_def next_batch_negative broken_def)
next
  case False
  then show ?thesis
    using intact_batch(1) [OF service_okD(1) [OF assms] _ service_okD(3,7) [OF assms], of "ve_params e" "ve_db_now e"]
    by (simp add: batch_of_def broken_def)
qed

lemma verify_service_ok:
  assumes "service_ok d" "verify_tx e d = Inr d'"
  shows "service_ok d'"
proof -
  note d = service_okD [OF assms(1)]
  note f = verify_tx_frame [OF d(1) assms(2)]
  have "discrepancies d' = []"
    using verify_tx_Inr [OF d(1) assms(2)] intact_run_effect [OF assms(1), of e] d(8) by simp
  moreover have "audit_ok d'" using d(2) f by (simp add: audit_ok_def history_of_def)
  ultimately show ?thesis
    using d f ledger_of_cong [OF f(3)] verify_tx_ok [OF assms(2) d(1)] verify_tx_certify [OF d(1,6) assms(2)]
    by (simp add: service_ok_def all_intact_def ledger_intact_def ledgers_opened_def solvent_def)
qed

lemma new_customer_unchanged:
  assumes "db_ok d" "on_customer_created e d = Inr d'"
  shows "d' = d"
  using assms(2)
  by (auto simp: on_customer_created_def customer_find_eq [OF assms(1)] insert_customer_def customer_columns_def
      split: option.splits sum.splits)

lemma resolve_unreported:
  "service_ok d \<Longrightarrow> resolve_ledger_discrepancy env i res sub d = Inl no_open_discrepancy"
  by (simp add: resolve_eq service_okD)

lemma service_step:
  assumes "attribute_history gh" "service_ok d" "service_tx gh dump put e d = Inr d'"
  shows "service_ok d'"
proof (cases e)
  case (Create now i body sub)
  then have "creatable i body d" "d' = opened now i body sub d"
    using assms(3) uncreatable_integrity [of i body d now sub]
    by (auto simp: create_customer_account_eq [OF service_okD(1) [OF assms(2)]] map_sum_def split: sum.splits if_splits)
  then show ?thesis using create_service_ok [OF assms(2)] by simp
next
  case (Update env i body sub)
  then show ?thesis
    using assms(3) edit_service_ok [OF assms(1) update_edits_only assms(2)] by (simp add: update_customer_account_def)
next
  case (Delete env i version sub)
  then show ?thesis
    using assms(3) edit_service_ok [OF assms(1) delete_edits_only assms(2)] by (simp add: delete_customer_account_def)
next
  case (Resolve env i res sub)
  then show ?thesis using assms(3) resolve_unreported [OF assms(2)] by simp
next
  case (Background b)
  then show ?thesis
    using assms(3) payment_service_ok [OF assms(2)] verify_service_ok [OF assms(2)] by (cases b) auto
next
  case (New_customer c)
  then have "on_customer_created c d = Inr d'" using assms(3) by simp
  from new_customer_unchanged [OF service_okD(1) [OF assms(2)] this] show ?thesis using assms(2) by simp
qed

interpretation service: transaction "service_tx scalar_history dump put" service_ok for dump put
  by unfold_locales (rule service_step [OF scalar.attribute_history_axioms])

lemma service_transaction: "attribute_history gh \<Longrightarrow> transaction (service_tx gh dump put) service_ok"
  by unfold_locales (rule service_step)

definition customers_only :: "customer list \<Rightarrow> db" where
  "customers_only cs = empty_db\<lparr>customers := cs\<rparr>"

lemma customers_only_ok: "distinct (map c_id cs) \<Longrightarrow> service_ok (customers_only cs)"
  by (simp add: customers_only_def service_ok_def constraint_defs empty_db_def audit_ok_def all_intact_def
      ledger_intact_def ledger_of_def order_by_def ledgers_opened_def solvent_def checkpoints_certify_def)

section \<open>Requests that overlap\<close>

text \<open>
  An update or a deletion reads the account in one statement and writes it in a later one; anything
  may be committed between the two. The state keeps, for every request in flight, the database its
  read saw. All other transactions are atomic: the payment job locks the account row, the
  verification holds its advisory lock.
\<close>

record service_state =
  st_db :: db
  st_reads :: "db list"

inductive service_steps :: "(account_attr, cell) get_history \<Rightarrow> (async_message \<Rightarrow> byte list)
    \<Rightarrow> (job_request \<Rightarrow> unit \<Rightarrow> exc + unit) \<Rightarrow> service_state \<Rightarrow> service_state \<Rightarrow> bool"
  for gh dump put where
  start: "service_steps gh dump put s s"
| transaction: "service_steps gh dump put s t \<Longrightarrow> service_tx gh dump put e (st_db t) = Inr d'
    \<Longrightarrow> service_steps gh dump put s (t\<lparr>st_db := d'\<rparr>)"
| edit_reads: "service_steps gh dump put s t \<Longrightarrow> service_steps gh dump put s (t\<lparr>st_reads := st_db t # st_reads t\<rparr>)"
| edit_writes: "service_steps gh dump put s t \<Longrightarrow> dr \<in> set (st_reads t)
    \<Longrightarrow> edit_account gh env i token assign dr (st_db t) = Inr d' \<Longrightarrow> edits_only assign
    \<Longrightarrow> service_steps gh dump put s (t\<lparr>st_db := d'\<rparr>)"

text \<open>How the accounts of a later database relate to those of an earlier one.\<close>

definition accounts_evolve :: "db \<Rightarrow> db \<Rightarrow> bool" where
  "accounts_evolve d d' \<longleftrightarrow> (\<forall>a \<in> set (accounts d). \<exists>b \<in> set (accounts d'). a_id b = a_id a
     \<and> a_customer_id b = a_customer_id a \<and> a_version a \<le> a_version b \<and> (a_version b = a_version a \<longrightarrow> b = a))"

lemma evolve_refl: "accounts_evolve d d"
  by (auto simp: accounts_evolve_def)

lemma evolve_trans:
  assumes "accounts_evolve d1 d2" "accounts_evolve d2 d3"
  shows "accounts_evolve d1 d3"
  unfolding accounts_evolve_def
proof
  fix a assume "a \<in> set (accounts d1)"
  then obtain b where b: "b \<in> set (accounts d2)" "a_id b = a_id a" "a_customer_id b = a_customer_id a"
    "a_version a \<le> a_version b" "a_version b = a_version a \<longrightarrow> b = a"
    using assms(1) by (auto simp: accounts_evolve_def)
  then obtain c where "c \<in> set (accounts d3)" "a_id c = a_id b" "a_customer_id c = a_customer_id b"
    "a_version b \<le> a_version c" "a_version c = a_version b \<longrightarrow> c = b"
    using assms(2) by (auto simp: accounts_evolve_def)
  with b show "\<exists>c \<in> set (accounts d3). a_id c = a_id a \<and> a_customer_id c = a_customer_id a
      \<and> a_version a \<le> a_version c \<and> (a_version c = a_version a \<longrightarrow> c = a)" by (auto intro!: bexI [of _ c])
qed

lemma evolve_superset: "set (accounts d) \<subseteq> set (accounts d') \<Longrightarrow> accounts_evolve d d'"
  by (auto simp: accounts_evolve_def)

lemma evolve_after_edit:
  assumes "db_ok d" "a \<in> set (accounts d)"
  shows "accounts_evolve d (after_edit now t a c d)"
  unfolding accounts_evolve_def
proof
  fix b assume b: "b \<in> set (accounts d)"
  then have "(if a_id b = a_id a then edited t b c else b) \<in> set (accounts (after_edit now t a c d))" by auto
  then show "\<exists>x \<in> set (accounts (after_edit now t a c d)). a_id x = a_id b \<and> a_customer_id x = a_customer_id b
      \<and> a_version b \<le> a_version x \<and> (a_version x = a_version b \<longrightarrow> x = b)"
    by (rule bexI [rotated]) simp
qed

text \<open>A write that succeeds either changes nothing or changes the very row that was read.\<close>

lemma edit_across:
  assumes "attribute_history gh" "edits_only assign" "service_ok dr" "service_ok dw" "accounts_evolve dr dw"
    and "edit_account gh env i token assign dr dw = Inr d'"
  obtains a where "a \<in> set (accounts dr)" "a_id a = i" "d' = dw" "assign a = a"
  | a where "a \<in> set (accounts dr)" "a_id a = i" "a \<in> set (accounts dw)" "assign a \<noteq> a"
      "d' = after_edit (en_now env) (en_db_now env) a (assign a) dw"
proof -
  note r = service_okD [OF assms(3)] and w = service_okD [OF assms(4)]
  obtain a where a: "a \<in> set (accounts dr)" "a_id a = i"
    and f: "flush_account gh (en_history_first env) (en_now env) (en_db_now env) a (assign a) dw = Inr d'"
    using edit_account_InrD [OF r(1) assms(6)] by metis
  obtain b where b: "b \<in> set (accounts dw)" "a_id b = a_id a" "a_customer_id b = a_customer_id a"
    "a_version a \<le> a_version b" "a_version b = a_version a \<longrightarrow> b = a"
    using assms(5) a(1) by (auto simp: accounts_evolve_def)
  show thesis
  proof (cases "assign a = a")
    case True
    then have "d' = dw" using f flush_account_eq [OF assms(1)] by simp
    with a True that(1) show thesis by blast
  next
    case False
    have "a_version b = a_version a"
    proof (rule ccontr)
      assume "a_version b \<noteq> a_version a"
      then have "a_version a < a_version b" using b(4) by simp
      from flush_stale [OF assms(1,2) w(1,2) b(1,2,3) audit_version [OF r(2) a(1)] this False] f show False by simp
    qed
    then have "a \<in> set (accounts dw)" using b(1,5) by simp
    with flush_current [OF assms(1,2) w(1,2) this] f False a that(2) show thesis by simp
  qed
qed

lemma service_evolve:
  assumes "attribute_history gh" "service_ok d" "service_tx gh dump put e d = Inr d'"
  shows "accounts_evolve d d'"
proof (cases e)
  case (Create now i body sub)
  then have "d' = opened now i body sub d"
    using assms(3) uncreatable_integrity [of i body d now sub]
    by (auto simp: create_customer_account_eq [OF service_okD(1) [OF assms(2)]] map_sum_def split: sum.splits if_splits)
  then show ?thesis by (intro evolve_superset) auto
next
  case (Update env i body sub)
  then have "edit_account gh env i (ub_version body) (update_assign body sub) d d = Inr d'"
    using assms(3) by (simp add: update_customer_account_def)
  from edit_across [OF assms(1) update_edits_only assms(2,2) evolve_refl this] show ?thesis
    using evolve_refl evolve_after_edit [OF service_okD(1) [OF assms(2)]] by metis
next
  case (Delete env i version sub)
  then have "edit_account gh env i version (delete_assign sub) d d = Inr d'"
    using assms(3) by (simp add: delete_customer_account_def)
  from edit_across [OF assms(1) delete_edits_only assms(2,2) evolve_refl this] show ?thesis
    using evolve_refl evolve_after_edit [OF service_okD(1) [OF assms(2)]] by metis
next
  case (Resolve env i res sub)
  then show ?thesis using assms(3) resolve_unreported [OF assms(2)] by simp
next
  case (Background b)
  then show ?thesis
    using assms(3) apply_payment_frame(2) [OF service_okD(1) [OF assms(2)]]
      verify_tx_frame(2) [OF service_okD(1) [OF assms(2)]]
    by (cases b) (auto intro!: evolve_superset)
next
  case (New_customer c)
  then have "on_customer_created c d = Inr d'" using assms(3) by simp
  from new_customer_unchanged [OF service_okD(1) [OF assms(2)] this] show ?thesis by (simp add: evolve_refl)
qed

definition reads_ok :: "service_state \<Rightarrow> bool" where
  "reads_ok s \<longleftrightarrow> service_ok (st_db s)
     \<and> (\<forall>dr \<in> set (st_reads s). service_ok dr \<and> accounts_evolve dr (st_db s))"

lemma reads_ok_advance:
  "reads_ok t \<Longrightarrow> service_ok d' \<Longrightarrow> accounts_evolve (st_db t) d' \<Longrightarrow> reads_ok (t\<lparr>st_db := d'\<rparr>)"
  unfolding reads_ok_def by (auto intro: evolve_trans)

lemma edit_writes_ok:
  assumes "attribute_history gh" "edits_only assign" "reads_ok t" "dr \<in> set (st_reads t)"
    and "edit_account gh env i token assign dr (st_db t) = Inr d'"
  shows "service_ok d' \<and> accounts_evolve (st_db t) d'"
proof -
  have ok: "service_ok dr" "service_ok (st_db t)" "accounts_evolve dr (st_db t)"
    using assms(3,4) by (auto simp: reads_ok_def)
  from assms(1,2) ok assms(5) show ?thesis
  proof (cases rule: edit_across)
    case (1 a)
    then show ?thesis using ok(2) evolve_refl by simp
  next
    case (2 a)
    note d = service_okD [OF ok(2)]
    have "service_ok d'"
      using after_edit_ok [OF d(1)] after_edit_audit [OF d(1,2) 2(3)] imageI [OF 2(3), of a_id] 2(5)
      by (intro service_ok_cong [OF ok(2)]) auto
    then show ?thesis using evolve_after_edit [OF d(1) 2(3)] 2(5) by simp
  qed
qed

lemma service_steps_ok:
  assumes "attribute_history gh" "service_steps gh dump put s t" "reads_ok s"
  shows "reads_ok t"
  using assms(2,3)
proof (induction rule: service_steps.induct)
  case (transaction s t e d')
  then have t1: "reads_ok t" by blast
  then have "service_ok (st_db t)" by (simp add: reads_ok_def)
  note t = t1 this
  from reads_ok_advance [OF t(1) service_step [OF assms(1) t(2) transaction.hyps(2)] service_evolve [OF assms(1) t(2) transaction.hyps(2)]]
  show ?case .
next
  case (edit_reads s t)
  then have "reads_ok t" by blast
  then show ?case by (simp add: reads_ok_def evolve_refl)
next
  case (edit_writes s t dr env i token assign d')
  then have t: "reads_ok t" by blast
  with edit_writes_ok [OF assms(1) edit_writes.hyps(4) t edit_writes.hyps(2,3)] show ?case
    by (intro reads_ok_advance) simp_all
qed

definition fresh_service :: "customer list \<Rightarrow> service_state" where
  "fresh_service cs = \<lparr>st_db = customers_only cs, st_reads = []\<rparr>"

lemma fresh_service_reaches:
  assumes "attribute_history gh" "distinct (map c_id cs)" "service_steps gh dump put (fresh_service cs) t"
  shows "reads_ok t"
  using service_steps_ok [OF assms(1,3)] customers_only_ok [OF assms(2)] by (simp add: reads_ok_def fresh_service_def)

lemma flush_error_status:
  assumes "attribute_history gh" "flush_account gh hf now db_now a c d = Inl e"
  shows "status_code e \<in> {404, 409, 500}"
proof -
  have ins: "status_code e = 500" if "insert_account_history h d' = Inl e" for h d'
    using that by (auto simp: insert_account_history_def split: if_splits)
  have upd: "e = StaleDataError" if "update_account_row db_now a c v d' = Inl e" for v d'
    using that by (auto simp: update_account_row_def Let_def split: if_splits)
  show ?thesis
    using assms(2) ins upd unfolding flush_account_eq [OF assms(1)] by (fastforce split: if_splits sum.splits)
qed

lemma edit_error_status:
  assumes "attribute_history gh" "db_ok dr" "edit_account gh env i token assign dr dw = Inl e"
  shows "status_code e \<in> {404, 409, 500}"
proof (cases "find (\<lambda>a. a_id a = i) (accounts dr)")
  case None
  then show ?thesis using assms(3) by (auto simp: edit_account_def account_find_eq [OF assms(2)])
next
  case (Some a)
  then show ?thesis
    using assms(3) flush_error_status [OF assms(1)]
    by (auto simp: edit_account_def account_find_eq [OF assms(2)] verify_token_def compare_digest_def session_add_def
        split: if_splits bool.splits)
qed

section \<open>Properties\<close>

text \<open>C11: Starting from customers without accounts, whatever requests, payment jobs, customer events and
  verification runs are processed, in any order and with the reads and writes of overlapping edits
  interleaved in any way: the constraints hold, every account has its complete history, every ledger
  is a chain that starts with its opening row and never goes below zero, no discrepancy has been
  reported, and a verification run with settings its query accepts returns and reports none.\<close>

theorem service_stays_sound:
  assumes "attribute_history gh" "distinct (map c_id cs)" "service_steps gh dump put (fresh_service cs) t"
  shows "db_ok (st_db t) \<and> audit_ok (st_db t) \<and> solvent (st_db t) \<and> discrepancies (st_db t) = []
    \<and> (\<forall>a \<in> set (accounts (st_db t)). ledger_of (st_db t) (a_id a) \<noteq> [] \<and> ledger_intact (st_db t) (a_id a))
    \<and> (\<forall>pl ps db_now now. batch_settings_ok ps db_now \<longrightarrow>
        (\<exists>d' lg. verify_run pl ps db_now now True (st_db t) = Inr (d', Some lg) \<and> log_discrepancies lg = 0))"
proof -
  have ok: "service_ok (st_db t)" using fresh_service_reaches [OF assms] by (simp add: reads_ok_def)
  note d = service_okD [OF this]
  have "\<exists>d' lg. verify_run pl ps db_now now True (st_db t) = Inr (d', Some lg) \<and> log_discrepancies lg = 0"
    if "batch_settings_ok ps db_now" for pl ps db_now now
    using verify_run_eq [OF d(1) batch_settings_okD(2) [OF that] intact_query [OF d(1,3,7) that], where pl = pl and now = now]
      intact_batch [OF d(1) batch_settings_okD(2) [OF that] d(3,7), of db_now] by simp
  then show ?thesis using d by (simp add: all_intact_def ledgers_opened_def)
qed

text \<open>C12: No update is lost: in every state the service can reach, a request in flight that read some
  earlier state either fails, or set out to change nothing and writes nothing, or the stored account
  is still the very row it read and gets exactly its change, the next version and an archived copy.\<close>

theorem overlapping_edits_lose_no_update:
  assumes "attribute_history gh" "distinct (map c_id cs)" "service_steps gh dump put (fresh_service cs) t"
    and "dr \<in> set (st_reads t)"
  shows "case update_customer_account gh env i body sub dr (st_db t) of
      Inl e \<Rightarrow> status_code e \<in> {404, 409, 500}
    | Inr d' \<Rightarrow> \<exists>a \<in> set (accounts dr). a_id a = i \<and>
        (if update_assign body sub a = a then d' = st_db t
         else a \<in> set (accounts (st_db t)) \<and> audit_ok d' \<and> ledger d' = ledger (st_db t)
           \<and> history_of d' i = history_of (st_db t) i @ [archived (en_now env) a]
           \<and> (update_assign body sub a)\<lparr>a_updated_at := en_db_now env, a_version := a_version a + 1\<rparr> \<in> set (accounts d'))"
proof (cases "update_customer_account gh env i body sub dr (st_db t)")
  case (Inl e)
  have "service_ok dr" using fresh_service_reaches [OF assms(1-3)] assms(4) by (auto simp: reads_ok_def)
  with edit_error_status [OF assms(1) service_okD(1)] Inl show ?thesis by (simp add: update_customer_account_def)
next
  case (Inr d')
  have ok: "service_ok dr" "service_ok (st_db t)" "accounts_evolve dr (st_db t)"
    using fresh_service_reaches [OF assms(1-3)] assms(4) by (auto simp: reads_ok_def)
  note d = service_okD [OF ok(2)]
  from assms(1) update_edits_only ok Inr [unfolded update_customer_account_def] show ?thesis
  proof (cases rule: edit_across)
    case (1 a)
    then show ?thesis using Inr by auto
  next
    case (2 a)
    have "edited (en_db_now env) a (update_assign body sub a) \<in> set (accounts d')"
      using 2(3,5) by auto
    then show ?thesis
      using Inr 2 after_edit_audit [OF d(1,2) 2(3)]
      by (auto simp: edited_assign [OF update_edits_only] history_of_after_edit intro!: bexI [of _ a])
  qed
qed

definition sample_services :: "service_state" where
  "sample_services = \<lparr>st_db = opened 0 10 \<lparr>nb_name = ''main'', nb_customer_id = 1, nb_currency = EUR\<rparr> 7 (customers_only [sample_customer]),
     st_reads = [opened 0 10 \<lparr>nb_name = ''main'', nb_customer_id = 1, nb_currency = EUR\<rparr> 7 (customers_only [sample_customer])]\<rparr>"

lemma sample_services_reached:
  "service_steps scalar_history (\<lambda>_. []) (\<lambda>_ _. Inr ()) (fresh_service [sample_customer]) sample_services"
proof -
  let ?b = "\<lparr>nb_name = ''main'', nb_customer_id = 1, nb_currency = EUR\<rparr>"
  have c: "creatable 10 ?b (customers_only [sample_customer])"
    by (simp add: creatable_def customers_only_def empty_db_def sample_customer_def customer_create_def)
  have "db_ok (customers_only [sample_customer])" using customers_only_ok [of "[sample_customer]"] by (simp add: service_okD)
  then have "service_tx scalar_history (\<lambda>_. []) (\<lambda>_ _. Inr ()) (Create 0 10 ?b 7) (st_db (fresh_service [sample_customer]))
      = Inr (opened 0 10 ?b 7 (customers_only [sample_customer]))"
    using c by (simp add: fresh_service_def create_customer_account_eq)
  from service_steps.edit_reads [OF service_steps.transaction [OF service_steps.start this]]
  show ?thesis by (simp add: sample_services_def fresh_service_def)
qed

theorem service_stays_sound_witness:
  "solvent (st_db sample_services) \<and> ledger_of (st_db sample_services) 10 \<noteq> []
   \<and> (\<exists>d' lg. verify_run full_plan sample_params 9 9 True (st_db sample_services) = Inr (d', Some lg) \<and> log_discrepancies lg = 0)"
  using service_stays_sound [OF scalar.attribute_history_axioms _ sample_services_reached]
  using sample_settings_ok by (force simp: sample_services_def simp del: set_ledger_of)

theorem overlapping_edits_lose_no_update_witness:
  "case update_customer_account scalar_history sample_env 10 sample_rename 8 (st_db sample_services) (st_db sample_services) of
      Inl e \<Rightarrow> status_code e \<in> {404, 409, 500}
    | Inr d' \<Rightarrow> audit_ok d' \<or> d' = st_db sample_services"
proof -
  have "distinct (map c_id [sample_customer])" "st_db sample_services \<in> set (st_reads sample_services)"
    by (simp_all add: sample_services_def)
  from overlapping_edits_lose_no_update [OF scalar.attribute_history_axioms this(1) sample_services_reached this(2),
      where env = sample_env and i = 10 and body = sample_rename and sub = 8]
  show ?thesis by (cases "update_customer_account scalar_history sample_env 10 sample_rename 8 (st_db sample_services) (st_db sample_services)")
    (simp, simp, metis)
qed

end
