(* ===== verification/Queries.thy ===== *)
theory Queries
  imports Digests Entities
begin

text \<open>
  The list query as \<open>app/schemas/request.py\<close>, \<open>app/schemas/validation.py\<close> and
  \<open>app/schemas/account.py\<close> read it: the sort expressions, the date range, the cursor and its text
  form. A validator that raises \<open>ValueError\<close> is answered with 422, as pydantic does; every other
  exception passes through.
\<close>

section \<open>Sorting\<close>

datatype sort_direction = ASC | DESC

fun direction_value :: "sort_direction \<Rightarrow> string" where
  "direction_value ASC = ''asc''"
| "direction_value DESC = ''desc''"

datatype sort_field = SF_CURRENCY | SF_STATUS | SF_CREATED_AT

fun field_value :: "sort_field \<Rightarrow> string" where
  "field_value SF_CURRENCY = ''currency''"
| "field_value SF_STATUS = ''status''"
| "field_value SF_CREATED_AT = ''created_at''"

definition direction_of :: "string \<Rightarrow> exc + sort_direction" where
  "direction_of s = (case find (\<lambda>d. direction_value d = s) [ASC, DESC] of
     None \<Rightarrow> Inl ValidationError | Some d \<Rightarrow> Inr d)"

definition field_of :: "string \<Rightarrow> exc + sort_field" where
  "field_of s = (case find (\<lambda>f. field_value f = s) [SF_CURRENCY, SF_STATUS, SF_CREATED_AT] of
     None \<Rightarrow> Inl ValidationError | Some f \<Rightarrow> Inr f)"

lemma direction_roundtrip [simp]: "direction_of (direction_value d) = Inr d"
  by (cases d) (simp_all add: direction_of_def)

lemma field_roundtrip [simp]: "field_of (field_value f) = Inr f"
  by (cases f) (simp_all add: field_of_def)

text \<open>What a request can put into \<open>sort\<close>: nothing, one value, or several.\<close>

datatype sort_item = Item_str string | Item_other

datatype sort_input = Sort_none | Sort_one sort_item | Sort_many "sort_item list"

text \<open>\<open>str.partition\<close> at the first occurrence of a character.\<close>

definition partition_at :: "char \<Rightarrow> string \<Rightarrow> string \<times> string \<times> string" where
  "partition_at c s =
     (let before = takeWhile (\<lambda>x. x \<noteq> c) s; rest = dropWhile (\<lambda>x. x \<noteq> c) s
      in case rest of [] \<Rightarrow> (before, [], []) | x # after \<Rightarrow> (before, [x], after))"

definition sort_default :: "sort_field \<times> sort_direction" where
  "sort_default = (SF_CREATED_AT, DESC)"

fun parse_items :: "sort_item list \<Rightarrow> exc + (string \<times> string) list" where
  "parse_items [] = Inr []"
| "parse_items (Item_other # items) = Inl ValueError"
| "parse_items (Item_str s # items) =
     (let (field, separator, direction) = partition_at (CHR '':'') s
      in if separator = [] \<or> field = [] \<or> direction = [] then Inl ValueError
         else map_sum id (\<lambda>parsed. (field, direction) # parsed) (parse_items items))"

definition parse_sort :: "sort_input \<Rightarrow> exc + (string \<times> string) list" where
  "parse_sort value = (case value of
     Sort_none \<Rightarrow> Inr [(field_value (fst sort_default), direction_value (snd sort_default))]
   | Sort_one item \<Rightarrow> parse_items [item]
   | Sort_many items \<Rightarrow> parse_items items)"

text \<open>The fields and directions are then validated as members of their enumerations.\<close>

fun sort_requests :: "(string \<times> string) list \<Rightarrow> exc + (sort_field \<times> sort_direction) list" where
  "sort_requests [] = Inr []"
| "sort_requests ((field, direction) # rest) =
     (case field_of field of Inl e \<Rightarrow> Inl e
      | Inr f \<Rightarrow> (case direction_of direction of Inl e \<Rightarrow> Inl e
        | Inr d \<Rightarrow> map_sum id (\<lambda>parsed. (f, d) # parsed) (sort_requests rest)))"

definition sort_query :: "sort_input \<Rightarrow> exc + (sort_field \<times> sort_direction) list" where
  "sort_query value = (case parse_sort value of Inl e \<Rightarrow> Inl e | Inr parsed \<Rightarrow> sort_requests parsed)"

section \<open>Points in time\<close>

text \<open>
  A \<open>datetime\<close> with an offset is a point in time; one without is a local reading. Comparing the two
  raises \<open>TypeError\<close>; the driver sends a local reading as the time the server's zone gives it.
\<close>

datatype py_datetime = Naive int | Aware timestamp

fun later :: "py_datetime \<Rightarrow> py_datetime \<Rightarrow> exc + bool" where
  "later (Naive a) (Naive b) = Inr (a > b)"
| "later (Aware a) (Aware b) = Inr (a > b)"
| "later _ _ = Inl TypeError"

fun instant :: "(int \<Rightarrow> timestamp) \<Rightarrow> py_datetime \<Rightarrow> timestamp" where
  "instant local (Aware t) = t"
| "instant local (Naive t) = local t"

text \<open>\<open>DateTimeRangeMixin\<close>: the two ends of each declared range.\<close>

fun validate_datetime_ranges :: "(py_datetime option \<times> py_datetime option) list \<Rightarrow> exc + unit" where
  "validate_datetime_ranges [] = Inr ()"
| "validate_datetime_ranges ((Some date_from, Some date_to) # ranges) =
     (case later date_from date_to of
        Inl e \<Rightarrow> Inl e
      | Inr gt \<Rightarrow> if gt then Inl ValueError else validate_datetime_ranges ranges)"
| "validate_datetime_ranges (_ # ranges) = validate_datetime_ranges ranges"

section \<open>The cursor\<close>

record account_cursor =
  cu_currency :: "currency option"
  cu_status :: "customer_account_status option"
  cu_created_at :: "py_datetime option"
  cu_id :: uuid

text \<open>
  \<open>base64.urlsafe_b64decode\<close>: the standard alphabet and its URL-safe variant; characters outside it
  are skipped, and padding that completes a group ends the input. \<open>left\<close> are the bits not yet
  written, \<open>pos\<close> the place in the group of four.
\<close>

definition b64_value :: "char \<Rightarrow> nat option" where
  "b64_value c =
     (let n = of_char c :: nat
      in if 65 \<le> n \<and> n \<le> 90 then Some (n - 65)
         else if 97 \<le> n \<and> n \<le> 122 then Some (n - 71)
         else if 48 \<le> n \<and> n \<le> 57 then Some (n + 4)
         else if c = CHR ''-'' \<or> c = CHR ''+'' then Some 62
         else if c = CHR ''_'' \<or> c = CHR ''/'' then Some 63
         else None)"

definition emit_bits :: "nat \<Rightarrow> nat \<Rightarrow> nat \<Rightarrow> byte list \<times> nat" where
  "emit_bits pos left v =
     (if pos = 0 then ([], v)
      else if pos = 1 then ([of_nat (left * 4 + v div 16)], v mod 16)
      else if pos = 2 then ([of_nat (left * 16 + v div 4)], v mod 4)
      else ([of_nat (left * 64 + v)], 0))"

fun a2b_base64 :: "nat \<Rightarrow> nat \<Rightarrow> nat \<Rightarrow> string \<Rightarrow> exc + byte list" where
  "a2b_base64 pos left pads [] = (if pos = 0 then Inr [] else Inl ValueError)"
| "a2b_base64 pos left pads (c # cs) =
     (if c = CHR ''=''
      then if 2 \<le> pos \<and> 4 \<le> pos + pads + 1 then Inr []
           else a2b_base64 pos left (if 2 \<le> pos then pads + 1 else pads) cs
      else case b64_value c of
             None \<Rightarrow> a2b_base64 pos left pads cs
           | Some v \<Rightarrow>
               let (out, left') = emit_bits pos left v
               in map_sum id (\<lambda>rest. out @ rest) (a2b_base64 ((pos + 1) mod 4) left' 0 cs))"

definition urlsafe_b64decode :: "string \<Rightarrow> exc + byte list" where
  "urlsafe_b64decode s = a2b_base64 0 0 0 s"

text \<open>
  \<open>encode\<close> and \<open>decode\<close>: \<open>dump\<close> is \<open>model_dump_json\<close>, \<open>load\<close> the decoding of UTF-8 followed by
  \<open>model_validate_json\<close>.
\<close>

definition encode_cursor :: "(account_cursor \<Rightarrow> string) \<Rightarrow> account_cursor \<Rightarrow> string" where
  "encode_cursor dump c = urlsafe_b64encode (utf8 (dump c))"

definition decode_cursor :: "(byte list \<Rightarrow> exc + account_cursor) \<Rightarrow> string \<Rightarrow> exc + account_cursor" where
  "decode_cursor load cursor = (case urlsafe_b64decode cursor of Inl e \<Rightarrow> Inl e | Inr bs \<Rightarrow> load bs)"

definition parse_cursor :: "(byte list \<Rightarrow> exc + account_cursor) \<Rightarrow> sort_item option \<Rightarrow> exc + account_cursor option" where
  "parse_cursor load value = (case value of
     None \<Rightarrow> Inr None
   | Some Item_other \<Rightarrow> Inl ValueError
   | Some (Item_str s) \<Rightarrow> map_sum id Some (decode_cursor load s))"

section \<open>Base64 there and back\<close>

lemma b64_values: "map b64_value b64_table = map Some [0..<64]"
  by (simp add: b64_table_def b64_value_def upt_rec)

lemma b64_value_char: "n < 64 \<Longrightarrow> b64_value (b64_char n) = Some n"
proof -
  assume n: "n < 64"
  have l: "length b64_table = 64" by (simp add: b64_table_def)
  have "map b64_value b64_table ! n = Some n" unfolding b64_values using n by simp
  then show ?thesis using n l by (simp add: b64_char_def b64_table_def [symmetric])
qed

lemma b64_value_pad: "b64_value (CHR ''='') = None"
  by code_simp

lemma sextets_parts:
  fixes q r s t u v :: nat
  assumes "r < 4" "s < 16" "t < 16" "u < 4" "v < 64" "q < 64"
  shows "sextets (((4 * q + r) * 256 + (16 * s + t)) * 256 + (64 * u + v)) = [q, r * 16 + s, t * 4 + u, v]"
proof -
  let ?n = "((4 * q + r) * 256 + (16 * s + t)) * 256 + (64 * u + v)"
  have 1: "?n div 262144 = q" using assms by (intro div_nat_eqI) simp_all
  have 2: "?n div 4096 = q * 64 + (r * 16 + s)" using assms by (intro div_nat_eqI) simp_all
  have 3: "?n div 64 = (q * 64 + r * 16 + s) * 64 + (t * 4 + u)" using assms by (intro div_nat_eqI) simp_all
  have 4: "?n = ((q * 64 + r * 16 + s) * 64 + (t * 4 + u)) * 64 + v" by simp
  have "(q * 64 + (r * 16 + s)) mod 64 = r * 16 + s" using assms by simp
  moreover have "((q * 64 + r * 16 + s) * 64 + (t * 4 + u)) mod 64 = t * 4 + u"
    unfolding mod_mult_self3 using assms by simp
  moreover have "?n mod 64 = v" unfolding 4 mod_mult_self3 using assms by simp
  ultimately show ?thesis unfolding sextets_def 1 2 3 by simp
qed

lemma sextets_split:
  fixes a b c :: byte
  shows "sextets (join3 a b c) =
    [unat a div 4, unat a mod 4 * 16 + unat b div 16, unat b mod 16 * 4 + unat c div 64, unat c mod 64]"
proof -
  have lt: "unat a < 256" "unat b < 256" "unat c < 256" using unsigned_less [of a] unsigned_less [of b] unsigned_less [of c]
    by simp_all
  have j: "join3 a b c = ((4 * (unat a div 4) + unat a mod 4) * 256 + (16 * (unat b div 16) + unat b mod 16)) * 256
      + (64 * (unat c div 64) + unat c mod 64)"
    by (simp only: join3_def mult_div_mod_eq)
  show ?thesis unfolding j by (rule sextets_parts) (use lt in \<open>auto intro!: less_mult_imp_div_less\<close>)
qed

lemma a2b_step:
  "v < 64 \<Longrightarrow> a2b_base64 pos left pads (b64_char v # cs) =
     map_sum id (\<lambda>rest. fst (emit_bits pos left v) @ rest) (a2b_base64 ((pos + 1) mod 4) (snd (emit_bits pos left v)) 0 cs)"
  by (simp add: b64_value_char split: prod.split)

lemma byte_recombined:
  "of_nat (unat (a :: byte) div 4 * 4 + unat a mod 4) = a"
  "of_nat (unat a div 16 * 16 + unat a mod 16) = a"
  "of_nat (unat a div 64 * 64 + unat a mod 64) = a"
  by simp_all

lemma a2b_quad:
  "a2b_base64 0 l p (quad a b c @ cs) = map_sum id (\<lambda>rest. a # b # c # rest) (a2b_base64 0 0 0 cs)"
proof -
  have lt: "unat a < 256" "unat b < 256" "unat c < 256" using unsigned_less [of a] unsigned_less [of b] unsigned_less [of c]
    by simp_all
  define A B C where "A = unat a" and "B = unat b" and "C = unat c"
  have v: "A div 4 < 64" "A mod 4 * 16 + B div 16 < 64" "B mod 16 * 4 + C div 64 < 64" "C mod 64 < 64"
  proof -
    have "B div 16 < 16" "C div 64 < 4" "A div 4 < 64"
      using lt by (auto simp: A_def B_def C_def intro!: less_mult_imp_div_less)
    moreover have "A mod 4 < 4" "B mod 16 < 16" "C mod 64 < 64" by simp_all
    ultimately show "A div 4 < 64" "A mod 4 * 16 + B div 16 < 64" "B mod 16 * 4 + C div 64 < 64" "C mod 64 < 64"
      by linarith+
  qed
  have "a2b_base64 0 l p (quad a b c @ cs) = map_sum id (\<lambda>rest.
      of_nat (A div 4 * 4 + (A mod 4 * 16 + B div 16) div 16)
      # of_nat ((A mod 4 * 16 + B div 16) mod 16 * 16 + (B mod 16 * 4 + C div 64) div 4)
      # of_nat ((B mod 16 * 4 + C div 64) mod 4 * 64 + C mod 64) # rest) (a2b_base64 0 0 0 cs)"
    unfolding quad_def sextets_split A_def [symmetric] B_def [symmetric] C_def [symmetric]
    by (simp add: a2b_step [OF v(1)] a2b_step [OF v(2)] a2b_step [OF v(3)] a2b_step [OF v(4)] emit_bits_def
        sum.map_comp comp_def id_def del: a2b_base64.simps)
  moreover have "B div 16 < 16" "C div 64 < 4" using lt by (auto simp: B_def C_def intro!: less_mult_imp_div_less)
  ultimately show ?thesis
    by (simp add: A_def B_def C_def byte_recombined del: of_nat_add of_nat_mult of_nat_unat)
      (simp add: byte_recombined del: of_nat_add of_nat_mult)
qed

lemma a2b_tails:
  "a2b_base64 0 l p (take 2 (quad a 0 0) @ ''=='') = Inr [a]"
  "a2b_base64 0 l p (take 3 (quad a b 0) @ ''='') = Inr [a, b]"
proof -
  have lt: "unat a < 256" "unat b < 256" using unsigned_less [of a] unsigned_less [of b] by simp_all
  define A B where "A = unat a" and "B = unat b"
  have v: "A div 4 < 64" "A mod 4 * 16 < 64" "A mod 4 * 16 + B div 16 < 64" "B mod 16 * 4 < 64"
  proof -
    have "B div 16 < 16" "A div 4 < 64"
      using lt by (auto simp: A_def B_def intro!: less_mult_imp_div_less)
    moreover have "A mod 4 < 4" "B mod 16 < 16" by simp_all
    ultimately show "A div 4 < 64" "A mod 4 * 16 < 64" "A mod 4 * 16 + B div 16 < 64" "B mod 16 * 4 < 64"
      by linarith+
  qed
  have e: "a2b_base64 (Suc (Suc 0)) x 0 ''=='' = Inr []" "a2b_base64 2 x 0 ''=='' = Inr []" "a2b_base64 3 x 0 ''='' = Inr []" for x
    by simp_all
  have q: "take 2 (quad a 0 0) = [b64_char (A div 4), b64_char (A mod 4 * 16)]"
    "take 3 (quad a b 0) = [b64_char (A div 4), b64_char (A mod 4 * 16 + B div 16), b64_char (B mod 16 * 4)]"
    by (simp_all add: quad_def sextets_split A_def B_def numeral_2_eq_2 numeral_3_eq_3)
  have "B div 16 < 16" using lt by (auto simp: B_def intro!: less_mult_imp_div_less)
  then show "a2b_base64 0 l p (take 2 (quad a 0 0) @ ''=='') = Inr [a]"
    "a2b_base64 0 l p (take 3 (quad a b 0) @ ''='') = Inr [a, b]"
    using byte_recombined(1) [of a] byte_recombined(2) [of b]
    unfolding q append_Cons append_Nil a2b_step [OF v(1)] a2b_step [OF v(2)] a2b_step [OF v(3)] a2b_step [OF v(4)]
    by (simp_all add: emit_bits_def e A_def B_def del: a2b_base64.simps of_nat_add of_nat_mult)
qed

lemma b64decode_encode: "urlsafe_b64decode (urlsafe_b64encode bs) = Inr bs"
proof -
  have "a2b_base64 0 0 0 (urlsafe_b64encode bs) = Inr bs"
    by (induction bs rule: urlsafe_b64encode.induct) (simp_all add: a2b_quad a2b_tails del: a2b_base64.simps(2))
  then show ?thesis by (simp add: urlsafe_b64decode_def)
qed

section \<open>Sort expressions\<close>

definition sort_text :: "sort_field \<times> sort_direction \<Rightarrow> string" where
  "sort_text r = field_value (fst r) @ '':'' @ direction_value (snd r)"

lemma partition_at_append: "c \<notin> set s \<Longrightarrow> partition_at c (s @ c # t) = (s, [c], t)"
proof -
  assume "c \<notin> set s"
  then have "dropWhile (\<lambda>x. x \<noteq> c) (s @ c # t) = c # t" "takeWhile (\<lambda>x. x \<noteq> c) (s @ c # t) = s"
    by (induction s) auto
  then show ?thesis by (simp add: partition_at_def)
qed

lemma partition_at_join: "partition_at c s = (f, sep, d) \<Longrightarrow> sep \<noteq> [] \<Longrightarrow> s = f @ c # d \<and> sep = [c]"
proof -
  assume p: "partition_at c s = (f, sep, d)" "sep \<noteq> []"
  obtain x xs where d: "dropWhile (\<lambda>x. x \<noteq> c) s = x # xs"
    using p by (cases "dropWhile (\<lambda>x. x \<noteq> c) s") (auto simp: partition_at_def Let_def)
  then have "x = c" using hd_dropWhile [of "\<lambda>x. x \<noteq> c" s] by force
  moreover have "f = takeWhile (\<lambda>x. x \<noteq> c) s" "sep = [x]" "d = xs"
    using p d by (simp_all add: partition_at_def Let_def)
  ultimately show ?thesis using takeWhile_dropWhile_id [of "\<lambda>x. x \<noteq> c" s] d by metis
qed

lemma field_value_facts: "CHR '':'' \<notin> set (field_value f)" "field_value f \<noteq> []" "direction_value d \<noteq> []"
proof -
  show "CHR '':'' \<notin> set (field_value f)" "field_value f \<noteq> []" by (cases f; simp)+
  show "direction_value d \<noteq> []" by (cases d) simp_all
qed

lemma field_of_InrD: "field_of s = Inr f \<Longrightarrow> s = field_value f"
  using find_SomeD [of "\<lambda>f. field_value f = s"] unfolding field_of_def
  by (metis (no_types, lifting) option.case_eq_if option.collapse sum.inject(2) sum.distinct(1))

lemma direction_of_InrD: "direction_of s = Inr d \<Longrightarrow> s = direction_value d"
  using find_SomeD [of "\<lambda>d. direction_value d = s"] unfolding direction_of_def
  by (metis (no_types, lifting) option.case_eq_if option.collapse sum.inject(2) sum.distinct(1))

lemma sort_query_printed: "sort_query (Sort_many (map (\<lambda>r. Item_str (sort_text r)) rs)) = Inr rs"
proof -
  have "parse_items (map (\<lambda>r. Item_str (sort_text r)) rs) = Inr (map (\<lambda>r. (field_value (fst r), direction_value (snd r))) rs)"
    by (induction rs) (simp_all add: sort_text_def partition_at_append field_value_facts)
  moreover have "sort_requests (map (\<lambda>r. (field_value (fst r), direction_value (snd r))) rs) = Inr rs"
    by (induction rs) simp_all
  ultimately show ?thesis by (simp add: sort_query_def parse_sort_def)
qed

lemma sort_query_accepts:
  assumes "parse_items items = Inr parsed" "sort_requests parsed = Inr rs"
  shows "items = map (\<lambda>r. Item_str (sort_text r)) rs"
  using assms
proof (induction items arbitrary: parsed rs rule: parse_items.induct)
  case (3 s items)
  obtain f sep d where p: "partition_at (CHR '':'') s = (f, sep, d)" by (cases "partition_at (CHR '':'') s")
  then obtain parsed' where n: "sep \<noteq> []" "parse_items items = Inr parsed'" "parsed = (f, d) # parsed'"
    using 3(2) by (auto simp: map_sum_def split: if_splits sum.splits)
  then obtain g e rs' where r: "field_of f = Inr g" "direction_of d = Inr e" "sort_requests parsed' = Inr rs'" "rs = (g, e) # rs'"
    using 3(3) by (auto simp: map_sum_def split: sum.splits)
  have ne: "\<not> (sep = [] \<or> f = [] \<or> d = [])" using 3(2) p by (auto split: if_splits)
  have "s = f @ CHR '':'' # d" using partition_at_join [OF p n(1)] by simp
  then have "s = sort_text (g, e)" using field_of_InrD [OF r(1)] direction_of_InrD [OF r(2)] by (simp add: sort_text_def)
  moreover have "items = map (\<lambda>r. Item_str (sort_text r)) rs'"
    using 3(1) [OF p [symmetric] refl refl ne n(2) r(3)] .
  ultimately show ?case using r(4) by simp
qed simp_all

section \<open>Properties\<close>

text \<open>C34: The sort parameters are read exactly: a list of values is accepted with result \<open>rs\<close> if and
  only if it is the list of the texts \<open>field:direction\<close> of \<open>rs\<close>, in that order; an absent
  parameter means newest first.\<close>

theorem sort_expressions_roundtrip:
  "(sort_query (Sort_many items) = Inr rs \<longleftrightarrow> items = map (\<lambda>r. Item_str (sort_text r)) rs)
   \<and> sort_query Sort_none = Inr [(SF_CREATED_AT, DESC)]
   \<and> sort_query (Sort_one item) = sort_query (Sort_many [item])"
proof -
  have "sort_query (Sort_many items) = Inr rs \<Longrightarrow> items = map (\<lambda>r. Item_str (sort_text r)) rs"
    using sort_query_accepts by (auto simp: sort_query_def parse_sort_def split: sum.splits)
  then have "sort_query (Sort_many items) = Inr rs \<longleftrightarrow> items = map (\<lambda>r. Item_str (sort_text r)) rs"
    using sort_query_printed by blast
  moreover have "sort_query Sort_none = Inr [(SF_CREATED_AT, DESC)]"
    by (simp add: sort_query_def parse_sort_def sort_default_def field_of_def direction_of_def)
  ultimately show ?thesis by (simp add: sort_query_def parse_sort_def)
qed

text \<open>A cursor the service hands out is read back as the same cursor, whatever its JSON text is:
  the base64 form of any bytes decodes to these bytes. Here the JSON reader reads what the JSON
  writer wrote.\<close>

lemma cursor_roundtrip:
  assumes "load (utf8 (dump c)) = Inr c"
  shows "parse_cursor load (Some (Item_str (encode_cursor dump c))) = Inr (Some c)
    \<and> urlsafe_b64decode (urlsafe_b64encode bs) = Inr bs"
  using assms by (simp add: parse_cursor_def decode_cursor_def encode_cursor_def b64decode_encode)

lemma cursor_roundtrip_witness:
  "parse_cursor (\<lambda>bs. if bs = utf8 ''{}'' then Inr \<lparr>cu_currency = None, cu_status = None, cu_created_at = None, cu_id = 7\<rparr>
      else Inl ValidationError) (Some (Item_str (encode_cursor (\<lambda>_. ''{}'') \<lparr>cu_currency = None, cu_status = None, cu_created_at = None, cu_id = 7\<rparr>)))
   = Inr (Some \<lparr>cu_currency = None, cu_status = None, cu_created_at = None, cu_id = 7\<rparr>)"
  using cursor_roundtrip [of "\<lambda>bs. if bs = utf8 ''{}'' then Inr \<lparr>cu_currency = None, cu_status = None, cu_created_at = None, cu_id = 7\<rparr>
      else Inl ValidationError" "\<lambda>_. ''{}''" "\<lparr>cu_currency = None, cu_status = None, cu_created_at = None, cu_id = 7\<rparr>" "[]"] by simp

text \<open>A date range passes if an end is missing or the first end is not after the second, and is
  refused as a client error if it is; but if one end has an offset and the other has none, the
  comparison raises \<open>TypeError\<close>, which no validator handles and the client sees as 500.\<close>

lemma date_range_outcomes:
  "validate_datetime_ranges [(lower, upper)] =
    (case (lower, upper) of
       (Some (Naive a), Some (Naive b)) \<Rightarrow> if a > b then Inl ValueError else Inr ()
     | (Some (Aware a), Some (Aware b)) \<Rightarrow> if a > b then Inl ValueError else Inr ()
     | (Some _, Some _) \<Rightarrow> Inl TypeError
     | _ \<Rightarrow> Inr ())"
  by (cases lower; cases upper) (auto split: py_datetime.splits)

end
