(* ===== verification/Listing.thy ===== *)
theory Listing
  imports Queries Version_Tokens Store
begin

text \<open>
  The account listing of \<open>read/repository/account.py\<close>: filters, ordering, keyset pagination. Text
  columns are compared by the collation of the database, a parameter: the locale \<open>collation\<close> states
  what every deterministic collation guarantees.
\<close>

section \<open>Columns and their order\<close>

datatype order_value = OV_text string | OV_num int

locale collation =
  fixes text_less :: "string \<Rightarrow> string \<Rightarrow> bool"
  assumes irreflexive: "\<not> text_less a a"
    and transitive: "text_less a b \<Longrightarrow> text_less b c \<Longrightarrow> text_less a c"
    and total: "a \<noteq> b \<Longrightarrow> text_less a b \<or> text_less b a"

text \<open>The collation \<open>C\<close>: byte by byte.\<close>

fun c_collation :: "string \<Rightarrow> string \<Rightarrow> bool" where
  "c_collation _ [] = False"
| "c_collation [] (y # ys) = True"
| "c_collation (x # xs) (y # ys) =
     (if x = y then c_collation xs ys else (of_char x :: nat) < of_char y)"

fun value_less :: "(string \<Rightarrow> string \<Rightarrow> bool) \<Rightarrow> order_value \<Rightarrow> order_value \<Rightarrow> bool" where
  "value_less text_less (OV_text a) (OV_text b) = text_less a b"
| "value_less text_less (OV_num a) (OV_num b) = (a < b)"
| "value_less text_less (OV_text a) (OV_num b) = True"
| "value_less text_less (OV_num a) (OV_text b) = False"

datatype list_column = Col_field sort_field | Col_id

fun column_value_of :: "list_column \<Rightarrow> customer_account \<Rightarrow> order_value" where
  "column_value_of (Col_field SF_CURRENCY) a = OV_text (a_currency a)"
| "column_value_of (Col_field SF_STATUS) a = OV_text (account_status_value (a_status a))"
| "column_value_of (Col_field SF_CREATED_AT) a = OV_num (a_created_at a)"
| "column_value_of Col_id a = OV_num (uint (a_id a))"

text \<open>\<open>ORDER BY\<close>: lexicographic in the clauses, each ascending or descending.\<close>

type_synonym sort_clauses = "(list_column \<times> sort_direction) list"

fun goes_before :: "(string \<Rightarrow> string \<Rightarrow> bool) \<Rightarrow> sort_clauses \<Rightarrow> customer_account \<Rightarrow> customer_account \<Rightarrow> bool" where
  "goes_before text_less [] a b = False"
| "goes_before text_less ((column, dir) # clauses) a b =
     (let x = column_value_of column a; y = column_value_of column b
      in if x = y then goes_before text_less clauses a b
         else case dir of ASC \<Rightarrow> value_less text_less x y | DESC \<Rightarrow> value_less text_less y x)"

fun place :: "('a \<Rightarrow> 'a \<Rightarrow> bool) \<Rightarrow> 'a \<Rightarrow> 'a list \<Rightarrow> 'a list" where
  "place before x [] = [x]"
| "place before x (y # ys) = (if before y x then y # place before x ys else x # y # ys)"

definition sorted_by :: "('a \<Rightarrow> 'a \<Rightarrow> bool) \<Rightarrow> 'a list \<Rightarrow> 'a list" where
  "sorted_by before xs = foldr (place before) xs []"

section \<open>The cursor condition\<close>

text \<open>\<open>zip(..., strict=True)\<close> raises on lists of different lengths.\<close>

definition build_cursor_condition :: "(string \<Rightarrow> string \<Rightarrow> bool) \<Rightarrow> sort_clauses \<Rightarrow> order_value list
    \<Rightarrow> exc + (customer_account \<Rightarrow> bool)" where
  "build_cursor_condition text_less clauses cursor_values =
     (if length clauses \<noteq> length cursor_values then Inl ValueError
      else Inr (\<lambda>row. list_ex (\<lambda>(index, (column, direction), cursor_value).
             list_all (\<lambda>((preceding_column, _), preceding_value). column_value_of preceding_column row = preceding_value)
               (zip (take index clauses) (take index cursor_values))
             \<and> (case direction of
                  ASC \<Rightarrow> value_less text_less cursor_value (column_value_of column row)
                | DESC \<Rightarrow> value_less text_less (column_value_of column row) cursor_value))
           (enumerate 0 (zip clauses cursor_values))))"

section \<open>Filters\<close>

text \<open>
  \<open>LIKE\<close> with the escape character backslash: \<open>%\<close> matches any text, \<open>_\<close> any character, an escaped
  character itself. \<open>ILIKE\<close> folds the case of both sides first; the folding is the database's.
\<close>

fun like_match :: "string \<Rightarrow> string \<Rightarrow> bool" where
  "like_match [] s = (s = [])"
| "like_match (p # ps) [] = (p = CHR ''%'' \<and> like_match ps [])"
| "like_match (p # ps) (c # s) =
     (if p = CHR ''%'' then like_match ps (c # s) \<or> like_match (p # ps) s
      else if p = CHR ''_'' then like_match ps s
      else if p = CHR 0x5C then (case ps of [] \<Rightarrow> False | q # qs \<Rightarrow> q = c \<and> like_match qs s)
      else p = c \<and> like_match ps s)"

definition escape_like :: "string \<Rightarrow> string" where
  "escape_like name = concat (map (\<lambda>c. if c = CHR 0x5C \<or> c = CHR ''%'' \<or> c = CHR ''_'' then [CHR 0x5C, c] else [c]) name)"

definition ilike :: "(char \<Rightarrow> char) \<Rightarrow> string option \<Rightarrow> string \<Rightarrow> bool" where
  "ilike fold_case column pattern = (case column of
     None \<Rightarrow> False | Some s \<Rightarrow> like_match (map fold_case pattern) (map fold_case s))"

record list_query =
  lq_sort :: "(sort_field \<times> sort_direction) list"
  lq_cursor :: "account_cursor option"
  lq_count :: "int option"
  lq_name :: "string option"
  lq_currency :: "string option"
  lq_status :: "customer_account_status option"
  lq_created_at_from :: "py_datetime option"
  lq_created_at_to :: "py_datetime option"

definition list_query_valid :: "list_query \<Rightarrow> bool" where
  "list_query_valid q \<longleftrightarrow> (case lq_count q of None \<Rightarrow> True | Some n \<Rightarrow> 1 \<le> n \<and> n \<le> 100)"

text \<open>What the listing depends on outside the code: collation, case folding, the server's zone.\<close>

record list_env =
  le_text_less :: "string \<Rightarrow> string \<Rightarrow> bool"
  le_fold_case :: "char \<Rightarrow> char"
  le_local :: "int \<Rightarrow> timestamp"
  le_secret :: string

definition matches_filters :: "list_env \<Rightarrow> list_query \<Rightarrow> customer_account \<Rightarrow> bool" where
  "matches_filters env q a \<longleftrightarrow>
     (case lq_name q of None \<Rightarrow> True | Some n \<Rightarrow> ilike (le_fold_case env) (a_name a) (''%'' @ escape_like n @ ''%''))
     \<and> (case lq_currency q of None \<Rightarrow> True | Some c \<Rightarrow> a_currency a = c)
     \<and> (case lq_status q of None \<Rightarrow> True | Some s \<Rightarrow> a_status a = s)
     \<and> (case lq_created_at_from q of None \<Rightarrow> True | Some t \<Rightarrow> a_created_at a \<ge> instant (le_local env) t)
     \<and> (case lq_created_at_to q of None \<Rightarrow> True | Some t \<Rightarrow> a_created_at a < instant (le_local env) t)"

section \<open>The listing\<close>

record account_display =
  ad_id :: uuid
  ad_customer_id :: uuid
  ad_currency :: currency
  ad_name :: "string option"
  ad_status :: customer_account_status
  ad_created_at :: timestamp
  ad_updated_at :: timestamp
  ad_updated_by :: uuid
  ad_version :: string

definition currency_of :: "string \<Rightarrow> exc + currency" where
  "currency_of s = (case find (\<lambda>c. currency_value c = s) [USD, EUR, GBP, UAH, JPY] of
     None \<Rightarrow> Inl ValidationError | Some c \<Rightarrow> Inr c)"

definition display_of :: "string \<Rightarrow> customer_account \<Rightarrow> exc + account_display" where
  "display_of secret a = (case currency_of (a_currency a) of
     Inl e \<Rightarrow> Inl e
   | Inr c \<Rightarrow> Inr \<lparr>ad_id = a_id a, ad_customer_id = a_customer_id a, ad_currency = c, ad_name = a_name a,
       ad_status = a_status a, ad_created_at = a_created_at a, ad_updated_at = a_updated_at a,
       ad_updated_by = a_updated_by a, ad_version = issue secret (a_id a) (a_version a)\<rparr>)"

fun map_all :: "('a \<Rightarrow> exc + 'b) \<Rightarrow> 'a list \<Rightarrow> exc + 'b list" where
  "map_all f [] = Inr []"
| "map_all f (x # xs) = (case f x of Inl e \<Rightarrow> Inl e | Inr y \<Rightarrow> map_sum id (\<lambda>ys. y # ys) (map_all f xs))"

text \<open>\<open>cursor_values_by_field[field_name]\<close>: the value of a sort field in the cursor, if it has one.\<close>

definition cursor_field :: "list_env \<Rightarrow> account_cursor option \<Rightarrow> sort_field \<Rightarrow> order_value option" where
  "cursor_field env cursor f = (case cursor of
     None \<Rightarrow> None
   | Some c \<Rightarrow> (case f of
        SF_CURRENCY \<Rightarrow> map_option (\<lambda>x. OV_text (currency_value x)) (cu_currency c)
      | SF_STATUS \<Rightarrow> map_option (\<lambda>x. OV_text (account_status_value x)) (cu_status c)
      | SF_CREATED_AT \<Rightarrow> map_option (\<lambda>t. OV_num (instant (le_local env) t)) (cu_created_at c)))"

text \<open>The loop over the sort requests: \<open>(cursor_accepted, cursor_ordering, cursor_values)\<close>.\<close>

fun scan_sort :: "list_env \<Rightarrow> account_cursor option \<Rightarrow> (sort_field \<times> sort_direction) list
    \<Rightarrow> bool \<times> sort_clauses \<times> order_value list \<Rightarrow> bool \<times> sort_clauses \<times> order_value list" where
  "scan_sort env cursor [] s = s"
| "scan_sort env cursor ((f, dir) # requests) (accepted, clauses, vals) =
     (case cursor_field env cursor f of
        None \<Rightarrow> scan_sort env cursor requests (False, clauses, vals)
      | Some v \<Rightarrow> scan_sort env cursor requests (accepted, clauses @ [(Col_field f, dir)], vals @ [v]))"

definition order_clauses :: "list_query \<Rightarrow> sort_clauses" where
  "order_clauses q = map (\<lambda>(f, dir). (Col_field f, dir)) (lq_sort q) @ [(Col_id, DESC)]"

definition list_limit :: "list_query \<Rightarrow> int" where
  "list_limit q = (case lq_count q of None \<Rightarrow> 20 | Some n \<Rightarrow> if n = 0 then 20 else n)"

definition cursor_filter :: "list_env \<Rightarrow> list_query \<Rightarrow> exc + (customer_account \<Rightarrow> bool)" where
  "cursor_filter env q =
     (let (accepted, clauses, vals) = scan_sort env (lq_cursor q) (lq_sort q) (True, [], [])
      in case lq_cursor q of
           None \<Rightarrow> Inr (\<lambda>_. True)
         | Some c \<Rightarrow>
             if accepted
             then build_cursor_condition (le_text_less env) (clauses @ [(Col_id, DESC)]) (vals @ [OV_num (uint (cu_id c))])
             else Inr (\<lambda>_. True))"

definition next_cursor_of :: "list_query \<Rightarrow> account_display \<Rightarrow> account_cursor" where
  "next_cursor_of q row =
     (let sort_fields = map fst (lq_sort q)
      in \<lparr>cu_currency = (if SF_CURRENCY \<in> set sort_fields then Some (ad_currency row) else None),
          cu_status = (if SF_STATUS \<in> set sort_fields then Some (ad_status row) else None),
          cu_created_at = (if SF_CREATED_AT \<in> set sort_fields then Some (Aware (ad_created_at row)) else None),
          cu_id = ad_id row\<rparr>)"

definition list_all_accounts :: "list_env \<Rightarrow> list_query \<Rightarrow> db \<Rightarrow> exc + account_display list \<times> account_cursor option" where
  "list_all_accounts env q d =
     (case cursor_filter env q of
        Inl e \<Rightarrow> Inl e
      | Inr after \<Rightarrow>
          let rows = sql_limit (list_limit q)
                (sorted_by (goes_before (le_text_less env) (order_clauses q))
                  (filter (\<lambda>a. after a \<and> matches_filters env q a) (accounts d)))
          in case map_all (display_of (le_secret env)) rows of
               Inl e \<Rightarrow> Inl e
             | Inr mapped \<Rightarrow>
                 Inr (mapped, if int (length mapped) = list_limit q then Some (next_cursor_of q (last mapped)) else None))"

text \<open>The endpoint: the page and the text of the next cursor.\<close>

definition get_accounts :: "list_env \<Rightarrow> (account_cursor \<Rightarrow> string) \<Rightarrow> list_query \<Rightarrow> db
    \<Rightarrow> exc + account_display list \<times> string option" where
  "get_accounts env dump q d =
     map_sum id (\<lambda>(rows, cursor). (rows, map_option (encode_cursor dump) cursor)) (list_all_accounts env q d)"

end
