(* ===== verification/Listing_Properties.thy ===== *)
theory Listing_Properties
  imports Listing "HOL-Library.Sublist"
begin

text \<open>
  The listing is correct: the condition a cursor adds is the strict order of the listing, so that
  following the cursors delivers every matching account exactly once, in order, and comes to an end;
  and a name is searched literally.
\<close>

section \<open>Sorting by a strict order\<close>

locale strict_order =
  fixes before :: "'a \<Rightarrow> 'a \<Rightarrow> bool"
  assumes before_irrefl: "\<not> before a a"
    and before_trans: "before a b \<Longrightarrow> before b c \<Longrightarrow> before a c"
begin

lemma set_place: "set (place before x xs) = insert x (set xs)"
  by (induction xs) auto

lemma set_sorted_by: "set (sorted_by before xs) = set xs"
  by (induction xs) (simp_all add: sorted_by_def set_place)

lemma place_sorted:
  assumes "sorted_wrt before xs" "x \<notin> set xs" "\<forall>y \<in> set xs. before x y \<or> before y x"
  shows "sorted_wrt before (place before x xs)"
  using assms
proof (induction xs)
  case (Cons y ys)
  show ?case
  proof (cases "before y x")
    case True
    with Cons show ?thesis by (auto simp: set_place)
  next
    case False
    then have xy: "before x y" using Cons.prems(3) by auto
    then have "before x z" if "z \<in> set ys" for z using before_trans Cons.prems(1) that by auto
    with False xy Cons.prems(1) show ?thesis by simp
  qed
qed simp

lemma sorted_by_sorted:
  assumes "distinct xs" "\<And>x y. x \<in> set xs \<Longrightarrow> y \<in> set xs \<Longrightarrow> x \<noteq> y \<Longrightarrow> before x y \<or> before y x"
  shows "sorted_wrt before (sorted_by before xs)"
  using assms
proof (induction xs)
  case (Cons x xs)
  have "sorted_wrt before (sorted_by before xs)" using Cons by simp
  moreover have "x \<notin> set (sorted_by before xs)" using Cons.prems(1) by (simp add: set_sorted_by)
  moreover have "\<forall>y \<in> set (sorted_by before xs). before x y \<or> before y x"
    using Cons.prems by (metis distinct.simps(2) list.set_intros(1,2) set_sorted_by)
  ultimately show ?case using place_sorted by (simp add: sorted_by_def)
qed (simp add: sorted_by_def)

lemma sorted_distinct: "sorted_wrt before xs \<Longrightarrow> distinct xs"
  using before_irrefl by (induction xs) auto

lemma sorted_unique: "sorted_wrt before xs \<Longrightarrow> sorted_wrt before ys \<Longrightarrow> set xs = set ys \<Longrightarrow> xs = ys"
proof (induction xs arbitrary: ys)
  case (Cons x xs)
  then obtain y ys' where ys: "ys = y # ys'" by (cases ys) auto
  have "x = y"
  proof (rule ccontr)
    assume ne: "x \<noteq> y"
    have "before y x" using Cons.prems(2,3) ne ys by (metis list.set_intros(1) set_ConsD sorted_wrt.simps(2))
    moreover have "before x y" using Cons.prems(1,3) ne ys by (metis list.set_intros(1) set_ConsD sorted_wrt.simps(2))
    ultimately show False using before_trans before_irrefl by blast
  qed
  have "x \<notin> set xs" "y \<notin> set ys'"
    using sorted_distinct [OF Cons.prems(1)] sorted_distinct [OF Cons.prems(2)] ys by simp_all
  then have "set xs = set ys'" using Cons.prems(3) ys \<open>x = y\<close> by auto
  then show ?case using Cons ys \<open>x = y\<close> by auto
qed simp

lemma filter_before:
  assumes "sorted_wrt before (xs @ r # ys)"
  shows "filter (before r) (xs @ r # ys) = ys"
proof -
  have "\<not> before r x" if "x \<in> set xs" for x
  proof
    assume "before r x"
    moreover have "before x r" using assms that by (simp add: sorted_wrt_append)
    ultimately show False using before_trans before_irrefl by blast
  qed
  then have "filter (before r) xs = []" by (simp add: filter_empty_conv)
  moreover have "filter (before r) ys = ys" using assms by (simp add: filter_id_conv sorted_wrt_append)
  ultimately show ?thesis using before_irrefl by simp
qed

end

section \<open>The order of the listing\<close>

context collation
begin

lemma value_irrefl: "\<not> value_less text_less x x"
  by (cases x) (simp_all add: irreflexive)

lemma value_trans: "value_less text_less x y \<Longrightarrow> value_less text_less y z \<Longrightarrow> value_less text_less x z"
  by (cases x; cases y; cases z) (auto intro: transitive)

lemma value_total: "x \<noteq> y \<Longrightarrow> value_less text_less x y \<or> value_less text_less y x"
  using total by (cases x; cases y) auto

lemma goes_irrefl: "\<not> goes_before text_less clauses a a"
  by (induction clauses) auto

lemma goes_trans:
  "goes_before text_less clauses a b \<Longrightarrow> goes_before text_less clauses b c \<Longrightarrow> goes_before text_less clauses a c"
proof (induction clauses)
  case (Cons clause clauses)
  obtain col dir where c: "clause = (col, dir)" by (cases clause)
  let ?v = "column_value_of col"
  have neq: "?v a \<noteq> ?v c" if "value_less text_less (?v a) (?v b)" "value_less text_less (?v b) (?v c)"
    using that value_trans value_irrefl by metis
  have neq': "?v a \<noteq> ?v c" if "value_less text_less (?v b) (?v a)" "value_less text_less (?v c) (?v b)"
    using that value_trans value_irrefl by metis
  show ?case
  proof (cases dir)
    case ASC
    with Cons show ?thesis
      using neq value_trans [of "?v a" "?v b" "?v c"] by (auto simp: c Let_def split: if_splits)
  next
    case DESC
    with Cons show ?thesis
      using neq' value_trans [of "?v c" "?v b" "?v a"] by (auto simp: c Let_def split: if_splits)
  qed
qed simp

lemma goes_total:
  assumes "(Col_id, DESC) \<in> set clauses" "a_id a \<noteq> a_id b"
  shows "goes_before text_less clauses a b \<or> goes_before text_less clauses b a"
  using assms(1)
proof (induction clauses)
  case (Cons clause clauses)
  obtain col dir where c: "clause = (col, dir)" by (cases clause)
  show ?case
  proof (cases "column_value_of col a = column_value_of col b")
    case True
    have "col \<noteq> Col_id" using True assms(2) by (auto simp: word_uint_eq_iff)
    then show ?thesis using Cons c True by simp
  next
    case False
    then show ?thesis
      using value_total [OF False] by (cases dir) (auto simp: c Let_def)
  qed
qed simp

end

sublocale collation \<subseteq> strict_order "goes_before text_less clauses" for clauses
  by unfold_locales (rule goes_irrefl, rule goes_trans)

lemma c_collation_total: "a \<noteq> b \<Longrightarrow> c_collation a b \<or> c_collation b a"
proof (induction a b rule: c_collation.induct)
  case (3 x xs y ys)
  have "x \<noteq> y \<Longrightarrow> (of_char x :: nat) < of_char y \<or> (of_char y :: nat) < of_char x"
    by (metis linorder_neqE_nat of_char_eq_iff)
  with 3 show ?case by auto
qed (auto simp: neq_Nil_conv)

lemma c_collation_trans: "c_collation a b \<Longrightarrow> c_collation b c \<Longrightarrow> c_collation a c"
proof (induction a b arbitrary: c rule: c_collation.induct)
  case (2 y ys)
  then show ?case by (cases c) auto
next
  case (3 x xs y ys)
  then show ?case by (cases c) (auto split: if_splits)
qed simp

interpretation byte_order: collation c_collation
proof
  show "\<not> c_collation a a" for a by (induction a) simp_all
qed (use c_collation_total c_collation_trans in blast)+

section \<open>The cursor condition\<close>

text \<open>The condition by recursion over the clauses.\<close>

fun after_values :: "(string \<Rightarrow> string \<Rightarrow> bool) \<Rightarrow> sort_clauses \<Rightarrow> order_value list \<Rightarrow> customer_account \<Rightarrow> bool" where
  "after_values text_less ((column, dir) # clauses) (v # vs) row =
     ((case dir of ASC \<Rightarrow> value_less text_less v (column_value_of column row)
        | DESC \<Rightarrow> value_less text_less (column_value_of column row) v)
      \<or> column_value_of column row = v \<and> after_values text_less clauses vs row)"
| "after_values text_less _ _ row = False"

lemma ex_enumerate: "list_ex P (enumerate 0 xs) \<longleftrightarrow> (\<exists>i < length xs. P (i, xs ! i))"
  by (auto simp: list_ex_iff in_set_enumerate_eq)

lemma all_zip_take:
  assumes "length cs = length vs" "i \<le> length cs"
  shows "list_all P (zip (take i cs) (take i vs)) \<longleftrightarrow> (\<forall>j < i. P (cs ! j, vs ! j))"
  using assms by (auto simp: list_all_length)

definition passes :: "(string \<Rightarrow> string \<Rightarrow> bool) \<Rightarrow> list_column \<times> sort_direction \<Rightarrow> order_value \<Rightarrow> customer_account \<Rightarrow> bool" where
  "passes text_less clause v row = (case snd clause of
      ASC \<Rightarrow> value_less text_less v (column_value_of (fst clause) row)
    | DESC \<Rightarrow> value_less text_less (column_value_of (fst clause) row) v)"

lemma after_values_Cons:
  "after_values text_less (c # cs) (v # vs) row \<longleftrightarrow>
     passes text_less c v row \<or> column_value_of (fst c) row = v \<and> after_values text_less cs vs row"
  by (cases c) (simp add: passes_def split: sort_direction.split)

lemma after_values_iff:
  "length clauses = length vals \<Longrightarrow> after_values text_less clauses vals row \<longleftrightarrow>
     (\<exists>i < length clauses. (\<forall>j < i. column_value_of (fst (clauses ! j)) row = vals ! j)
        \<and> passes text_less (clauses ! i) (vals ! i) row)"
proof (induction clauses vals rule: list_induct2)
  case (Cons c cs v vs)
  then show ?case
    by (simp add: after_values_Cons Ex_less_Suc2 All_less_Suc2 conj_assoc del: after_values.simps) blast
qed simp

lemma build_cursor_condition_eq:
  assumes "length clauses = length vals"
  shows "build_cursor_condition text_less clauses vals = Inr (after_values text_less clauses vals)"
proof -
  let ?alt = "\<lambda>row (index, (column, direction), cursor_value).
             list_all (\<lambda>((preceding_column, _), preceding_value). column_value_of preceding_column row = preceding_value)
               (zip (take index clauses) (take index vals))
             \<and> (case direction of
                  ASC \<Rightarrow> value_less text_less cursor_value (column_value_of column row)
                | DESC \<Rightarrow> value_less text_less (column_value_of column row) cursor_value)"
  have "list_ex (?alt row) (enumerate 0 (zip clauses vals)) = after_values text_less clauses vals row" for row
  proof -
    have alt: "?alt row (i, zip clauses vals ! i) \<longleftrightarrow> (\<forall>j < i. column_value_of (fst (clauses ! j)) row = vals ! j)
        \<and> passes text_less (clauses ! i) (vals ! i) row" if "i < length clauses" for i
      using that assms all_zip_take [OF assms, of i] by (auto simp: passes_def split_beta)
    show ?thesis
      unfolding ex_enumerate after_values_iff [OF assms]
      by (intro ex_cong1 conj_cong alt) (simp_all add: assms)
  qed
  then show ?thesis using assms by (simp add: build_cursor_condition_def fun_eq_iff)
qed

context collation
begin

lemma after_values_order:
  "after_values text_less clauses (map (\<lambda>c. column_value_of (fst c) r) clauses) row = goes_before text_less clauses r row"
proof (induction clauses)
  case (Cons c clauses)
  then show ?case
    using value_irrefl by (cases c) (auto simp: Let_def split: sort_direction.split)
qed simp

end

section \<open>What a cursor selects\<close>

lemma currency_of_InrD: "currency_of s = Inr c \<Longrightarrow> s = currency_value c"
  using find_SomeD [of "\<lambda>c. currency_value c = s"] unfolding currency_of_def
  by (metis (no_types, lifting) option.case_eq_if option.collapse sum.inject(2) sum.distinct(1))

lemma currency_of_value [simp]: "currency_of (currency_value c) = Inr c"
  by (cases c) (simp_all add: currency_of_def)

lemma display_of_InrD:
  assumes "display_of secret a = Inr x"
  shows "currency_value (ad_currency x) = a_currency a" "ad_status x = a_status a" "ad_created_at x = a_created_at a"
    "ad_id x = a_id a"
  using assms by (auto simp: display_of_def split: sum.splits dest: currency_of_InrD)

lemma cursor_field_issued:
  assumes "display_of secret r = Inr x" "f \<in> fst ` set (lq_sort q)"
  shows "cursor_field env (Some (next_cursor_of q x)) f = Some (column_value_of (Col_field f) r)"
  using assms(2) display_of_InrD [OF assms(1)]
  by (cases f) (auto simp: cursor_field_def next_cursor_of_def Let_def)

lemma scan_sort_issued:
  assumes "display_of secret r = Inr x" "fst ` set requests \<subseteq> fst ` set (lq_sort q)"
  shows "scan_sort env (Some (next_cursor_of q x)) requests (ok, cs, vs) =
    (ok, cs @ map (\<lambda>(f, dir). (Col_field f, dir)) requests, vs @ map (\<lambda>(f, dir). column_value_of (Col_field f) r) requests)"
  using assms(2)
proof (induction requests arbitrary: cs vs)
  case (Cons p requests)
  obtain f dir where p: "p = (f, dir)" by (cases p)
  have "cursor_field env (Some (next_cursor_of q x)) f = Some (column_value_of (Col_field f) r)"
    by (rule cursor_field_issued [OF assms(1)]) (use Cons.prems p in force)
  then show ?case using Cons p by simp
qed simp

context collation
begin

lemma cursor_filter_issued:
  assumes "le_text_less env = text_less" "display_of secret r = Inr x" "lq_cursor q = Some (next_cursor_of q' x)" "lq_sort q' = lq_sort q"
  shows "cursor_filter env q = Inr (goes_before text_less (order_clauses q) r)"
proof -
  have n: "next_cursor_of q' x = next_cursor_of q x" by (simp add: next_cursor_of_def assms(4))
  let ?cs = "map (\<lambda>(f, dir). (Col_field f, dir)) (lq_sort q)"
  have v: "map (\<lambda>(f, dir). column_value_of (Col_field f) r) (lq_sort q) @ [OV_num (uint (cu_id (next_cursor_of q x)))]
      = map (\<lambda>c. column_value_of (fst c) r) (order_clauses q)"
    using display_of_InrD(4) [OF assms(2)] by (auto simp: order_clauses_def next_cursor_of_def Let_def)
  have "cursor_filter env q = build_cursor_condition text_less (order_clauses q) (map (\<lambda>c. column_value_of (fst c) r) (order_clauses q))"
    unfolding v [symmetric]
    using scan_sort_issued [OF assms(2), of "lq_sort q" q env True "[]" "[]"] assms(1,3)
    by (simp add: cursor_filter_def n order_clauses_def)
  also have "\<dots> = Inr (after_values text_less (order_clauses q) (map (\<lambda>c. column_value_of (fst c) r) (order_clauses q)))"
    by (rule build_cursor_condition_eq) simp
  finally show ?thesis by (simp add: after_values_order fun_eq_iff)
qed

end

text \<open>The rows of a query without its cursor, in order.\<close>

definition listed :: "list_env \<Rightarrow> list_query \<Rightarrow> db \<Rightarrow> customer_account list" where
  "listed env q d = sorted_by (goes_before (le_text_less env) (order_clauses q)) (filter (matches_filters env q) (accounts d))"

lemma without_cursor [simp]:
  "matches_filters env (q\<lparr>lq_cursor := c\<rparr>) = matches_filters env q" "order_clauses (q\<lparr>lq_cursor := c\<rparr>) = order_clauses q"
  "list_limit (q\<lparr>lq_cursor := c\<rparr>) = list_limit q" "next_cursor_of (q\<lparr>lq_cursor := c\<rparr>) = next_cursor_of q"
  by (simp_all add: matches_filters_def order_clauses_def list_limit_def next_cursor_of_def fun_eq_iff)

lemma map_all_Inr_iff: "map_all f xs = Inr ys \<longleftrightarrow> list_all2 (\<lambda>x y. f x = Inr y) xs ys"
proof (induction xs arbitrary: ys)
  case (Cons x xs)
  show ?case
  proof (cases "f x")
    case (Inr y)
    show ?thesis
    proof (cases "map_all f xs")
      case (Inl e)
      then have "\<not> list_all2 (\<lambda>x y. f x = Inr y) xs zs" for zs using Cons [of zs] by simp
      then show ?thesis using Inr Inl by (auto simp: list_all2_Cons1)
    next
      case (Inr zs)
      then have "list_all2 (\<lambda>x y. f x = Inr y) xs ws \<longleftrightarrow> ws = zs" for ws using Cons [of ws] by auto
      then show ?thesis using Inr \<open>f x = Inr y\<close> by (auto simp: list_all2_Cons1)
    qed
  qed (auto simp: list_all2_Cons1)
qed auto

lemma list_limit_pos: "list_query_valid q \<Longrightarrow> 1 \<le> list_limit q"
  by (auto simp: list_query_valid_def list_limit_def split: option.splits)

context collation
begin

lemma distinct_matching: "db_ok d \<Longrightarrow> distinct (filter P (accounts d))"
  using db_okD(2) [of d] by (simp add: distinct_map)

lemma matching_total:
  assumes "db_ok d" "a \<in> set (filter P (accounts d))" "b \<in> set (filter P (accounts d))" "a \<noteq> b"
  shows "goes_before text_less (order_clauses q) a b \<or> goes_before text_less (order_clauses q) b a"
proof -
  have "a_id a \<noteq> a_id b" using assms db_okD(2) [OF assms(1)] by (auto simp: distinct_map dest: inj_onD)
  then show ?thesis by (intro goes_total) (simp_all add: order_clauses_def)
qed

lemma listed_sorted:
  assumes "db_ok d" "le_text_less env = text_less"
  shows "sorted_wrt (goes_before text_less (order_clauses q)) (listed env q d)"
    "set (listed env q d) = {a \<in> set (accounts d). matches_filters env q a}"
  unfolding listed_def assms(2)
  using sorted_by_sorted [OF distinct_matching [OF assms(1)] matching_total [OF assms(1)]]
  by (auto simp: set_sorted_by)

lemma listed_distinct: "db_ok d \<Longrightarrow> le_text_less env = text_less \<Longrightarrow> distinct (listed env q d)"
  by (rule sorted_distinct [OF listed_sorted(1)])

lemma sorted_after:
  assumes "db_ok d" "le_text_less env = text_less"
  shows "sorted_by (goes_before text_less (order_clauses q))
      (filter (\<lambda>a. goes_before text_less (order_clauses q) r a \<and> matches_filters env q a) (accounts d))
    = filter (goes_before text_less (order_clauses q) r) (listed env q d)"
proof (rule sorted_unique)
  show "sorted_wrt (goes_before text_less (order_clauses q)) (sorted_by (goes_before text_less (order_clauses q))
      (filter (\<lambda>a. goes_before text_less (order_clauses q) r a \<and> matches_filters env q a) (accounts d)))"
    by (rule sorted_by_sorted [OF distinct_matching [OF assms(1)] matching_total [OF assms(1)]])
  show "sorted_wrt (goes_before text_less (order_clauses q)) (filter (goes_before text_less (order_clauses q) r) (listed env q d))"
    by (rule sorted_wrt_filter [OF listed_sorted(1) [OF assms]])
qed (use listed_sorted(2) [OF assms] in \<open>auto simp: set_sorted_by\<close>)

lemma page_of_rows:
  assumes "cursor_filter env q = Inr after" "le_text_less env = text_less"
    and "sorted_by (goes_before text_less (order_clauses q)) (filter (\<lambda>a. after a \<and> matches_filters env q a) (accounts d)) = ys"
    and "list_all2 (\<lambda>a x. display_of (le_secret env) a = Inr x) ys vs"
  shows "list_all_accounts env q d = (let page = take (nat (list_limit q)) vs
    in Inr (page, if int (length page) = list_limit q then Some (next_cursor_of q (last page)) else None))"
proof -
  have "map_all (display_of (le_secret env)) (take (nat (list_limit q)) ys) = Inr (take (nat (list_limit q)) vs)"
    unfolding map_all_Inr_iff by (rule list_all2_takeI [OF assms(4)])
  then show ?thesis
    unfolding list_all_accounts_def assms(1-3) by (simp add: sql_limit_def Let_def assms)
qed

text \<open>The page a cursor asks for, whatever the database holds by then.\<close>

lemma page_after_cursor:
  assumes "db_ok d" "le_text_less env = text_less" "display_of (le_secret env) r = Inr x"
    and "list_all2 (\<lambda>a x. display_of (le_secret env) a = Inr x) (filter (goes_before text_less (order_clauses q) r) (listed env q d)) vs"
  shows "list_all_accounts env (q\<lparr>lq_cursor := Some (next_cursor_of q x)\<rparr>) d = (let page = take (nat (list_limit q)) vs
    in Inr (page, if int (length page) = list_limit q then Some (next_cursor_of q (last page)) else None))"
proof -
  let ?q = "q\<lparr>lq_cursor := Some (next_cursor_of q x)\<rparr>"
  have f: "cursor_filter env ?q = Inr (goes_before text_less (order_clauses ?q) r)"
    by (rule cursor_filter_issued [OF assms(2,3)]) simp_all
  show ?thesis
    using page_of_rows [OF f assms(2) _ assms(4)] sorted_after [OF assms(1,2), of q r] by (simp add: Let_def)
qed

lemma first_page:
  assumes "le_text_less env = text_less" "list_all2 (\<lambda>a x. display_of (le_secret env) a = Inr x) (listed env q d) vs"
  shows "list_all_accounts env (q\<lparr>lq_cursor := None\<rparr>) d = (let page = take (nat (list_limit q)) vs
    in Inr (page, if int (length page) = list_limit q then Some (next_cursor_of q (last page)) else None))"
proof -
  have "cursor_filter env (q\<lparr>lq_cursor := None\<rparr>) = Inr (\<lambda>_. True)"
    by (simp add: cursor_filter_def split: prod.split)
  from page_of_rows [OF this assms(1) _ assms(2)] show ?thesis by (simp add: listed_def assms(1) Let_def)
qed

end

section \<open>Following the cursors\<close>

text \<open>A client that asks for pages until there is no next cursor, at most \<open>n\<close> times.\<close>

fun follow_pages :: "nat \<Rightarrow> (account_cursor option \<Rightarrow> exc + account_display list \<times> account_cursor option)
    \<Rightarrow> account_cursor option \<Rightarrow> (exc + account_display list list) option" where
  "follow_pages 0 fetch c = None"
| "follow_pages (Suc n) fetch c = (case fetch c of
      Inl e \<Rightarrow> Some (Inl e)
    | Inr (rows, None) \<Rightarrow> Some (Inr [rows])
    | Inr (rows, Some c') \<Rightarrow> map_option (map_sum id (\<lambda>pages. rows # pages)) (follow_pages n fetch (Some c')))"

context collation
begin

lemma fetch_after:
  assumes "db_ok d" "le_text_less env = text_less"
    and "list_all2 (\<lambda>a x. display_of (le_secret env) a = Inr x) (listed env q d) (us @ vs)"
  shows "list_all_accounts env (q\<lparr>lq_cursor := if us = [] then None else Some (next_cursor_of q (last us))\<rparr>) d
    = Inr (take (nat (list_limit q)) vs, if int (length (take (nat (list_limit q)) vs)) = list_limit q
        then Some (next_cursor_of q (last (take (nat (list_limit q)) vs))) else None)"
proof (cases "us = []")
  case True
  then show ?thesis using first_page [OF assms(2)] assms(3) by (simp add: Let_def)
next
  case False
  obtain xs ys where xy: "listed env q d = xs @ ys" "length xs = length us"
    "list_all2 (\<lambda>a x. display_of (le_secret env) a = Inr x) xs us" "list_all2 (\<lambda>a x. display_of (le_secret env) a = Inr x) ys vs"
    using assms(3) by (auto simp: list_all2_append2)
  then have "xs \<noteq> []" using False by auto
  then obtain xs' r where xs: "xs = xs' @ [r]" by (metis append_butlast_last_id)
  have r: "display_of (le_secret env) r = Inr (last us)"
  proof -
    obtain us' u where us: "us = us' @ [u]" using False by (metis append_butlast_last_id)
    then have "length xs' = length us'" using xy(2) xs by simp
    then show ?thesis using xy(3) us xs by (simp add: list_all2_append)
  qed
  have "filter (goes_before text_less (order_clauses q) r) (listed env q d) = ys"
    using filter_before listed_sorted(1) [OF assms(1,2), of q] xy(1) xs by simp
  with page_after_cursor [OF assms(1,2) r, of q vs] xy(4) False
  show ?thesis by (simp add: Let_def)
qed

lemma follow_from:
  assumes "db_ok d" "le_text_less env = text_less" "1 \<le> list_limit q"
    and "list_all2 (\<lambda>a x. display_of (le_secret env) a = Inr x) (listed env q d) (us @ vs)"
    and "c = (if us = [] then None else Some (next_cursor_of q (last us)))" "length vs < n"
  shows "\<exists>pages. follow_pages n (\<lambda>c. list_all_accounts env (q\<lparr>lq_cursor := c\<rparr>) d) c = Some (Inr pages)
    \<and> concat pages = vs \<and> pages \<noteq> [] \<and> (\<forall>p \<in> set (butlast pages). int (length p) = list_limit q)
    \<and> int (length (last pages)) < list_limit q"
  using assms(4-6)
proof (induction n arbitrary: us vs c)
  case (Suc n)
  let ?page = "take (nat (list_limit q)) vs"
  note fetch = fetch_after [OF assms(1,2) Suc.prems(1), folded Suc.prems(2)]
  show ?case
  proof (cases "int (length ?page) = list_limit q")
    case False
    then have "length vs < nat (list_limit q)" using assms(3) by auto
    then show ?thesis using False fetch by (intro exI [of _ "[vs]"]) auto
  next
    case True
    then have page: "?page \<noteq> []" "nat (list_limit q) \<le> length vs" using assms(3) by auto
    let ?rest = "drop (nat (list_limit q)) vs"
    have "length ?rest < n" using Suc.prems(3) page(2) assms(3) by simp
    moreover have "us @ vs = (us @ ?page) @ ?rest" by simp
    ultimately obtain pages where
      ih: "follow_pages n (\<lambda>c. list_all_accounts env (q\<lparr>lq_cursor := c\<rparr>) d) (Some (next_cursor_of q (last ?page))) = Some (Inr pages)"
        "concat pages = ?rest" "pages \<noteq> []" "\<forall>p \<in> set (butlast pages). int (length p) = list_limit q"
        "int (length (last pages)) < list_limit q"
      using Suc.IH [of "us @ ?page" ?rest "Some (next_cursor_of q (last ?page))"] Suc.prems(1) page(1) by auto
    then show ?thesis
      using fetch True by (intro exI [of _ "?page # pages"]) auto
  qed
qed simp

end

section \<open>Searching a name\<close>

definition like_special :: "char \<Rightarrow> bool" where
  "like_special c \<longleftrightarrow> c = CHR 0x5C \<or> c = CHR ''%'' \<or> c = CHR ''_''"

lemma escape_like_Cons: "escape_like (c # n) = (if like_special c then [CHR 0x5C, c] else [c]) @ escape_like n"
  by (simp add: escape_like_def like_special_def)

lemma like_anything: "like_match ''%'' s"
  by (induction s) simp_all

lemma like_escaped: "like_match (escape_like n @ ''%'') s \<longleftrightarrow> prefix n s"
proof (induction n arbitrary: s)
  case Nil
  then show ?case using like_anything by (simp add: escape_like_def)
next
  case (Cons c n)
  show ?case
  proof (cases s)
    case Nil
    then show ?thesis by (auto simp: escape_like_Cons like_special_def)
  next
    case (Cons x xs)
    then show ?thesis
      using Cons.IH [of xs] by (auto simp: escape_like_Cons like_special_def)
  qed
qed

lemma like_contains: "like_match (CHR ''%'' # escape_like n @ ''%'') s \<longleftrightarrow> sublist n s"
proof (induction s)
  case Nil
  then show ?case using like_escaped [of n "[]"] by simp
next
  case (Cons x xs)
  then show ?case using like_escaped [of n "x # xs"] by (simp add: sublist_Cons_right)
qed

lemma map_escape_like:
  assumes "\<And>c. like_special c \<Longrightarrow> f c = c" "\<And>c. like_special (f c) \<Longrightarrow> like_special c"
  shows "map f (escape_like n) = escape_like (map f n)"
proof (induction n)
  case (Cons c n)
  have "f (CHR 0x5C) = CHR 0x5C" using assms(1) by (simp add: like_special_def)
  with Cons show ?case
    using assms(1) [of c] assms(2) [of c] by (cases "like_special c") (auto simp: escape_like_Cons)
qed (simp add: escape_like_def)

section \<open>Properties\<close>

text \<open>C23: Following the cursors is the same as listing everything: a client that starts without a cursor
  and asks for the next page until there is none gets there in finitely many requests, and the pages
  put together are the matching accounts, each exactly once, in the order asked for; every page but
  the last is full.\<close>

theorem pages_deliver_every_account_once:
  assumes "collation (le_text_less env)" "db_ok d" "list_query_valid q"
    and "map_all (display_of (le_secret env)) (sorted_by (goes_before (le_text_less env) (order_clauses q))
        (filter (matches_filters env q) (accounts d))) = Inr rows"
    and "length (accounts d) < n"
  shows "\<exists>pages. follow_pages n (\<lambda>c. list_all_accounts env (q\<lparr>lq_cursor := c\<rparr>) d) None = Some (Inr pages)
    \<and> concat pages = rows \<and> distinct (map ad_id rows)
    \<and> set (map ad_id rows) = a_id ` {a \<in> set (accounts d). matches_filters env q a}
    \<and> (\<forall>p \<in> set (butlast pages). int (length p) = list_limit q) \<and> int (length (last pages)) < list_limit q"
proof -
  have all: "list_all2 (\<lambda>a x. display_of (le_secret env) a = Inr x) (listed env q d) rows"
    using assms(4) by (simp add: map_all_Inr_iff listed_def)
  note sorted = collation.listed_sorted [OF assms(1,2) refl, of q]
  have ids: "map ad_id rows = map a_id (listed env q d)"
    using all by (induction rule: list_all2_induct) (simp_all add: display_of_InrD(4))
  note d = collation.listed_distinct [OF assms(1,2) refl, of q]
  have "length rows = card (set (listed env q d))"
    using list_all2_lengthD [OF all] d by (simp add: distinct_card)
  also have "\<dots> \<le> length (accounts d)"
    unfolding sorted(2) by (rule order_trans [OF card_mono card_length]) auto
  finally have "length rows < n" using assms(5) by simp
  with collation.follow_from [OF assms(1,2) refl list_limit_pos [OF assms(3)], of "[]" rows None n] all
  obtain pages where "follow_pages n (\<lambda>c. list_all_accounts env (q\<lparr>lq_cursor := c\<rparr>) d) None = Some (Inr pages)"
    "concat pages = rows" "\<forall>p \<in> set (butlast pages). int (length p) = list_limit q" "int (length (last pages)) < list_limit q"
    by auto
  moreover have "distinct (map ad_id rows)"
  proof -
    have "distinct (map a_id (accounts d))" using assms(2) by (simp add: db_okD)
    then have "inj_on a_id (set (listed env q d))" unfolding sorted(2) by (auto simp: distinct_map intro: inj_on_subset)
    then show ?thesis unfolding ids using d by (simp add: distinct_map)
  qed
  moreover have "set (map ad_id rows) = a_id ` {a \<in> set (accounts d). matches_filters env q a}"
    unfolding ids using sorted(2) by simp
  ultimately show ?thesis by blast
qed

text \<open>C24: The condition \<open>build_cursor_condition\<close> builds, a disjunction over the sort columns of
  conjunctions of equalities and one comparison, is exactly the strict order of the listing: it holds
  of the rows that come after the cursor's row in \<open>ORDER BY\<close>, for any columns and directions.\<close>

theorem cursor_condition_is_the_order:
  assumes "collation text_less"
  shows "\<exists>after. build_cursor_condition text_less clauses (map (\<lambda>c. column_value_of (fst c) r) clauses) = Inr after
    \<and> (\<forall>row. after row \<longleftrightarrow> goes_before text_less clauses r row)"
  using build_cursor_condition_eq [of clauses "map (\<lambda>c. column_value_of (fst c) r) clauses" text_less]
    collation.after_values_order [OF assms] by simp

text \<open>C25: A cursor stays valid while accounts come, go and change: whatever the database holds when the
  next page is asked for, the page consists of the first matching accounts that come after the row
  the cursor was made from, in order, even if that row is gone.\<close>

theorem cursor_survives_changes:
  assumes "collation (le_text_less env)" "db_ok d" "display_of (le_secret env) r = Inr x"
    and "map_all (display_of (le_secret env)) (filter (goes_before (le_text_less env) (order_clauses q) r)
        (sorted_by (goes_before (le_text_less env) (order_clauses q)) (filter (matches_filters env q) (accounts d)))) = Inr rows"
  shows "\<exists>c. list_all_accounts env (q\<lparr>lq_cursor := Some (next_cursor_of q x)\<rparr>) d = Inr (take (nat (list_limit q)) rows, c)"
  using collation.page_after_cursor [OF assms(1,2) refl assms(3), of q rows] assms(4)
  by (simp add: map_all_Inr_iff listed_def Let_def)

text \<open>C39: A name is searched literally: with the escaping of the backslash, \<open>%\<close> and \<open>_\<close> an account matches the
  pattern exactly when its name contains the searched text, up to case; a percent sign or an
  underscore in the text stands for itself. Here the case folding leaves these three alone.\<close>

theorem name_search_is_literal:
  assumes "\<And>c. c \<in> {CHR 0x5C, CHR ''%'', CHR ''_''} \<Longrightarrow> fold_case c = c"
    and "\<And>c. fold_case c \<in> {CHR 0x5C, CHR ''%'', CHR ''_''} \<Longrightarrow> c \<in> {CHR 0x5C, CHR ''%'', CHR ''_''}"
  shows "ilike fold_case name (''%'' @ escape_like text @ ''%'') \<longleftrightarrow>
    (\<exists>s. name = Some s \<and> sublist (map fold_case text) (map fold_case s))"
proof -
  have "map fold_case (escape_like text) = escape_like (map fold_case text)"
  proof (rule map_escape_like)
    show "fold_case c = c" if "like_special c" for c
      using assms(1) [of c] that by (simp add: like_special_def)
    show "like_special c" if "like_special (fold_case c)" for c
      using assms(2) [of c] that by (simp add: like_special_def)
  qed
  moreover have "fold_case (CHR ''%'') = CHR ''%''" using assms(1) by simp
  ultimately show ?thesis
    using like_contains [of "map fold_case text"] by (auto simp: ilike_def split: option.split)
qed

section \<open>Witnesses\<close>

definition sample_list_env :: list_env where
  "sample_list_env = \<lparr>le_text_less = c_collation, le_fold_case = id, le_local = id, le_secret = ''secret''\<rparr>"

definition sample_list_query :: list_query where
  "sample_list_query = \<lparr>lq_sort = [(SF_CURRENCY, ASC)], lq_cursor = None, lq_count = Some 1, lq_name = None,
     lq_currency = None, lq_status = None, lq_created_at_from = None, lq_created_at_to = None\<rparr>"

lemma sample_list_sel [simp]:
  "le_text_less sample_list_env = c_collation" "le_secret sample_list_env = ''secret''" "lq_cursor sample_list_query = None"
  "list_query_valid sample_list_query" "list_limit sample_list_query = 1" "matches_filters sample_list_env sample_list_query a"
  by (simp_all add: sample_list_env_def sample_list_query_def list_query_valid_def list_limit_def matches_filters_def)

definition sample_shown :: account_display where
  "sample_shown = \<lparr>ad_id = 10, ad_customer_id = 1, ad_currency = EUR, ad_name = Some ''main'', ad_status = Acc_ACTIVE,
     ad_created_at = 0, ad_updated_at = 0, ad_updated_by = 7, ad_version = issue ''secret'' 10 1\<rparr>"

lemma sample_display: "display_of ''secret'' sample_account = Inr sample_shown"
  by (simp add: display_of_def sample_account_def sample_shown_def currency_of_def)

theorem pages_deliver_every_account_once_witness:
  "\<exists>pages. follow_pages 2 (\<lambda>c. list_all_accounts sample_list_env (sample_list_query\<lparr>lq_cursor := c\<rparr>) sample_db) None = Some (Inr pages)
    \<and> concat pages = [sample_shown]"
  using pages_deliver_every_account_once [OF _ sample_db_ok, of sample_list_env sample_list_query "[sample_shown]" 2]
    byte_order.collation_axioms
  by (auto simp: sorted_by_def sample_display)

theorem cursor_condition_is_the_order_witness:
  "\<exists>after. build_cursor_condition c_collation [(Col_field SF_CURRENCY, ASC), (Col_id, DESC)] [OV_text ''EUR'', OV_num 10] = Inr after
    \<and> after (sample_account\<lparr>a_currency := ''USD''\<rparr>) \<and> \<not> after sample_account"
  using cursor_condition_is_the_order [OF byte_order.collation_axioms, of "[(Col_field SF_CURRENCY, ASC), (Col_id, DESC)]" sample_account]
  by (auto simp: sample_account_def)

theorem cursor_survives_changes_witness:
  "\<exists>c. list_all_accounts sample_list_env (sample_list_query\<lparr>lq_cursor := Some (next_cursor_of sample_list_query sample_shown)\<rparr>) sample_db
    = Inr ([], c)"
  using cursor_survives_changes [OF _ sample_db_ok, of sample_list_env sample_account sample_shown sample_list_query "[]"]
    byte_order.collation_axioms byte_order.goes_irrefl
  by (simp add: sorted_by_def sample_display)

theorem name_search_is_literal_witness:
  "ilike id (Some ''50% off_'') (''%'' @ escape_like ''0% o'' @ ''%'') \<and> \<not> ilike id (Some ''501 off'') (''%'' @ escape_like ''0% o'' @ ''%'')"
proof -
  have "ilike id name (''%'' @ escape_like needle @ ''%'') \<longleftrightarrow> (\<exists>s. name = Some s \<and> sublist (map id needle) (map id s))" for name needle
    by (rule name_search_is_literal) simp_all
  then show ?thesis by (simp add: sublist_code)
qed

end
