(* ===== verification/Auth.thy ===== *)
theory Auth
  imports Request_Ids Digests
begin

text \<open>
  Authentication and authorization: \<open>infra/auth.py\<close>, the local key pair of \<open>infra/local_auth.py\<close>,
  \<open>app/auth.py\<close>, \<open>app/permissions.py\<close>, \<open>get_principal\<close> of \<open>fast_deps.py\<close> and the settings that
  govern them. The JWT library, the key server and the clock are parameters.
\<close>

section \<open>Settings\<close>

datatype app_env = Env_LOCAL | Env_DEV | Env_PROD | Env_TEST

record settings =
  s_app_env :: app_env
  s_database_sync_url :: string
  s_database_async_url :: string
  s_database_pgq_url :: string
  s_amqp_dsn :: string
  s_jwt_issuers :: "(string \<times> string list) list"
  s_jwt_audience :: "string option"
  s_jwt_local_private_key :: "string option"
  s_version_token_secret :: string
  s_log_level :: string
  s_ledger_verify_accounts_per_run :: int
  s_ledger_verify_rows_per_account :: int
  s_ledger_verify_max_checkpoint_age_seconds :: int
  s_amqp_graceful_timeout :: int

text \<open>A string option is false in Python when it is \<open>None\<close> or empty.\<close>

definition truthy :: "string option \<Rightarrow> bool" where
  "truthy s = (case s of None \<Rightarrow> False | Some t \<Rightarrow> t \<noteq> [])"

definition local_key_only_in_local :: "settings \<Rightarrow> exc + settings" where
  "local_key_only_in_local s =
     (if truthy (s_jwt_local_private_key s) \<and> s_app_env s \<noteq> Env_LOCAL then Inl ValueError else Inr s)"

definition audience_required_outside_local :: "settings \<Rightarrow> exc + settings" where
  "audience_required_outside_local s =
     (if s_app_env s \<in> {Env_DEV, Env_PROD} \<and> \<not> truthy (s_jwt_audience s) then Inl ValueError else Inr s)"

definition validated_settings :: "settings \<Rightarrow> exc + settings" where
  "validated_settings s = (case local_key_only_in_local s of Inl e \<Rightarrow> Inl e | Inr s1 \<Rightarrow> audience_required_outside_local s1)"

section \<open>Claims\<close>

datatype json = J_null | J_bool bool | J_num int | J_str string | J_list "json list" | J_object "(string \<times> json) list"

type_synonym claims = "(string \<times> json) list"

record decode_options =
  do_algorithms :: "string list"
  do_issuer :: string
  do_audience :: "string option"
  do_leeway :: int
  do_verify_aud :: bool
  do_require :: "string list"

text \<open>
  The JWT library: \<open>peek\<close> decodes without checking the signature, \<open>decode\<close> checks it with a key and
  the claims with the options.
\<close>

record 'k jwt_library =
  jl_peek :: "string \<Rightarrow> exc + claims"
  jl_decode :: "string \<Rightarrow> 'k \<Rightarrow> decode_options \<Rightarrow> exc + claims"
  jl_jwks_key :: "string \<Rightarrow> string \<Rightarrow> exc + 'k"

section \<open>The token verifier\<close>

record principal =
  pr_sub :: uuid
  pr_scopes :: "string set"

definition has_scope :: "principal \<Rightarrow> string \<Rightarrow> bool" where
  "has_scope p scope \<longleftrightarrow> scope \<in> pr_scopes p"

text \<open>\<open>public_key\<close> is set for \<open>LocalKeyVerifier\<close>; \<open>jwks_clients\<close> maps an issuer to its key URL.\<close>

record 'k token_verifier =
  tv_issuers :: "(string \<times> string list) list"
  tv_audience :: "string option"
  tv_public_key :: "'k option"
  tv_jwks_clients :: "(string \<times> string) list"

definition create_verifier :: "(string \<times> string list) list \<Rightarrow> string option \<Rightarrow> 'k option \<Rightarrow> exc + 'k token_verifier" where
  "create_verifier trusted_issuers audience public_key =
     (if list_ex (\<lambda>(issuer, prefixes). prefixes = [] \<or> list_ex (\<lambda>prefix. prefix = []) prefixes) trusted_issuers
      then Inl ValueError
      else Inr \<lparr>tv_issuers = trusted_issuers, tv_audience = audience, tv_public_key = public_key, tv_jwks_clients = []\<rparr>)"

definition algorithms :: "string list" where
  "algorithms = [''RS256'']"

definition leeway :: int where
  "leeway = 15"

definition unverified_issuer :: "'k jwt_library \<Rightarrow> string \<Rightarrow> exc + string" where
  "unverified_issuer jwt token =
     (case jl_peek jwt token of
        Inl e \<Rightarrow> Inl e
      | Inr claims \<Rightarrow> (case map_of claims ''iss'' of Some (J_str issuer) \<Rightarrow> Inr issuer | _ \<Rightarrow> Inl InvalidIssuerError))"

definition jwks_url :: "string \<Rightarrow> string" where
  "jwks_url issuer = rstrip (CHR ''/'') issuer @ ''/.well-known/jwks.json''"

text \<open>The key, and the verifier with the client it may have added.\<close>

definition signing_key :: "'k jwt_library \<Rightarrow> 'k token_verifier \<Rightarrow> string \<Rightarrow> string \<Rightarrow> (exc + 'k) \<times> 'k token_verifier" where
  "signing_key jwt v token issuer =
     (case tv_public_key v of
        Some key \<Rightarrow> (Inr key, v)
      | None \<Rightarrow>
          (case map_of (tv_jwks_clients v) issuer of
             Some url \<Rightarrow> (jl_jwks_key jwt url token, v)
           | None \<Rightarrow> (jl_jwks_key jwt (jwks_url issuer) token,
               v\<lparr>tv_jwks_clients := (issuer, jwks_url issuer) # tv_jwks_clients v\<rparr>)))"

text \<open>\<open>UUID(claims["sub"])\<close>: a text that is no UUID and \<open>None\<close> are turned into an invalid token, the
  \<open>AttributeError\<close> of any other value is not.\<close>

definition parse_sub :: "claims \<Rightarrow> exc + uuid" where
  "parse_sub claims = (case map_of claims ''sub'' of
     None \<Rightarrow> Inl (OtherException ''KeyError'')
   | Some (J_str s) \<Rightarrow> (case uuid_parse s of Inl _ \<Rightarrow> Inl InvalidTokenError | Inr u \<Rightarrow> Inr u)
   | Some J_null \<Rightarrow> Inl InvalidTokenError
   | Some _ \<Rightarrow> Inl (OtherException ''AttributeError''))"

text \<open>\<open>str.split()\<close>: the words between white space.\<close>

function split_words :: "string \<Rightarrow> string list" where
  "split_words s = (let t = dropWhile is_space s
     in if t = [] then [] else takeWhile (\<lambda>c. \<not> is_space c) t # split_words (dropWhile (\<lambda>c. \<not> is_space c) t))"
  by pat_completeness auto
termination
proof (relation "measure length")
  fix s t :: string
  assume t: "t = dropWhile is_space s" "t \<noteq> []"
  then have "\<not> is_space (hd t)" using hd_dropWhile [of is_space s] by simp
  then have "length (dropWhile (\<lambda>c. \<not> is_space c) t) < length t"
    using t(2) by (cases t) (simp_all add: less_Suc_eq_le length_dropWhile_le)
  moreover have "length t \<le> length s" using t(1) by (simp add: length_dropWhile_le)
  ultimately show "(dropWhile (\<lambda>c. \<not> is_space c) t, s) \<in> measure length" by simp
qed simp

declare split_words.simps [simp del]

definition starts_with_any :: "string list \<Rightarrow> string \<Rightarrow> bool" where
  "starts_with_any prefixes s = list_ex (\<lambda>p. take (length p) s = p) prefixes"

fun json_strings :: "json list \<Rightarrow> string list" where
  "json_strings [] = []"
| "json_strings (J_str s # js) = s # json_strings js"
| "json_strings (_ # js) = json_strings js"

definition issuer_scopes :: "'k token_verifier \<Rightarrow> claims \<Rightarrow> string \<Rightarrow> exc + string set" where
  "issuer_scopes v claims issuer =
     (let raw = (case map_of claims ''scopes'' of None \<Rightarrow> J_list [] | Some j \<Rightarrow> j);
          scopes = (case raw of J_str s \<Rightarrow> J_list (map J_str (split_words s)) | j \<Rightarrow> j)
      in case scopes of
           J_list js \<Rightarrow>
             (case map_of (tv_issuers v) issuer of
                None \<Rightarrow> Inl (OtherException ''KeyError'')
              | Some prefixes \<Rightarrow> Inr (set (filter (starts_with_any prefixes) (json_strings js))))
         | _ \<Rightarrow> Inl InvalidTokenError)"

definition decode_options_for :: "'k token_verifier \<Rightarrow> string \<Rightarrow> decode_options" where
  "decode_options_for v issuer = \<lparr>do_algorithms = algorithms, do_issuer = issuer, do_audience = tv_audience v,
     do_leeway = leeway, do_verify_aud = tv_audience v \<noteq> None, do_require = [''exp'', ''iat'', ''iss'', ''sub'']\<rparr>"

definition principal_of :: "'k token_verifier \<Rightarrow> claims \<Rightarrow> string \<Rightarrow> exc + principal" where
  "principal_of v claims issuer =
     (if (case map_of claims ''token_use'' of None \<Rightarrow> False | Some j \<Rightarrow> j \<noteq> J_str ''access'')
      then Inl InvalidTokenError
      else case parse_sub claims of
        Inl e \<Rightarrow> Inl e
      | Inr sub \<Rightarrow> (case issuer_scopes v claims issuer of
            Inl e \<Rightarrow> Inl e
          | Inr scopes \<Rightarrow> Inr \<lparr>pr_sub = sub, pr_scopes = scopes\<rparr>))"

definition verify_access_token :: "'k jwt_library \<Rightarrow> 'k token_verifier \<Rightarrow> string \<Rightarrow> (exc + principal) \<times> 'k token_verifier" where
  "verify_access_token jwt v token =
     (case unverified_issuer jwt token of
        Inl e \<Rightarrow> (Inl e, v)
      | Inr issuer \<Rightarrow>
          if map_of (tv_issuers v) issuer = None then (Inl InvalidIssuerError, v)
          else case signing_key jwt v token issuer of
            (Inl e, v') \<Rightarrow> (Inl e, v')
          | (Inr key, v') \<Rightarrow>
              (case jl_decode jwt token key (decode_options_for v issuer) of
                 Inl e \<Rightarrow> (Inl e, v')
               | Inr claims \<Rightarrow> (principal_of v claims issuer, v')))"

section \<open>The dependency\<close>

text \<open>The subclasses of \<open>InvalidTokenError\<close> the code names; the key server's errors are none of them.\<close>

definition is_invalid_token :: "exc \<Rightarrow> bool" where
  "is_invalid_token e \<longleftrightarrow> e = InvalidTokenError \<or> e = InvalidIssuerError"

definition get_principal :: "'k jwt_library \<Rightarrow> 'k token_verifier \<Rightarrow> string list \<Rightarrow> string option
    \<Rightarrow> (exc + principal) \<times> 'k token_verifier" where
  "get_principal jwt v security_scopes credentials =
     (case credentials of
        None \<Rightarrow> (Inl (HTTPException 401 (Message ''Not authenticated'')), v)
      | Some token \<Rightarrow>
          (case verify_access_token jwt v token of
             (Inl e, v') \<Rightarrow> (Inl (if is_invalid_token e then HTTPException 401 (Message ''Invalid token'') else e), v')
           | (Inr caller, v') \<Rightarrow>
               let missing = filter (\<lambda>scope. \<not> has_scope caller scope) security_scopes
               in (if missing \<noteq> [] then Inl (HTTPException 403 (Message ''Insufficient permissions'')) else Inr caller, v')))"

section \<open>Permissions and local tokens\<close>

datatype permission =
    ADMIN_ACCOUNTS_CREATE | ADMIN_ACCOUNTS_UPDATE | ADMIN_ACCOUNTS_GET | ADMIN_ACCOUNTS_DELETE
  | ADMIN_ACCOUNTS_LEDGER_DISCREPANCY_GET | ADMIN_ACCOUNTS_LEDGER_DISCREPANCY_RESOLVE

fun permission_value :: "permission \<Rightarrow> string" where
  "permission_value ADMIN_ACCOUNTS_CREATE = ''statement.admin.accounts.create''"
| "permission_value ADMIN_ACCOUNTS_UPDATE = ''statement.admin.accounts.update''"
| "permission_value ADMIN_ACCOUNTS_GET = ''statement.admin.accounts.get''"
| "permission_value ADMIN_ACCOUNTS_DELETE = ''statement.admin.accounts.delete''"
| "permission_value ADMIN_ACCOUNTS_LEDGER_DISCREPANCY_GET = ''statement.admin.accounts.ledger.discrepancy.get''"
| "permission_value ADMIN_ACCOUNTS_LEDGER_DISCREPANCY_RESOLVE = ''statement.admin.accounts.ledger.discrepancy.resolve''"

definition all_permissions :: "permission list" where
  "all_permissions = [ADMIN_ACCOUNTS_CREATE, ADMIN_ACCOUNTS_UPDATE, ADMIN_ACCOUNTS_GET, ADMIN_ACCOUNTS_DELETE,
     ADMIN_ACCOUNTS_LEDGER_DISCREPANCY_GET, ADMIN_ACCOUNTS_LEDGER_DISCREPANCY_RESOLVE]"

text \<open>The permission each endpoint of the router asks for.\<close>

datatype endpoint = E_create | E_update | E_delete | E_list | E_discrepancy | E_resolve

fun required_permission :: "endpoint \<Rightarrow> permission" where
  "required_permission E_create = ADMIN_ACCOUNTS_CREATE"
| "required_permission E_update = ADMIN_ACCOUNTS_UPDATE"
| "required_permission E_delete = ADMIN_ACCOUNTS_DELETE"
| "required_permission E_list = ADMIN_ACCOUNTS_GET"
| "required_permission E_discrepancy = ADMIN_ACCOUNTS_LEDGER_DISCREPANCY_GET"
| "required_permission E_resolve = ADMIN_ACCOUNTS_LEDGER_DISCREPANCY_RESOLVE"

datatype user_role = Role_ADMIN | Role_CUSTOMER

fun role_value :: "user_role \<Rightarrow> string" where
  "role_value Role_ADMIN = ''admin''"
| "role_value Role_CUSTOMER = ''customer''"

definition role_of :: "string \<Rightarrow> exc + user_role" where
  "role_of s = (case find (\<lambda>r. role_value r = s) [Role_ADMIN, Role_CUSTOMER] of None \<Rightarrow> Inl ValueError | Some r \<Rightarrow> Inr r)"

text \<open>
  Loading the private key: \<open>load_pem\<close> is the library's parser, which tells whether the key is RSA.
\<close>

datatype 'k pem_key = Rsa_key 'k | Other_key

definition load_private_key :: "(string \<Rightarrow> exc + 'p pem_key) \<Rightarrow> settings \<Rightarrow> exc + 'p" where
  "load_private_key load_pem s =
     (if \<not> truthy (s_jwt_local_private_key s) then Inl RuntimeError
      else case load_pem (replace_all [CHR 0x5C, CHR ''n''] [CHR 0x0A] (the (s_jwt_local_private_key s))) of
        Inl e \<Rightarrow> Inl e
      | Inr Other_key \<Rightarrow> Inl RuntimeError
      | Inr (Rsa_key key) \<Rightarrow> Inr key)"

definition build_local_verifier :: "(string \<Rightarrow> exc + 'p pem_key) \<Rightarrow> ('p \<Rightarrow> 'k) \<Rightarrow> settings \<Rightarrow> exc + 'k token_verifier" where
  "build_local_verifier load_pem public_key_of s =
     (case load_private_key load_pem s of
        Inl e \<Rightarrow> Inl e
      | Inr key \<Rightarrow> create_verifier (s_jwt_issuers s) (s_jwt_audience s) (Some (public_key_of key)))"

definition get_token_verifier :: "(string \<Rightarrow> exc + 'p pem_key) \<Rightarrow> ('p \<Rightarrow> 'k) \<Rightarrow> settings \<Rightarrow> exc + 'k token_verifier" where
  "get_token_verifier load_pem public_key_of s =
     (if s_app_env s = Env_LOCAL \<and> truthy (s_jwt_local_private_key s)
      then build_local_verifier load_pem public_key_of s
      else create_verifier (s_jwt_issuers s) (s_jwt_audience s) None)"

definition default_issuer :: "settings \<Rightarrow> exc + string" where
  "default_issuer s = (case s_jwt_issuers s of [] \<Rightarrow> Inl RuntimeError | (issuer, _) # _ \<Rightarrow> Inr issuer)"

text \<open>\<open>mint_token\<close>: the claims it signs; \<open>fresh\<close> is \<open>uuid7()\<close>, \<open>now\<close> the time in seconds.\<close>

definition minted_claims :: "settings \<Rightarrow> uuid \<Rightarrow> int \<Rightarrow> string option \<Rightarrow> string option \<Rightarrow> string option \<Rightarrow> int \<Rightarrow> exc + claims" where
  "minted_claims s fresh now sub role issuer expires_in =
     (case (case role of None \<Rightarrow> Inr Role_ADMIN | Some r \<Rightarrow> role_of r) of
        Inl e \<Rightarrow> Inl e
      | Inr r \<Rightarrow>
          let scopes = filter (starts_with_any [''statement.'' @ role_value r @ ''.'']) (map permission_value all_permissions)
          in case (if truthy issuer then Inr (the issuer) else default_issuer s) of
               Inl e \<Rightarrow> Inl e
             | Inr iss \<Rightarrow> Inr
                 ([(''iss'', J_str iss), (''sub'', J_str (case sub of None \<Rightarrow> uuid_str fresh | Some u \<Rightarrow> u)),
                   (''scopes'', J_list (map J_str scopes)), (''iat'', J_num now), (''exp'', J_num (now + expires_in))]
                  @ (case s_jwt_audience s of None \<Rightarrow> [] | Some a \<Rightarrow> [(''aud'', J_str a)])))"

definition mint_token :: "(string \<Rightarrow> exc + 'p pem_key) \<Rightarrow> (claims \<Rightarrow> 'p \<Rightarrow> string) \<Rightarrow> settings \<Rightarrow> uuid \<Rightarrow> int
    \<Rightarrow> string option \<Rightarrow> string option \<Rightarrow> string option \<Rightarrow> int \<Rightarrow> exc + string" where
  "mint_token load_pem encode s fresh now sub role issuer expires_in =
     (case minted_claims s fresh now sub role issuer expires_in of
        Inl e \<Rightarrow> Inl e
      | Inr claims \<Rightarrow> (case load_private_key load_pem s of Inl e \<Rightarrow> Inl e | Inr key \<Rightarrow> Inr (encode claims key)))"

end
