(* ===== verification/Auth_Properties.thy ===== *)
theory Auth_Properties
  imports Auth
begin

text \<open>
  What authentication and authorization guarantee: an issuer asserts only scopes below its own
  prefixes, an endpoint is reached only with its permission, production accepts only tokens for the
  service's audience, and a locally minted token gives its role's permissions.
\<close>

lemma create_verifier_InrD:
  assumes "create_verifier issuers audience public_key = Inr v"
  shows "tv_issuers v = issuers" "tv_audience v = audience" "tv_public_key v = public_key" "tv_jwks_clients v = []"
    "map_of issuers i = Some prefixes \<Longrightarrow> prefixes \<noteq> [] \<and> (\<forall>p \<in> set prefixes. p \<noteq> [])"
proof -
  have c: "\<not> list_ex (\<lambda>(issuer, prefixes). prefixes = [] \<or> list_ex (\<lambda>prefix. prefix = []) prefixes) issuers"
    using assms by (auto simp: create_verifier_def split: if_splits)
  then have "v = \<lparr>tv_issuers = issuers, tv_audience = audience, tv_public_key = public_key, tv_jwks_clients = []\<rparr>"
    using assms by (simp add: create_verifier_def)
  then show "tv_issuers v = issuers" "tv_audience v = audience" "tv_public_key v = public_key" "tv_jwks_clients v = []"
    by simp_all
  assume "map_of issuers i = Some prefixes"
  then have "(i, prefixes) \<in> set issuers" by (rule map_of_SomeD)
  with c show "prefixes \<noteq> [] \<and> (\<forall>p \<in> set prefixes. p \<noteq> [])" by (auto simp: list_ex_iff)
qed

lemma json_strings_mem: "s \<in> set (json_strings js) \<longleftrightarrow> J_str s \<in> set js"
  by (induction js rule: json_strings.induct) auto

lemma json_strings_map [simp]: "json_strings (map J_str ss) = ss"
  by (induction ss) simp_all

text \<open>The keys of the verifier's clients: an issuer is always asked at its own URL.\<close>

definition clients_ok :: "'k token_verifier \<Rightarrow> bool" where
  "clients_ok v \<longleftrightarrow> (\<forall>(issuer, url) \<in> set (tv_jwks_clients v). url = jwks_url issuer)"

lemma signing_key_facts:
  assumes "signing_key jwt v token issuer = (r, v')" "clients_ok v"
  shows "clients_ok v'" "tv_issuers v' = tv_issuers v" "tv_audience v' = tv_audience v" "tv_public_key v' = tv_public_key v"
    "r = (case tv_public_key v of Some key \<Rightarrow> Inr key | None \<Rightarrow> jl_jwks_key jwt (jwks_url issuer) token)"
  using assms by (auto simp: signing_key_def clients_ok_def split: option.splits dest: map_of_SomeD)

text \<open>What a successful verification tells.\<close>

lemma verify_access_token_InrD:
  assumes "verify_access_token jwt v token = (Inr p, v')" "clients_ok v"
  obtains issuer prefixes key claims where "map_of (tv_issuers v) issuer = Some prefixes"
    "(case tv_public_key v of Some k \<Rightarrow> Inr k | None \<Rightarrow> jl_jwks_key jwt (jwks_url issuer) token) = Inr key"
    "jl_decode jwt token key (decode_options_for v issuer) = Inr claims"
    "principal_of v' claims issuer = Inr p" "tv_issuers v' = tv_issuers v" "unverified_issuer jwt token = Inr issuer"
proof -
  obtain issuer where i: "unverified_issuer jwt token = Inr issuer" "map_of (tv_issuers v) issuer \<noteq> None"
    using assms(1) by (auto simp: verify_access_token_def split: sum.splits if_splits)
  obtain r v1 where k: "signing_key jwt v token issuer = (r, v1)" by (cases "signing_key jwt v token issuer")
  note f = signing_key_facts [OF k assms(2)]
  obtain key claims where d: "r = Inr key" "jl_decode jwt token key (decode_options_for v issuer) = Inr claims"
    "principal_of v claims issuer = Inr p" "v1 = v'"
    using assms(1) i k by (auto simp: verify_access_token_def split: sum.splits if_splits)
  have "principal_of v1 claims issuer = principal_of v claims issuer"
    by (simp only: principal_of_def issuer_scopes_def f(2))
  then have "principal_of v' claims issuer = Inr p" using d by simp
  moreover obtain prefixes where "map_of (tv_issuers v) issuer = Some prefixes" using i(2) by blast
  moreover have "(case tv_public_key v of Some k \<Rightarrow> Inr k | None \<Rightarrow> jl_jwks_key jwt (jwks_url issuer) token) = Inr key"
    using f(5) d(1) by simp
  ultimately show thesis using that d(2,4) f(2) i(1) by simp
qed

lemma principal_of_InrD:
  assumes "principal_of v claims issuer = Inr p" "map_of (tv_issuers v) issuer = Some prefixes"
  obtains s js where "map_of claims ''sub'' = Some (J_str s)" "uuid_parse s = Inr (pr_sub p)"
    "map_of claims ''token_use'' \<in> {None, Some (J_str ''access'')}"
    "pr_scopes p = {t \<in> set (json_strings js). starts_with_any prefixes t}"
    "(case map_of claims ''scopes'' of None \<Rightarrow> J_list [] | Some (J_str s) \<Rightarrow> J_list (map J_str (split_words s)) | Some j \<Rightarrow> j) = J_list js"
proof -
  obtain sub sc where s: "parse_sub claims = Inr sub" "issuer_scopes v claims issuer = Inr sc" "p = \<lparr>pr_sub = sub, pr_scopes = sc\<rparr>"
    "map_of claims ''token_use'' \<in> {None, Some (J_str ''access'')}"
    using assms(1) by (auto simp: principal_of_def split: sum.splits if_splits option.splits)
  obtain t where t: "map_of claims ''sub'' = Some (J_str t)" "uuid_parse t = Inr sub"
    using s(1) by (auto simp: parse_sub_def split: option.splits json.splits sum.splits)
  obtain js where "(case map_of claims ''scopes'' of None \<Rightarrow> J_list [] | Some (J_str s) \<Rightarrow> J_list (map J_str (split_words s)) | Some j \<Rightarrow> j) = J_list js"
    "sc = set (filter (starts_with_any prefixes) (json_strings js))"
    using s(2) assms(2) by (auto simp: issuer_scopes_def Let_def split: option.splits json.splits)
  then show thesis using that t s by auto
qed

section \<open>Properties\<close>

text \<open>\<open>get_token_verifier\<close> is cached: one verifier serves all requests and keeps the clients it has made. This is
  the verifier after it has seen some tokens, each with what the library and the key servers answered then.\<close>

fun after_tokens :: "('k jwt_library \<times> string) list \<Rightarrow> 'k token_verifier \<Rightarrow> 'k token_verifier" where
  "after_tokens [] v = v"
| "after_tokens ((jwt, token) # seen) v = after_tokens seen (snd (verify_access_token jwt v token))"

lemma verify_access_token_keeps:
  assumes "clients_ok v"
  shows "clients_ok (snd (verify_access_token jwt v token))"
    "tv_issuers (snd (verify_access_token jwt v token)) = tv_issuers v"
    "tv_audience (snd (verify_access_token jwt v token)) = tv_audience v"
    "tv_public_key (snd (verify_access_token jwt v token)) = tv_public_key v"
proof -
  let ?v = "snd (verify_access_token jwt v token)"
  have "?v = v \<or> (\<exists>issuer. ?v = snd (signing_key jwt v token issuer))"
  proof (cases "unverified_issuer jwt token")
    case (Inr issuer)
    have "?v \<in> {v, snd (signing_key jwt v token issuer)}"
      by (cases "signing_key jwt v token issuer") (simp add: verify_access_token_def Inr split: sum.split)
    then show ?thesis by blast
  qed (simp add: verify_access_token_def)
  then have "clients_ok ?v \<and> tv_issuers ?v = tv_issuers v \<and> tv_audience ?v = tv_audience v \<and> tv_public_key ?v = tv_public_key v"
  proof
    assume "\<exists>issuer. ?v = snd (signing_key jwt v token issuer)"
    then obtain issuer where i: "?v = snd (signing_key jwt v token issuer)" by blast
    show ?thesis using signing_key_facts [OF prod.collapse [symmetric] assms] unfolding i by simp
  qed (use assms in simp)
  then show "clients_ok ?v" "tv_issuers ?v = tv_issuers v" "tv_audience ?v = tv_audience v" "tv_public_key ?v = tv_public_key v"
    by simp_all
qed

lemma after_tokens_keeps:
  assumes "clients_ok v"
  shows "clients_ok (after_tokens seen v) \<and> tv_issuers (after_tokens seen v) = tv_issuers v
    \<and> tv_audience (after_tokens seen v) = tv_audience v \<and> tv_public_key (after_tokens seen v) = tv_public_key v"
  using assms
proof (induction seen v rule: after_tokens.induct)
  case (2 jwt token seen v)
  then show ?case using verify_access_token_keeps [OF 2(2), of jwt token] by simp
qed simp

lemma created_after_tokens:
  assumes "create_verifier issuers audience public_key = Inr v0"
  shows "clients_ok (after_tokens seen v0)" "tv_issuers (after_tokens seen v0) = issuers"
    "tv_audience (after_tokens seen v0) = audience" "tv_public_key (after_tokens seen v0) = public_key"
  using after_tokens_keeps [of v0 seen] create_verifier_InrD [OF assms] by (simp_all add: clients_ok_def)

text \<open>C26: A caller has only scopes its issuer may assert, whatever tokens the verifier has seen before: an
  accepted token names an issuer on the allowlist, was decoded with that issuer pinned and with its own key (the one
  it publishes at its own URL, never that of another issuer, or the local key), and every scope of the caller starts
  with one of the issuer's prefixes, none of which is empty.\<close>

theorem scopes_stay_within_the_allowlist:
  assumes "create_verifier issuers audience public_key = Inr v0"
    and "verify_access_token jwt (after_tokens seen v0) token = (Inr p, v)"
  shows "\<exists>issuer prefixes key claims. unverified_issuer jwt token = Inr issuer \<and> map_of issuers issuer = Some prefixes
    \<and> (case public_key of Some k \<Rightarrow> key = k | None \<Rightarrow> jl_jwks_key jwt (jwks_url issuer) token = Inr key)
    \<and> jl_decode jwt token key \<lparr>do_algorithms = [''RS256''], do_issuer = issuer, do_audience = audience, do_leeway = 15,
        do_verify_aud = (audience \<noteq> None), do_require = [''exp'', ''iat'', ''iss'', ''sub'']\<rparr> = Inr claims
    \<and> map_of claims ''token_use'' \<in> {None, Some (J_str ''access'')}
    \<and> (\<exists>s. map_of claims ''sub'' = Some (J_str s) \<and> uuid_parse s = Inr (pr_sub p))
    \<and> (\<forall>scope \<in> pr_scopes p. \<exists>prefix \<in> set prefixes. prefix \<noteq> [] \<and> take (length prefix) scope = prefix)"
proof -
  let ?v = "after_tokens seen v0"
  note v = created_after_tokens [OF assms(1), of seen]
  from verify_access_token_InrD [OF assms(2) v(1)] obtain issuer prefixes key claims where
    f: "map_of (tv_issuers ?v) issuer = Some prefixes"
      "(case tv_public_key ?v of Some k \<Rightarrow> Inr k | None \<Rightarrow> jl_jwks_key jwt (jwks_url issuer) token) = Inr key"
      "jl_decode jwt token key (decode_options_for ?v issuer) = Inr claims"
      "principal_of v claims issuer = Inr p" "tv_issuers v = tv_issuers ?v" "unverified_issuer jwt token = Inr issuer" .
  have "map_of (tv_issuers v) issuer = Some prefixes" using f by simp
  from principal_of_InrD [OF f(4) this] obtain s js where
    s: "map_of claims ''sub'' = Some (J_str s)" "uuid_parse s = Inr (pr_sub p)"
    "map_of claims ''token_use'' \<in> {None, Some (J_str ''access'')}"
    "pr_scopes p = {t \<in> set (json_strings js). starts_with_any prefixes t}" .
  moreover have "prefix \<noteq> []" if "prefix \<in> set prefixes" for prefix
    using create_verifier_InrD(5) [OF assms(1), of issuer prefixes] f(1) v(2) that by auto
  moreover have "(case public_key of Some k \<Rightarrow> key = k | None \<Rightarrow> jl_jwks_key jwt (jwks_url issuer) token = Inr key)"
    using f(2) v(4) by (auto split: option.splits)
  moreover have "decode_options_for ?v issuer = \<lparr>do_algorithms = [''RS256''], do_issuer = issuer, do_audience = audience, do_leeway = 15,
        do_verify_aud = (audience \<noteq> None), do_require = [''exp'', ''iat'', ''iss'', ''sub'']\<rparr>"
    using v(3) by (simp add: decode_options_for_def algorithms_def leeway_def)
  ultimately show ?thesis
    using f(1,3,6) v(2)
    by (intro exI [of _ issuer] exI [of _ prefixes] exI [of _ key] exI [of _ claims])
      (auto simp: starts_with_any_def list_ex_iff)
qed

text \<open>An endpoint is reached only by callers with its permission, and how the others are answered:
  401 without credentials and for every invalid token, 403 for a valid token without the permission;
  any other error of the key server or the library is not handled and reaches the client as 500.\<close>

lemma endpoint_access_table:
  "fst (get_principal jwt v [permission_value (required_permission ep)] credentials) =
    (case credentials of
       None \<Rightarrow> Inl (HTTPException 401 (Message ''Not authenticated''))
     | Some token \<Rightarrow> (case fst (verify_access_token jwt v token) of
           Inl e \<Rightarrow> Inl (if e \<in> {InvalidTokenError, InvalidIssuerError} then HTTPException 401 (Message ''Invalid token'') else e)
         | Inr p \<Rightarrow> if permission_value (required_permission ep) \<in> pr_scopes p then Inr p
             else Inl (HTTPException 403 (Message ''Insufficient permissions''))))"
  by (cases credentials)
    (auto simp: get_principal_def is_invalid_token_def has_scope_def split: prod.splits sum.splits)

text \<open>C27: Outside the local environment no local key is in use: with settings that pass validation, whatever tokens
  the verifier has seen before, an accepted token was decoded with the key its own issuer publishes, and the issuer is
  one of the settings. In dev and prod every token must name the audience of this service, which is not empty; in
  test an audience is checked if there is one.\<close>

theorem production_checks_the_audience:
  assumes "validated_settings s0 = Inr s" "s_app_env s \<noteq> Env_LOCAL"
    and "get_token_verifier load_pem public_key_of s = Inr v0"
    and "verify_access_token jwt (after_tokens seen v0) token = (Inr p, v)"
  shows "\<exists>issuer key opts claims. unverified_issuer jwt token = Inr issuer \<and> issuer \<in> fst ` set (s_jwt_issuers s)
    \<and> jl_jwks_key jwt (jwks_url issuer) token = Inr key
    \<and> jl_decode jwt token key opts = Inr claims \<and> do_issuer opts = issuer
    \<and> do_audience opts = s_jwt_audience s \<and> (do_verify_aud opts \<longleftrightarrow> s_jwt_audience s \<noteq> None)
    \<and> (s_app_env s \<in> {Env_DEV, Env_PROD} \<longrightarrow> do_verify_aud opts \<and> (\<exists>a. do_audience opts = Some a \<and> a \<noteq> []))"
proof -
  have s: "\<not> truthy (s_jwt_local_private_key s)" "s_app_env s \<in> {Env_DEV, Env_PROD} \<longrightarrow> truthy (s_jwt_audience s)"
    using assms(1,2)
    by (auto simp: validated_settings_def local_key_only_in_local_def audience_required_outside_local_def
        split: sum.splits if_splits)
  then have a: "s_app_env s \<in> {Env_DEV, Env_PROD} \<longrightarrow> (\<exists>a. s_jwt_audience s = Some a \<and> a \<noteq> [])"
    by (auto simp: truthy_def split: option.splits)
  have "create_verifier (s_jwt_issuers s) (s_jwt_audience s) None = Inr v0"
    using assms(3) s(1) by (simp add: get_token_verifier_def)
  note v = created_after_tokens [OF this, of seen]
  let ?v = "after_tokens seen v0"
  from verify_access_token_InrD [OF assms(4) v(1)] obtain issuer prefixes key claims where
    f: "map_of (tv_issuers ?v) issuer = Some prefixes"
      "(case tv_public_key ?v of Some k \<Rightarrow> Inr k | None \<Rightarrow> jl_jwks_key jwt (jwks_url issuer) token) = Inr key"
      "jl_decode jwt token key (decode_options_for ?v issuer) = Inr claims" "unverified_issuer jwt token = Inr issuer" .
  have "issuer \<in> fst ` set (s_jwt_issuers s)" using map_of_SomeD [OF f(1)] v(2) by force
  moreover have "jl_jwks_key jwt (jwks_url issuer) token = Inr key" using f(2) v(4) by simp
  ultimately show ?thesis
    using f(3,4) v(3) a
    by (intro exI [of _ issuer] exI [of _ key] exI [of _ "decode_options_for ?v issuer"] exI [of _ claims])
      (auto simp: decode_options_for_def)
qed

lemma role_scopes:
  "filter (starts_with_any [''statement.'' @ role_value Role_ADMIN @ ''.'']) (map permission_value all_permissions)
     = map permission_value all_permissions"
  "filter (starts_with_any [''statement.'' @ role_value Role_CUSTOMER @ ''.'']) (map permission_value all_permissions) = []"
  by (simp_all add: all_permissions_def starts_with_any_def)

text \<open>
  What PyJWT's documentation says of \<open>decode\<close> at time \<open>t\<close> with a token whose signature is valid for the key: the
  required claims are there, the token has not expired and was not issued in the future, give or take the leeway,
  the issuer is the expected one, and if the audience is to be verified, it is named and expected. Not-before times,
  which the service never writes, are left out; times are whole seconds.
\<close>

definition claims_accepted :: "int \<Rightarrow> decode_options \<Rightarrow> claims \<Rightarrow> bool" where
  "claims_accepted t opts claims \<longleftrightarrow>
     list_all (\<lambda>k. map_of claims k \<notin> {None, Some J_null}) (do_require opts)
     \<and> (case map_of claims ''exp'' of None \<Rightarrow> True | Some (J_num n) \<Rightarrow> t - do_leeway opts < n | Some _ \<Rightarrow> False)
     \<and> (case map_of claims ''iat'' of None \<Rightarrow> True | Some (J_num n) \<Rightarrow> n \<le> t + do_leeway opts | Some _ \<Rightarrow> False)
     \<and> map_of claims ''iss'' = Some (J_str (do_issuer opts))
     \<and> (do_verify_aud opts \<longrightarrow> (\<exists>a. do_audience opts = Some a \<and> a \<noteq> [] \<and> map_of claims ''aud'' = Some (J_str a)))"

text \<open>The library at time \<open>t\<close> on a token that the local key signed: it reads the claims back, and \<open>decode\<close> lets
  them pass if RS256, which \<open>mint_token\<close> signs with, is among the algorithms and they are accepted.\<close>

definition decodes_minted :: "int \<Rightarrow> 'k jwt_library \<Rightarrow> 'k \<Rightarrow> string \<Rightarrow> claims \<Rightarrow> bool" where
  "decodes_minted t jwt key token claims \<longleftrightarrow> jl_peek jwt token = Inr claims
     \<and> (\<forall>opts. if ''RS256'' \<in> set (do_algorithms opts) \<and> claims_accepted t opts claims
          then jl_decode jwt token key opts = Inr claims
          else \<exists>e. is_invalid_token e \<and> jl_decode jwt token key opts = Inl e)"

text \<open>C28: A token minted locally is accepted by the local verifier for the same settings from the moment it was
  minted, up to 15 seconds of clock drift, until 15 seconds after it has expired, and at no other time; it then gives
  its subject exactly the permissions of its role: all of them to an administrator, none to a customer. Otherwise
  the answer is 401. Here the JWT library reads back what it signed, the issuer may assert the service's permissions,
  and the audience of the settings, if there is one, is not empty.\<close>

theorem minted_token_gives_its_role:
  assumes "minted_claims s fresh now (Some (uuid_str u)) (Some (role_value role)) (Some issuer) expires_in = Inr claims"
    and "load_private_key load_pem s = Inr key"
    and "mint_token load_pem encode s fresh now (Some (uuid_str u)) (Some (role_value role)) (Some issuer) expires_in = Inr token"
    and "decodes_minted t jwt (public_key_of key) (encode claims key) claims"
    and "build_local_verifier load_pem public_key_of s = Inr v0"
    and "issuer \<noteq> []" "map_of (s_jwt_issuers s) issuer = Some prefixes" "s_jwt_audience s \<noteq> Some []"
    and "\<And>permission. starts_with_any prefixes (permission_value permission)"
  shows "fst (get_principal jwt (after_tokens seen v0) [] (Some token)) =
    (if now - 15 \<le> t \<and> t < now + expires_in + 15
     then Inr \<lparr>pr_sub = u, pr_scopes = (if role = Role_ADMIN then permission_value ` set all_permissions else {})\<rparr>
     else Inl (HTTPException 401 (Message ''Invalid token'')))"
proof -
  let ?v = "after_tokens seen v0"
  have c: "create_verifier (s_jwt_issuers s) (s_jwt_audience s) (Some (public_key_of key)) = Inr v0"
    using assms(2,5) by (simp add: build_local_verifier_def)
  note v = created_after_tokens [OF c, of seen]
  have r: "role_of (role_value role) = Inr role" by (cases role) (simp_all add: role_of_def)
  let ?perms = "if role = Role_ADMIN then map permission_value all_permissions else []"
  have perms: "filter (starts_with_any [''statement.'' @ role_value role @ ''.'']) (map permission_value all_permissions) = ?perms"
    using role_scopes by (cases role) simp_all
  let ?claims = "[(''iss'', J_str issuer), (''sub'', J_str (uuid_str u)), (''scopes'', J_list (map J_str ?perms)),
      (''iat'', J_num now), (''exp'', J_num (now + expires_in))] @ (case s_jwt_audience s of None \<Rightarrow> [] | Some a \<Rightarrow> [(''aud'', J_str a)])"
  have "minted_claims s fresh now (Some (uuid_str u)) (Some (role_value role)) (Some issuer) expires_in = Inr ?claims"
    unfolding minted_claims_def option.case r sum.case perms Let_def using assms(6) by (simp add: truthy_def)
  then have claims: "claims = ?claims" using assms(1) by simp
  have token: "token = encode claims key" using assms(1,2,3) by (simp add: mint_token_def)
  let ?opts = "decode_options_for ?v issuer"
  have acc: "claims_accepted t ?opts claims \<longleftrightarrow> now - 15 \<le> t \<and> t < now + expires_in + 15"
  proof -
    have look: "map_of claims ''exp'' = Some (J_num (now + expires_in))" "map_of claims ''iat'' = Some (J_num now)"
      "map_of claims ''iss'' = Some (J_str issuer)" "map_of claims ''sub'' = Some (J_str (uuid_str u))"
      unfolding claims by simp_all
    have "map_of claims ''aud'' = map_option J_str (s_jwt_audience s)"
      unfolding claims by (cases "s_jwt_audience s") simp_all
    then show ?thesis
      using assms(8) unfolding claims_accepted_def decode_options_for_def v(3) leeway_def
      by (cases "s_jwt_audience s") (auto simp: look)
  qed
  have alg: "''RS256'' \<in> set (do_algorithms ?opts)" by (simp add: decode_options_for_def algorithms_def)
  have peek: "unverified_issuer jwt token = Inr issuer"
    using assms(4) by (simp add: token unverified_issuer_def decodes_minted_def claims)
  have sk: "signing_key jwt ?v token issuer = (Inr (public_key_of key), ?v)" by (simp add: signing_key_def v(4))
  have dec: "if now - 15 \<le> t \<and> t < now + expires_in + 15 then jl_decode jwt token (public_key_of key) ?opts = Inr claims
      else \<exists>e. is_invalid_token e \<and> jl_decode jwt token (public_key_of key) ?opts = Inl e"
    using assms(4) alg acc unfolding decodes_minted_def token by metis
  have kept: "filter (starts_with_any prefixes) ?perms = ?perms" using assms(9) by (auto simp: filter_id_conv)
  have principal: "principal_of ?v claims issuer = Inr \<lparr>pr_sub = u, pr_scopes = set ?perms\<rparr>"
    using assms(7) kept by (simp add: claims principal_of_def parse_sub_def issuer_scopes_def v(2) Let_def split: option.split)
  show ?thesis
  proof (cases "now - 15 \<le> t \<and> t < now + expires_in + 15")
    case True
    then have "verify_access_token jwt ?v token = (Inr \<lparr>pr_sub = u, pr_scopes = set ?perms\<rparr>, ?v)"
      using dec assms(7) principal by (simp add: verify_access_token_def peek sk v(2))
    then show ?thesis using True by (simp add: get_principal_def)
  next
    case False
    then obtain e where "is_invalid_token e" "verify_access_token jwt ?v token = (Inl e, ?v)"
      using dec assms(7) by (auto simp: verify_access_token_def peek sk v(2))
    then show ?thesis using False by (simp add: get_principal_def)
  qed
qed

section \<open>Witnesses\<close>

definition sample_claims :: claims where
  "sample_claims = [(''iss'', J_str ''https://id''), (''sub'', J_str (uuid_str 7)),
     (''scopes'', J_list [J_str ''statement.admin.accounts.get'', J_str ''other.x''])]"

definition sample_jwt :: "nat jwt_library" where
  "sample_jwt = \<lparr>jl_peek = (\<lambda>_. Inr sample_claims), jl_decode = (\<lambda>_ _ _. Inr sample_claims), jl_jwks_key = (\<lambda>_ _. Inr 3)\<rparr>"

definition sample_settings :: settings where
  "sample_settings = \<lparr>s_app_env = Env_PROD, s_database_sync_url = [], s_database_async_url = [],
     s_database_pgq_url = [], s_amqp_dsn = [], s_jwt_issuers = [(''https://id'', [''statement.''])],
     s_jwt_audience = Some ''statement'', s_jwt_local_private_key = None, s_version_token_secret = [],
     s_log_level = ''INFO'', s_ledger_verify_accounts_per_run = 100, s_ledger_verify_rows_per_account = 1000,
     s_ledger_verify_max_checkpoint_age_seconds = 3600, s_amqp_graceful_timeout = 10\<rparr>"

lemma sample_token_verified:
  "verify_access_token sample_jwt \<lparr>tv_issuers = [(''https://id'', [''statement.''])], tv_audience = Some ''statement'',
      tv_public_key = None, tv_jwks_clients = []\<rparr> ''t''
   = (Inr \<lparr>pr_sub = 7, pr_scopes = {''statement.admin.accounts.get''}\<rparr>,
      \<lparr>tv_issuers = [(''https://id'', [''statement.''])], tv_audience = Some ''statement'',
      tv_public_key = None, tv_jwks_clients = [(''https://id'', jwks_url ''https://id'')]\<rparr>)"
  by (simp add: verify_access_token_def unverified_issuer_def sample_jwt_def sample_claims_def signing_key_def
      principal_of_def parse_sub_def issuer_scopes_def starts_with_any_def)

lemma sample_verifier:
  "create_verifier [(''https://id'', [''statement.''])] (Some ''statement'') None = Inr \<lparr>tv_issuers = [(''https://id'', [''statement.''])],
     tv_audience = Some ''statement'', tv_public_key = (None :: nat option), tv_jwks_clients = []\<rparr>"
  by (simp add: create_verifier_def)

lemma sample_verified_twice:
  "verify_access_token sample_jwt (after_tokens [(sample_jwt, ''t'')] \<lparr>tv_issuers = [(''https://id'', [''statement.''])],
      tv_audience = Some ''statement'', tv_public_key = None, tv_jwks_clients = []\<rparr>) ''t''
   = (Inr \<lparr>pr_sub = 7, pr_scopes = {''statement.admin.accounts.get''}\<rparr>,
      \<lparr>tv_issuers = [(''https://id'', [''statement.''])], tv_audience = Some ''statement'',
      tv_public_key = None, tv_jwks_clients = [(''https://id'', jwks_url ''https://id'')]\<rparr>)"
  unfolding after_tokens.simps sample_token_verified snd_conv
  by (simp add: verify_access_token_def unverified_issuer_def sample_jwt_def sample_claims_def signing_key_def
      principal_of_def parse_sub_def issuer_scopes_def starts_with_any_def)

theorem scopes_stay_within_the_allowlist_witness:
  "\<exists>issuer prefixes. unverified_issuer sample_jwt ''t'' = Inr issuer \<and> map_of [(''https://id'', [''statement.''])] issuer = Some prefixes
    \<and> (\<forall>scope \<in> {''statement.admin.accounts.get''}. \<exists>prefix \<in> set prefixes. take (length prefix) scope = prefix)"
proof -
  obtain issuer prefixes where "unverified_issuer sample_jwt ''t'' = Inr issuer"
    "map_of [(''https://id'', [''statement.''])] issuer = Some prefixes"
    "\<forall>scope \<in> {''statement.admin.accounts.get''}. \<exists>prefix \<in> set prefixes. prefix \<noteq> [] \<and> take (length prefix) scope = prefix"
    using scopes_stay_within_the_allowlist [OF sample_verifier sample_verified_twice]
    unfolding principal.select_convs by blast
  then show ?thesis by blast
qed

theorem production_checks_the_audience_witness:
  "\<exists>issuer key opts. unverified_issuer sample_jwt ''t'' = Inr issuer \<and> jl_decode sample_jwt ''t'' key opts = Inr sample_claims
    \<and> do_issuer opts = issuer \<and> do_verify_aud opts \<and> do_audience opts = s_jwt_audience sample_settings"
proof -
  have "validated_settings sample_settings = Inr sample_settings"
    by (simp add: validated_settings_def local_key_only_in_local_def audience_required_outside_local_def sample_settings_def truthy_def)
  moreover have "get_token_verifier (\<lambda>_. Inl ValueError :: exc + nat pem_key) id sample_settings
      = Inr \<lparr>tv_issuers = [(''https://id'', [''statement.''])], tv_audience = Some ''statement'', tv_public_key = None, tv_jwks_clients = []\<rparr>"
    using sample_verifier by (simp add: get_token_verifier_def sample_settings_def)
  ultimately show ?thesis
    using production_checks_the_audience [of sample_settings sample_settings "\<lambda>_. Inl ValueError :: exc + nat pem_key" id, OF _ _ _ sample_verified_twice]
    by (auto simp: sample_settings_def sample_jwt_def)
qed

definition local_settings :: settings where
  "local_settings = \<lparr>s_app_env = Env_LOCAL, s_database_sync_url = [], s_database_async_url = [],
     s_database_pgq_url = [], s_amqp_dsn = [], s_jwt_issuers = [(''local'', [''statement.''])], s_jwt_audience = None,
     s_jwt_local_private_key = Some ''k'', s_version_token_secret = [],
     s_log_level = ''INFO'', s_ledger_verify_accounts_per_run = 100, s_ledger_verify_rows_per_account = 1000,
     s_ledger_verify_max_checkpoint_age_seconds = 3600, s_amqp_graceful_timeout = 10\<rparr>"

text \<open>A library that knows one token.\<close>

definition minted_sample :: claims where
  "minted_sample = [(''iss'', J_str ''local''), (''sub'', J_str (uuid_str 7)), (''scopes'', J_list []), (''iat'', J_num 0), (''exp'', J_num 60)]"

definition minted_jwt :: "int \<Rightarrow> nat jwt_library" where
  "minted_jwt t = \<lparr>jl_peek = \<lambda>_. Inr minted_sample,
     jl_decode = \<lambda>_ _ opts. if ''RS256'' \<in> set (do_algorithms opts) \<and> claims_accepted t opts minted_sample
       then Inr minted_sample else Inl InvalidTokenError,
     jl_jwks_key = \<lambda>_ _. Inr 3\<rparr>"

lemma minted_jwt_decodes: "decodes_minted t (minted_jwt t) key token minted_sample"
  by (simp add: decodes_minted_def minted_jwt_def is_invalid_token_def)

theorem minted_token_gives_its_role_witness:
  "let v = \<lparr>tv_issuers = [(''local'', [''statement.''])], tv_audience = None, tv_public_key = Some (3::nat), tv_jwks_clients = []\<rparr>
   in fst (get_principal (minted_jwt 74) v [] (Some ''t'')) = Inr \<lparr>pr_sub = 7, pr_scopes = {}\<rparr>
    \<and> fst (get_principal (minted_jwt 75) v [] (Some ''t'')) = Inl (HTTPException 401 (Message ''Invalid token''))"
proof -
  have c: "minted_claims local_settings 1 0 (Some (uuid_str 7)) (Some (role_value Role_CUSTOMER)) (Some ''local'') 60 = Inr minted_sample"
    using role_scopes(2) by (simp add: minted_claims_def minted_sample_def role_of_def truthy_def local_settings_def)
  have k: "load_private_key (\<lambda>_. Inr (Rsa_key (3::nat))) local_settings = Inr 3"
    by (simp add: load_private_key_def local_settings_def truthy_def)
  have v: "build_local_verifier (\<lambda>_. Inr (Rsa_key (3::nat))) id local_settings
      = Inr \<lparr>tv_issuers = [(''local'', [''statement.''])], tv_audience = None, tv_public_key = Some 3, tv_jwks_clients = []\<rparr>"
    by (simp add: build_local_verifier_def k) (simp add: create_verifier_def local_settings_def)
  have m: "mint_token (\<lambda>_. Inr (Rsa_key (3::nat))) (\<lambda>_ _. ''t'') local_settings 1 0 (Some (uuid_str 7)) (Some (role_value Role_CUSTOMER)) (Some ''local'') 60 = Inr ''t''"
    using c k by (simp add: mint_token_def)
  have p: "starts_with_any [''statement.''] (permission_value permission)" for permission
    by (cases permission) (simp_all add: starts_with_any_def)
  have "fst (get_principal (minted_jwt t) (after_tokens [] \<lparr>tv_issuers = [(''local'', [''statement.''])], tv_audience = None,
        tv_public_key = Some (3::nat), tv_jwks_clients = []\<rparr>) [] (Some ''t''))
      = (if -15 \<le> t \<and> t < 75 then Inr \<lparr>pr_sub = 7, pr_scopes = {}\<rparr> else Inl (HTTPException 401 (Message ''Invalid token'')))" for t
    using minted_token_gives_its_role [OF c k m minted_jwt_decodes v, where prefixes = "[''statement.'']" and seen = "[]" and t = t] p
    by (simp add: local_settings_def)
  from this [of 74] this [of 75] show ?thesis by (simp add: Let_def)
qed

end
