(* ===== verification/Schema_Ops.thy ===== *)
theory Schema_Ops
  imports VersionedHistory
begin

text \<open>
  What a migration can do to a database: Alembic's operations as PostgreSQL executes them, on tables
  with their columns, constraints, indexes and rows. An operation that PostgreSQL refuses is an error
  value; a migration runs in one transaction, so an error leaves the database as it was.
\<close>

section \<open>Databases\<close>

datatype sql_type =
    Uuid_t | Text_t | Varchar_t nat | Timestamptz_t | Timestamp_t | Numeric_t nat nat | Integer_t | Bigint_t

datatype sql_value = V_text string | V_uuid uuid | V_int int | V_time timestamp

text \<open>A row maps columns to values; a column without a value is \<open>NULL\<close>.\<close>

type_synonym row = "string \<rightharpoonup> sql_value"

type_synonym table_constraint = "constraint_kind \<times> string list"

record stored_column =
  sc_name :: string
  sc_type :: sql_type
  sc_nullable :: bool
  sc_default :: bool
  sc_identity :: bool

record stored_index =
  si_columns :: "string list"
  si_unique :: bool
  si_where :: "string option"

record stored_table =
  st_columns :: "stored_column list"
  st_constraints :: "(string \<times> table_constraint) list"
  st_indexes :: "(string \<times> stored_index) list"
  st_rows :: "row list"

type_synonym database = "(string \<times> stored_table) list"

datatype db_error =
    Undefined_table string
  | Undefined_column string
  | Undefined_object string
  | Duplicate_table string
  | Duplicate_column string
  | Duplicate_object string
  | Dependent_objects string
  | Invalid_foreign_key string
  | Invalid_definition string
  | Not_null_violation string
  | Unique_violation string
  | Foreign_key_violation string
  | String_truncation string

definition column_names :: "stored_table \<Rightarrow> string list" where
  "column_names x = map sc_name (st_columns x)"

definition is_key :: "table_constraint \<Rightarrow> bool" where
  "is_key k \<longleftrightarrow> fst k = PrimaryKeyC \<or> fst k = UniqueC"

text \<open>Tables, indexes and the indexes behind keys share one name space; constraints have one per table.\<close>

definition relation_names :: "database \<Rightarrow> string list" where
  "relation_names db = concat (map (\<lambda>(t, x). t # map fst (st_indexes x)
     @ map fst (filter (\<lambda>(n, k). is_key k) (st_constraints x))) db)"

definition set_table :: "string \<Rightarrow> stored_table \<Rightarrow> database \<Rightarrow> database" where
  "set_table t x db = map (\<lambda>(n, y). if n = t then (n, x) else (n, y)) db"

definition with_table :: "string \<Rightarrow> (stored_table \<Rightarrow> db_error + stored_table) \<Rightarrow> database \<Rightarrow> db_error + database" where
  "with_table t f db = (case map_of db t of
     None \<Rightarrow> Inl (Undefined_table t)
   | Some x \<Rightarrow> map_sum id (\<lambda>y. set_table t y db) (f x))"

section \<open>What constraints say of rows\<close>

definition filled :: "string list \<Rightarrow> row \<Rightarrow> bool" where
  "filled cs r = list_all (\<lambda>c. r c \<noteq> None) cs"

definition distinct_on :: "string list \<Rightarrow> row list \<Rightarrow> bool" where
  "distinct_on cs rows = distinct (map (\<lambda>r. map r cs) (filter (filled cs) rows))"

definition refers_to :: "row list \<Rightarrow> string list \<Rightarrow> row list \<Rightarrow> string list \<Rightarrow> bool" where
  "refers_to rows cs rows' rs = list_all (\<lambda>r. filled cs r \<longrightarrow> list_ex (\<lambda>r'. map r' rs = map r cs) rows') rows"

definition add_constraint :: "database \<Rightarrow> string \<Rightarrow> table_constraint \<Rightarrow> stored_table \<Rightarrow> db_error + stored_table" where
  "add_constraint db name k x =
     (let kind = fst k; cs = snd k
      in if name \<in> set (map fst (st_constraints x)) \<or> is_key k \<and> name \<in> set (relation_names db)
         then Inl (Duplicate_object name)
         else if \<not> list_all (\<lambda>c. c \<in> set (column_names x)) cs then Inl (Undefined_column name)
         else let done = Inr (x\<lparr>st_constraints := st_constraints x @ [(name, k)]\<rparr>)
         in case kind of
              PrimaryKeyC \<Rightarrow>
                if list_ex (\<lambda>(n, k'). fst k' = PrimaryKeyC) (st_constraints x) then Inl (Invalid_definition name)
                else if \<not> list_all (filled cs) (st_rows x) then Inl (Not_null_violation name)
                else if \<not> distinct_on cs (st_rows x) then Inl (Unique_violation name)
                else Inr (x\<lparr>st_columns := map (\<lambda>c. if sc_name c \<in> set cs then c\<lparr>sc_nullable := False\<rparr> else c) (st_columns x),
                            st_constraints := st_constraints x @ [(name, k)]\<rparr>)
            | UniqueC \<Rightarrow> if \<not> distinct_on cs (st_rows x) then Inl (Unique_violation name) else done
            | ForeignKeyC t rs \<Rightarrow>
                (case map_of db t of
                   None \<Rightarrow> Inl (Undefined_table t)
                 | Some y \<Rightarrow>
                     if \<not> list_ex (\<lambda>(n, k'). is_key k' \<and> set (snd k') = set rs) (st_constraints y) then Inl (Invalid_foreign_key name)
                     else if \<not> refers_to (st_rows x) cs (st_rows y) rs then Inl (Foreign_key_violation name)
                     else done)
            | CheckC \<Rightarrow> done)"

text \<open>A key is needed as long as a foreign key, of any table, refers to its columns.\<close>

definition referenced :: "database \<Rightarrow> string \<Rightarrow> string list \<Rightarrow> bool" where
  "referenced db t cs = list_ex (\<lambda>(n, x). list_ex (\<lambda>(m, k). case fst k of
       ForeignKeyC t' rs \<Rightarrow> t' = t \<and> set rs = set cs | _ \<Rightarrow> False) (st_constraints x)) db"

section \<open>Operations\<close>

datatype operation =
    Create_table string "stored_column list" "table_constraint list"
  | Drop_table string
  | Create_index string string "string list" bool "string option"
  | Drop_index string
  | Add_column string stored_column
  | Drop_column string string
  | Alter_type string string sql_type
  | Set_nullable string string bool
  | Rename_column string string string
  | Create_constraint string string table_constraint
  | Drop_constraint string string

text \<open>
  \<open>CREATE TABLE\<close>: a constraint without a name gets the one the naming convention makes of its table
  and columns.
\<close>

fun add_all :: "(string \<Rightarrow> table_constraint \<Rightarrow> string) \<Rightarrow> string \<Rightarrow> database \<Rightarrow> table_constraint list
    \<Rightarrow> stored_table \<Rightarrow> db_error + stored_table" where
  "add_all naming t db [] x = Inr x"
| "add_all naming t db (k # ks) x =
     (case add_constraint db (naming t k) k x of Inl e \<Rightarrow> Inl e | Inr y \<Rightarrow> add_all naming t db ks y)"

definition create_table :: "(string \<Rightarrow> table_constraint \<Rightarrow> string) \<Rightarrow> string \<Rightarrow> stored_column list
    \<Rightarrow> table_constraint list \<Rightarrow> database \<Rightarrow> db_error + database" where
  "create_table naming t cols ks db =
     (if t \<in> set (relation_names db) then Inl (Duplicate_table t)
      else if \<not> distinct (map sc_name cols) then Inl (Duplicate_column t)
      else map_sum id (\<lambda>x. db @ [(t, x)])
        (add_all naming t db ks \<lparr>st_columns = cols, st_constraints = [], st_indexes = [], st_rows = []\<rparr>))"

definition drop_table :: "string \<Rightarrow> database \<Rightarrow> db_error + database" where
  "drop_table t db =
     (if t \<notin> fst ` set db then Inl (Undefined_table t)
      else if list_ex (\<lambda>(n, x). n \<noteq> t \<and> list_ex (\<lambda>(m, k). case fst k of ForeignKeyC t' rs \<Rightarrow> t' = t | _ \<Rightarrow> False)
          (st_constraints x)) db
      then Inl (Dependent_objects t)
      else Inr (filter (\<lambda>(n, x). n \<noteq> t) db))"

definition create_index :: "string \<Rightarrow> string list \<Rightarrow> bool \<Rightarrow> string option \<Rightarrow> database \<Rightarrow> stored_table \<Rightarrow> db_error + stored_table" where
  "create_index name cs unique cond db x =
     (if name \<in> set (relation_names db) then Inl (Duplicate_object name)
      else if \<not> list_all (\<lambda>c. c \<in> set (column_names x)) (cs @ (case cond of None \<Rightarrow> [] | Some c \<Rightarrow> [c])) then Inl (Undefined_column name)
      else if unique \<and> \<not> distinct_on cs (filter (\<lambda>r. case cond of None \<Rightarrow> True | Some c \<Rightarrow> r c = None) (st_rows x))
      then Inl (Unique_violation name)
      else Inr (x\<lparr>st_indexes := st_indexes x @ [(name, \<lparr>si_columns = cs, si_unique = unique, si_where = cond\<rparr>)]\<rparr>))"

text \<open>\<open>DROP INDEX\<close> names the index alone.\<close>

definition drop_index :: "string \<Rightarrow> database \<Rightarrow> db_error + database" where
  "drop_index name db =
     (if \<not> list_ex (\<lambda>(t, x). name \<in> set (map fst (st_indexes x))) db then Inl (Undefined_object name)
      else Inr (map (\<lambda>(t, x). (t, x\<lparr>st_indexes := filter (\<lambda>(n, i). n \<noteq> name) (st_indexes x)\<rparr>)) db))"

definition add_column :: "stored_column \<Rightarrow> stored_table \<Rightarrow> db_error + stored_table" where
  "add_column c x =
     (if sc_name c \<in> set (column_names x) then Inl (Duplicate_column (sc_name c))
      else if \<not> sc_nullable c \<and> \<not> sc_default c \<and> st_rows x \<noteq> [] then Inl (Not_null_violation (sc_name c))
      else Inr (x\<lparr>st_columns := st_columns x @ [c]\<rparr>))"

text \<open>Dropping a column drops the indexes and constraints that use it.\<close>

definition drop_column :: "string \<Rightarrow> string \<Rightarrow> database \<Rightarrow> stored_table \<Rightarrow> db_error + stored_table" where
  "drop_column t c db x =
     (if c \<notin> set (column_names x) then Inl (Undefined_column c)
      else if list_ex (\<lambda>(n, k). is_key k \<and> c \<in> set (snd k) \<and> referenced db t (snd k)) (st_constraints x)
      then Inl (Dependent_objects c)
      else Inr (x\<lparr>st_columns := filter (\<lambda>d. sc_name d \<noteq> c) (st_columns x),
                  st_constraints := filter (\<lambda>(n, k). c \<notin> set (snd k)) (st_constraints x),
                  st_indexes := filter (\<lambda>(n, i). c \<notin> set (si_columns i) \<and> si_where i \<noteq> Some c) (st_indexes x),
                  st_rows := map (\<lambda>r. r(c := None)) (st_rows x)\<rparr>))"

text \<open>A value as another type holds it: a text longer than the new length fits only if what is cut off is
  blank.\<close>

definition cast_value :: "sql_type \<Rightarrow> sql_value \<Rightarrow> sql_value option" where
  "cast_value ty v = (case (ty, v) of
     (Varchar_t n, V_text s) \<Rightarrow>
       if length s \<le> n then Some v
       else if list_all (\<lambda>c. c = CHR '' '') (drop n s) then Some (V_text (take n s)) else None
   | _ \<Rightarrow> Some v)"

definition alter_type :: "string \<Rightarrow> sql_type \<Rightarrow> stored_table \<Rightarrow> db_error + stored_table" where
  "alter_type c ty x =
     (if c \<notin> set (column_names x) then Inl (Undefined_column c)
      else if list_ex (\<lambda>r. case r c of None \<Rightarrow> False | Some v \<Rightarrow> cast_value ty v = None) (st_rows x) then Inl (String_truncation c)
      else Inr (x\<lparr>st_columns := map (\<lambda>d. if sc_name d = c then d\<lparr>sc_type := ty\<rparr> else d) (st_columns x),
                  st_rows := map (\<lambda>r. r(c := Option.bind (r c) (cast_value ty))) (st_rows x)\<rparr>))"

definition set_nullable :: "string \<Rightarrow> bool \<Rightarrow> stored_table \<Rightarrow> db_error + stored_table" where
  "set_nullable c nullable x =
     (if c \<notin> set (column_names x) then Inl (Undefined_column c)
      else if nullable \<and> list_ex (\<lambda>(n, k). fst k = PrimaryKeyC \<and> c \<in> set (snd k)) (st_constraints x)
      then Inl (Invalid_definition c)
      else if \<not> nullable \<and> list_ex (\<lambda>r. r c = None) (st_rows x) then Inl (Not_null_violation c)
      else Inr (x\<lparr>st_columns := map (\<lambda>d. if sc_name d = c then d\<lparr>sc_nullable := nullable\<rparr> else d) (st_columns x)\<rparr>))"

text \<open>Renaming a column renames it in every constraint and index, and in the foreign keys of other tables.\<close>

definition rename_to :: "string \<Rightarrow> string \<Rightarrow> string \<Rightarrow> string" where
  "rename_to c c' d = (if d = c then c' else d)"

definition renamed_constraint :: "string \<Rightarrow> string \<Rightarrow> string \<Rightarrow> bool \<Rightarrow> table_constraint \<Rightarrow> table_constraint" where
  "renamed_constraint t c c' own k =
     (case fst k of
        ForeignKeyC t' rs \<Rightarrow> ForeignKeyC t' (if t' = t then map (rename_to c c') rs else rs)
      | kind \<Rightarrow> kind,
      if own then map (rename_to c c') (snd k) else snd k)"

definition renamed_table :: "string \<Rightarrow> string \<Rightarrow> string \<Rightarrow> bool \<Rightarrow> stored_table \<Rightarrow> stored_table" where
  "renamed_table t c c' own x =
     (let y = x\<lparr>st_constraints := map (\<lambda>(n, k). (n, renamed_constraint t c c' own k)) (st_constraints x)\<rparr>
      in if own
         then y\<lparr>st_columns := map (\<lambda>d. d\<lparr>sc_name := rename_to c c' (sc_name d)\<rparr>) (st_columns y),
                st_indexes := map (\<lambda>(n, i). (n, i\<lparr>si_columns := map (rename_to c c') (si_columns i),
                  si_where := map_option (rename_to c c') (si_where i)\<rparr>)) (st_indexes y),
                st_rows := map (\<lambda>r. r(c' := r c, c := None)) (st_rows y)\<rparr>
         else y)"

definition rename_column :: "string \<Rightarrow> string \<Rightarrow> string \<Rightarrow> database \<Rightarrow> db_error + database" where
  "rename_column t c c' db =
     (case map_of db t of
        None \<Rightarrow> Inl (Undefined_table t)
      | Some x \<Rightarrow>
          if c \<notin> set (column_names x) then Inl (Undefined_column c)
          else if c' \<in> set (column_names x) then Inl (Duplicate_column c')
          else Inr (map (\<lambda>(n, y). (n, renamed_table t c c' (n = t) y)) db))"

definition drop_constraint :: "string \<Rightarrow> string \<Rightarrow> database \<Rightarrow> stored_table \<Rightarrow> db_error + stored_table" where
  "drop_constraint name t db x =
     (case map_of (st_constraints x) name of
        None \<Rightarrow> Inl (Undefined_object name)
      | Some k \<Rightarrow>
          if is_key k \<and> referenced db t (snd k) then Inl (Dependent_objects name)
          else Inr (x\<lparr>st_constraints := filter (\<lambda>(n, k). n \<noteq> name) (st_constraints x)\<rparr>))"

fun run_operation :: "(string \<Rightarrow> table_constraint \<Rightarrow> string) \<Rightarrow> operation \<Rightarrow> database \<Rightarrow> db_error + database" where
  "run_operation naming (Create_table t cols ks) db = create_table naming t cols ks db"
| "run_operation naming (Drop_table t) db = drop_table t db"
| "run_operation naming (Create_index name t cs unique cond) db = with_table t (create_index name cs unique cond db) db"
| "run_operation naming (Drop_index name) db = drop_index name db"
| "run_operation naming (Add_column t c) db = with_table t (add_column c) db"
| "run_operation naming (Drop_column t c) db = with_table t (drop_column t c db) db"
| "run_operation naming (Alter_type t c ty) db = with_table t (alter_type c ty) db"
| "run_operation naming (Set_nullable t c nullable) db = with_table t (set_nullable c nullable) db"
| "run_operation naming (Rename_column t c c') db = rename_column t c c' db"
| "run_operation naming (Create_constraint name t k) db = with_table t (add_constraint db name k) db"
| "run_operation naming (Drop_constraint name t) db = with_table t (drop_constraint name t db) db"

fun run_operations :: "(string \<Rightarrow> table_constraint \<Rightarrow> string) \<Rightarrow> operation list \<Rightarrow> database \<Rightarrow> db_error + database" where
  "run_operations naming [] db = Inr db"
| "run_operations naming (op # ops) db =
     (case run_operation naming op db of Inl e \<Rightarrow> Inl e | Inr db' \<Rightarrow> run_operations naming ops db')"

lemma run_operations_append:
  "run_operations naming (ops @ ops') db =
     (case run_operations naming ops db of Inl e \<Rightarrow> Inl e | Inr db' \<Rightarrow> run_operations naming ops' db')"
  by (induction ops arbitrary: db) (simp_all split: sum.split)

end
