(* ===== verification/Migrations.thy ===== *)
theory Migrations
  imports Schema_Ops Entities
begin

text \<open>
  The revisions under \<open>migrations/versions\<close> as lists of operations, in the order of their
  \<open>down_revision\<close>, and the naming convention of \<open>domain/entities/base.py\<close>, which Alembic takes from
  the target metadata to name constraints that have no name.
\<close>

section \<open>Names\<close>

definition joined :: "string list \<Rightarrow> string" where
  "joined cs = concat (map (\<lambda>c. CHR ''_'' # c) cs)"

definition naming_convention :: "string \<Rightarrow> table_constraint \<Rightarrow> string" where
  "naming_convention t k = (case fst k of
     PrimaryKeyC \<Rightarrow> ''pk_'' @ t
   | UniqueC \<Rightarrow> ''uq_'' @ t @ joined (snd k)
   | ForeignKeyC referred rs \<Rightarrow> ''fk_'' @ t @ joined (snd k) @ ''_'' @ referred
   | CheckC \<Rightarrow> ''ck_'' @ t)"

definition index_convention :: "string \<Rightarrow> string list \<Rightarrow> string option" where
  "index_convention t cs = Some (''ix_'' @ t @ joined cs)"

text \<open>The names PostgreSQL gives when the statement has none.\<close>

definition postgres_names :: "string \<Rightarrow> table_constraint \<Rightarrow> string" where
  "postgres_names t k = (case fst k of
     PrimaryKeyC \<Rightarrow> t @ ''_pkey''
   | UniqueC \<Rightarrow> t @ joined (snd k) @ ''_key''
   | ForeignKeyC referred rs \<Rightarrow> t @ joined (snd k) @ ''_fkey''
   | CheckC \<Rightarrow> t @ ''_check'')"

text \<open>\<open>sa.Column\<close>, with \<open>server_default=now()\<close>, and \<open>sa.Enum(..., native_enum=False)\<close>, which is a
  \<open>VARCHAR\<close> as long as its longest label.\<close>

definition column :: "string \<Rightarrow> sql_type \<Rightarrow> bool \<Rightarrow> stored_column" where
  "column c ty nullable = \<lparr>sc_name = c, sc_type = ty, sc_nullable = nullable, sc_default = False, sc_identity = False\<rparr>"

definition stamped :: "string \<Rightarrow> stored_column" where
  "stamped c = (column c Timestamptz_t False)\<lparr>sc_default := True\<rparr>"

definition enum_type :: "string list \<Rightarrow> sql_type" where
  "enum_type labels = Varchar_t (foldr max (map length labels) 0)"

definition money_type :: sql_type where
  "money_type = Numeric_t 16 2"

definition primary_key :: "string list \<Rightarrow> table_constraint" where
  "primary_key cs = (PrimaryKeyC, cs)"

definition unique_key :: "string list \<Rightarrow> table_constraint" where
  "unique_key cs = (UniqueC, cs)"

definition foreign_key :: "string list \<Rightarrow> string \<Rightarrow> string list \<Rightarrow> table_constraint" where
  "foreign_key cs t rs = (ForeignKeyC t rs, cs)"

section \<open>aa539c10694e: the initial tables\<close>

definition upgrade_aa539c10694e :: "operation list" where
  "upgrade_aa539c10694e =
    [Create_table ''customer''
       [column ''id'' Uuid_t False,
        column ''email'' Text_t False,
        column ''name'' Text_t True,
        column ''status'' Text_t False,
        column ''created_at'' Timestamptz_t False,
        column ''updated_at'' Timestamptz_t True]
       [primary_key [''id''],
        unique_key [''email'']],
     Create_index ''ix_customer_created_at'' ''customer'' [''created_at''] False None,
     Create_table ''customer_account''
       [column ''id'' Uuid_t False,
        column ''customer_id'' Uuid_t False,
        column ''currency'' Text_t False,
        column ''name'' Text_t True,
        column ''status'' Text_t False,
        stamped ''created_at'',
        stamped ''updated_at'',
        column ''updated_by'' Uuid_t True,
        column ''version'' Integer_t False]
       [foreign_key [''customer_id''] ''customer'' [''id''],
        primary_key [''id'']],
     Create_index ''ix_customer_account_created_at'' ''customer_account'' [''created_at''] False None,
     Create_index ''ix_customer_account_customer_id'' ''customer_account'' [''customer_id''] False None,
     Create_table ''customer_account_history''
       [column ''id'' Uuid_t False,
        column ''customer_id'' Uuid_t False,
        column ''currency'' Text_t False,
        column ''name'' Text_t True,
        column ''status'' Text_t False,
        column ''created_at'' Timestamptz_t False,
        column ''updated_at'' Timestamptz_t False,
        column ''updated_by'' Uuid_t True,
        column ''version'' Integer_t False,
        column ''changed'' Timestamp_t True]
       [foreign_key [''customer_id''] ''customer'' [''id''],
        primary_key [''id'', ''version'']],
     Create_index ''ix_customer_account_history_created_at_history'' ''customer_account_history'' [''created_at''] False None,
     Create_index ''ix_customer_account_history_customer_id_history'' ''customer_account_history'' [''customer_id''] False None,
     Create_table ''customer_account_ledger''
       [column ''id'' Uuid_t False,
        column ''customer_account_id'' Uuid_t False,
        column ''amount'' money_type False,
        column ''operation_type'' Text_t False,
        column ''operation_id'' Uuid_t False,
        stamped ''created_at'']
       [foreign_key [''customer_account_id''] ''customer_account'' [''id''],
        primary_key [''id'']],
     Create_index ''ix_customer_account_ledger_created_at'' ''customer_account_ledger'' [''created_at''] False None,
     Create_index ''ix_customer_account_ledger_customer_account_id'' ''customer_account_ledger'' [''customer_account_id''] False None]"

definition downgrade_aa539c10694e :: "operation list" where
  "downgrade_aa539c10694e =
    [Drop_index ''ix_customer_account_ledger_customer_account_id'',
     Drop_index ''ix_customer_account_ledger_created_at'',
     Drop_table ''customer_account_ledger'',
     Drop_index ''ix_customer_account_history_customer_id_history'',
     Drop_index ''ix_customer_account_history_created_at_history'',
     Drop_table ''customer_account_history'',
     Drop_index ''ix_customer_account_customer_id'',
     Drop_index ''ix_customer_account_created_at'',
     Drop_table ''customer_account'',
     Drop_index ''ix_customer_created_at'',
     Drop_table ''customer'']"

section \<open>12138c6b3773: the unique key of an account\<close>

definition upgrade_12138c6b3773 :: "operation list" where
  "upgrade_12138c6b3773 =
    [Create_constraint ''uq_customer_account_id_currency'' ''customer_account'' (unique_key [''id'', ''currency''])]"

definition downgrade_12138c6b3773 :: "operation list" where
  "downgrade_12138c6b3773 =
    [Drop_constraint ''uq_customer_account_id_currency'' ''customer_account'']"

section \<open>f3bbd6b8a2f1: the ledger reworked\<close>

definition upgrade_f3bbd6b8a2f1 :: "operation list" where
  "upgrade_f3bbd6b8a2f1 =
    [Create_index ''ix_customer_account_currency'' ''customer_account'' [''currency''] False None,
     Create_index ''ix_customer_account_status'' ''customer_account'' [''status''] False None,
     Create_index ''ix_customer_account_history_currency_history'' ''customer_account_history'' [''currency''] False None,
     Create_index ''ix_customer_account_history_status_history'' ''customer_account_history'' [''status''] False None,
     Add_column ''customer_account_ledger'' (column ''no'' Bigint_t False),
     Add_column ''customer_account_ledger'' (column ''balance'' money_type False),
     Add_column ''customer_account_ledger'' (column ''created_by'' Uuid_t True),
     Drop_constraint ''customer_account_ledger_pkey'' ''customer_account_ledger'',
     Create_constraint ''customer_account_ledger_pkey'' ''customer_account_ledger'' (primary_key [''id'', ''no'']),
     Drop_index ''ix_customer_account_ledger_created_at'',
     Drop_index ''ix_customer_account_ledger_customer_account_id'',
     Create_index ''ix_customer_account_ledger_id_created_at'' ''customer_account_ledger'' [''id'', ''created_at''] False None,
     Create_constraint ''uq_customer_account_ledger_id_operation_id'' ''customer_account_ledger'' (unique_key [''id'', ''operation_id'']),
     Drop_constraint ''customer_account_ledger_customer_account_id_fkey'' ''customer_account_ledger'',
     Create_constraint ''fk_customer_account_ledger_id_customer_account_id'' ''customer_account_ledger'' (foreign_key [''id''] ''customer_account'' [''id'']),
     Drop_column ''customer_account_ledger'' ''customer_account_id'']"

definition downgrade_f3bbd6b8a2f1 :: "operation list" where
  "downgrade_f3bbd6b8a2f1 =
    [Add_column ''customer_account_ledger'' (column ''customer_account_id'' Uuid_t False),
     Drop_constraint ''fk_customer_account_ledger_id_customer_account_id'' ''customer_account_ledger'',
     Create_constraint ''customer_account_ledger_customer_account_id_fkey'' ''customer_account_ledger'' (foreign_key [''customer_account_id''] ''customer_account'' [''id'']),
     Drop_constraint ''uq_customer_account_ledger_id_operation_id'' ''customer_account_ledger'',
     Drop_index ''ix_customer_account_ledger_id_created_at'',
     Create_index ''ix_customer_account_ledger_customer_account_id'' ''customer_account_ledger'' [''customer_account_id''] False None,
     Create_index ''ix_customer_account_ledger_created_at'' ''customer_account_ledger'' [''created_at''] False None,
     Drop_constraint ''customer_account_ledger_pkey'' ''customer_account_ledger'',
     Create_constraint ''customer_account_ledger_pkey'' ''customer_account_ledger'' (primary_key [''id'']),
     Drop_column ''customer_account_ledger'' ''created_by'',
     Drop_column ''customer_account_ledger'' ''balance'',
     Drop_column ''customer_account_ledger'' ''no'',
     Drop_index ''ix_customer_account_history_status_history'',
     Drop_index ''ix_customer_account_history_currency_history'',
     Drop_index ''ix_customer_account_status'',
     Drop_index ''ix_customer_account_currency'']"

section \<open>0c306ff431c6: checkpoints\<close>

definition upgrade_0c306ff431c6 :: "operation list" where
  "upgrade_0c306ff431c6 =
    [Create_table ''customer_account_ledger_verified''
       [column ''id'' Uuid_t False,
        column ''through_no'' Bigint_t False,
        column ''balance'' money_type False,
        stamped ''verified_at'']
       [foreign_key [''id''] ''customer_account'' [''id''],
        primary_key [''id'', ''through_no'']],
     Create_index ''ix_customer_account_ledger_verified_id_verified_at'' ''customer_account_ledger_verified'' [''id'', ''verified_at''] False None]"

definition downgrade_0c306ff431c6 :: "operation list" where
  "downgrade_0c306ff431c6 =
    [Drop_index ''ix_customer_account_ledger_verified_id_verified_at'',
     Drop_table ''customer_account_ledger_verified'']"

section \<open>7b995588da96: discrepancies\<close>

definition upgrade_7b995588da96 :: "operation list" where
  "upgrade_7b995588da96 =
    [Create_table ''customer_account_ledger_discrepancy''
       [(column ''discrepancy_id'' Bigint_t False)\<lparr>sc_identity := True\<rparr>,
        column ''id'' Uuid_t False,
        column ''no'' Bigint_t False,
        column ''kind'' Text_t False,
        column ''prev_no'' Bigint_t False,
        column ''expected_balance'' money_type True,
        column ''actual_balance'' money_type False,
        stamped ''detected_at'',
        column ''resolved_at'' Timestamptz_t True,
        column ''resolved_by'' Uuid_t True]
       [foreign_key [''id''] ''customer_account'' [''id''],
        primary_key [''discrepancy_id'']],
     Create_index ''uq_customer_account_ledger_discrepancy_open'' ''customer_account_ledger_discrepancy'' [''id''] True (Some ''resolved_at'')]"

definition downgrade_7b995588da96 :: "operation list" where
  "downgrade_7b995588da96 =
    [Drop_index ''uq_customer_account_ledger_discrepancy_open'',
     Drop_table ''customer_account_ledger_discrepancy'']"

section \<open>d0b11413183a: \<open>account_id\<close>, enumerations, the unique currency per customer\<close>

definition upgrade_d0b11413183a_accounts :: "operation list" where
  "upgrade_d0b11413183a_accounts =
    [Alter_type ''customer'' ''status'' (enum_type [''ACTIVE'', ''DISABLED'']),
     Alter_type ''customer_account'' ''status'' (enum_type [''ACTIVE'', ''DISABLED'', ''DELETED'']),
     Set_nullable ''customer_account'' ''updated_by'' False,
     Drop_constraint ''uq_customer_account_id_currency'' ''customer_account'',
     Create_constraint ''uq_customer_account_customer_id_currency'' ''customer_account'' (unique_key [''customer_id'', ''currency'']),
     Alter_type ''customer_account_history'' ''status'' (enum_type [''ACTIVE'', ''DISABLED'', ''DELETED'']),
     Set_nullable ''customer_account_history'' ''updated_by'' False]"

definition upgrade_d0b11413183a_ledger :: "operation list" where
  "upgrade_d0b11413183a_ledger =
    [Rename_column ''customer_account_ledger'' ''id'' ''account_id'',
     Alter_type ''customer_account_ledger'' ''operation_type'' (enum_type [''CREATE'', ''DEPOSIT'', ''WITHDRAWAL'']),
     Drop_index ''ix_customer_account_ledger_id_created_at'',
     Drop_constraint ''uq_customer_account_ledger_id_operation_id'' ''customer_account_ledger'',
     Create_index ''ix_customer_account_ledger_account_id_created_at'' ''customer_account_ledger'' [''account_id'', ''created_at''] False None,
     Create_constraint ''uq_customer_account_ledger_account_id_operation_id'' ''customer_account_ledger'' (unique_key [''account_id'', ''operation_id'']),
     Drop_constraint ''fk_customer_account_ledger_id_customer_account_id'' ''customer_account_ledger'',
     Create_constraint ''fk_customer_account_ledger_account_id_customer_account_id'' ''customer_account_ledger'' (foreign_key [''account_id''] ''customer_account'' [''id''])]"

definition upgrade_d0b11413183a_verification :: "operation list" where
  "upgrade_d0b11413183a_verification =
    [Rename_column ''customer_account_ledger_discrepancy'' ''id'' ''account_id'',
     Alter_type ''customer_account_ledger_discrepancy'' ''kind'' (enum_type [''ANCHOR_BALANCE'', ''GAP'', ''BALANCE'', ''GAP_BALANCE'']),
     Drop_index ''uq_customer_account_ledger_discrepancy_open'',
     Create_index ''uq_customer_account_ledger_discrepancy_open'' ''customer_account_ledger_discrepancy'' [''account_id''] True (Some ''resolved_at''),
     Create_index ''ix_customer_account_ledger_discrepancy_kind'' ''customer_account_ledger_discrepancy'' [''kind''] False None,
     Drop_constraint ''customer_account_ledger_discrepancy_id_fkey'' ''customer_account_ledger_discrepancy'',
     Create_constraint ''fk_customer_account_ledger_discrepancy_account_id'' ''customer_account_ledger_discrepancy'' (foreign_key [''account_id''] ''customer_account'' [''id'']),
     Rename_column ''customer_account_ledger_verified'' ''id'' ''account_id'',
     Drop_index ''ix_customer_account_ledger_verified_id_verified_at'',
     Create_index ''ix_customer_account_ledger_verified_account_id_verified_at'' ''customer_account_ledger_verified'' [''account_id'', ''verified_at''] False None,
     Drop_constraint ''customer_account_ledger_verified_id_fkey'' ''customer_account_ledger_verified'',
     Create_constraint ''fk_customer_account_ledger_verified_account_id'' ''customer_account_ledger_verified'' (foreign_key [''account_id''] ''customer_account'' [''id''])]"

definition upgrade_d0b11413183a :: "operation list" where
  "upgrade_d0b11413183a = upgrade_d0b11413183a_accounts @ upgrade_d0b11413183a_ledger @ upgrade_d0b11413183a_verification"

definition downgrade_d0b11413183a_verification :: "operation list" where
  "downgrade_d0b11413183a_verification =
    [Rename_column ''customer_account_ledger_verified'' ''account_id'' ''id'',
     Drop_constraint ''fk_customer_account_ledger_verified_account_id'' ''customer_account_ledger_verified'',
     Create_constraint ''customer_account_ledger_verified_id_fkey'' ''customer_account_ledger_verified'' (foreign_key [''id''] ''customer_account'' [''id'']),
     Drop_index ''ix_customer_account_ledger_verified_account_id_verified_at'',
     Create_index ''ix_customer_account_ledger_verified_id_verified_at'' ''customer_account_ledger_verified'' [''id'', ''verified_at''] False None,
     Rename_column ''customer_account_ledger_discrepancy'' ''account_id'' ''id'',
     Drop_constraint ''fk_customer_account_ledger_discrepancy_account_id'' ''customer_account_ledger_discrepancy'',
     Create_constraint ''customer_account_ledger_discrepancy_id_fkey'' ''customer_account_ledger_discrepancy'' (foreign_key [''id''] ''customer_account'' [''id'']),
     Drop_index ''ix_customer_account_ledger_discrepancy_kind'',
     Drop_index ''uq_customer_account_ledger_discrepancy_open'',
     Create_index ''uq_customer_account_ledger_discrepancy_open'' ''customer_account_ledger_discrepancy'' [''id''] True (Some ''resolved_at''),
     Alter_type ''customer_account_ledger_discrepancy'' ''kind'' Text_t]"

definition downgrade_d0b11413183a_ledger :: "operation list" where
  "downgrade_d0b11413183a_ledger =
    [Rename_column ''customer_account_ledger'' ''account_id'' ''id'',
     Drop_constraint ''fk_customer_account_ledger_account_id_customer_account_id'' ''customer_account_ledger'',
     Create_constraint ''fk_customer_account_ledger_id_customer_account_id'' ''customer_account_ledger'' (foreign_key [''id''] ''customer_account'' [''id'']),
     Drop_constraint ''uq_customer_account_ledger_account_id_operation_id'' ''customer_account_ledger'',
     Drop_index ''ix_customer_account_ledger_account_id_created_at'',
     Create_constraint ''uq_customer_account_ledger_id_operation_id'' ''customer_account_ledger'' (unique_key [''id'', ''operation_id'']),
     Create_index ''ix_customer_account_ledger_id_created_at'' ''customer_account_ledger'' [''id'', ''created_at''] False None,
     Alter_type ''customer_account_ledger'' ''operation_type'' Text_t]"

definition downgrade_d0b11413183a_accounts :: "operation list" where
  "downgrade_d0b11413183a_accounts =
    [Set_nullable ''customer_account_history'' ''updated_by'' True,
     Alter_type ''customer_account_history'' ''status'' Text_t,
     Drop_constraint ''uq_customer_account_customer_id_currency'' ''customer_account'',
     Create_constraint ''uq_customer_account_id_currency'' ''customer_account'' (unique_key [''id'', ''currency'']),
     Set_nullable ''customer_account'' ''updated_by'' True,
     Alter_type ''customer_account'' ''status'' Text_t,
     Alter_type ''customer'' ''status'' Text_t]"

definition downgrade_d0b11413183a :: "operation list" where
  "downgrade_d0b11413183a = downgrade_d0b11413183a_verification @ downgrade_d0b11413183a_ledger @ downgrade_d0b11413183a_accounts"

section \<open>The chain of revisions\<close>

record revision =
  rv_id :: string
  rv_down :: "string option"
  rv_upgrade :: "operation list"
  rv_downgrade :: "operation list"

definition revisions :: "revision list" where
  "revisions =
    [\<lparr>rv_id = ''aa539c10694e'', rv_down = None, rv_upgrade = upgrade_aa539c10694e, rv_downgrade = downgrade_aa539c10694e\<rparr>,
     \<lparr>rv_id = ''12138c6b3773'', rv_down = Some ''aa539c10694e'', rv_upgrade = upgrade_12138c6b3773, rv_downgrade = downgrade_12138c6b3773\<rparr>,
     \<lparr>rv_id = ''f3bbd6b8a2f1'', rv_down = Some ''12138c6b3773'', rv_upgrade = upgrade_f3bbd6b8a2f1, rv_downgrade = downgrade_f3bbd6b8a2f1\<rparr>,
     \<lparr>rv_id = ''0c306ff431c6'', rv_down = Some ''f3bbd6b8a2f1'', rv_upgrade = upgrade_0c306ff431c6, rv_downgrade = downgrade_0c306ff431c6\<rparr>,
     \<lparr>rv_id = ''7b995588da96'', rv_down = Some ''0c306ff431c6'', rv_upgrade = upgrade_7b995588da96, rv_downgrade = downgrade_7b995588da96\<rparr>,
     \<lparr>rv_id = ''d0b11413183a'', rv_down = Some ''7b995588da96'', rv_upgrade = upgrade_d0b11413183a, rv_downgrade = downgrade_d0b11413183a\<rparr>]"

text \<open>
  \<open>alembic upgrade head\<close> runs the revisions that are still to come in one transaction: the outcome is the new database or an error, with nothing changed.
\<close>

fun run_revisions :: "(string \<Rightarrow> table_constraint \<Rightarrow> string) \<Rightarrow> revision list \<Rightarrow> database \<Rightarrow> db_error + database" where
  "run_revisions naming [] db = Inr db"
| "run_revisions naming (r # rs) db =
     (case run_operations naming (rv_upgrade r) db of Inl e \<Rightarrow> Inl e | Inr db' \<Rightarrow> run_revisions naming rs db')"

definition upgrade_head :: "(string \<Rightarrow> table_constraint \<Rightarrow> string) \<Rightarrow> database \<Rightarrow> db_error + database" where
  "upgrade_head naming db = run_revisions naming revisions db"

text \<open>\<open>env.py\<close> configures the run with the metadata of \<open>base.py\<close>, and so with its naming convention.\<close>

definition run_migrations_online :: "database \<Rightarrow> db_error + database" where
  "run_migrations_online db = upgrade_head naming_convention db"

end
