(* ===== verification/Declared_Schema.thy ===== *)
theory Declared_Schema
  imports Migrations
begin

text \<open>
  The tables as the entity classes declare them (\<open>domain/entities\<close>, \<open>infra/models/account.py\<close>), with
  the history table that \<open>_history_mapper\<close> derives, and when a stored table agrees with a declaration.
\<close>

definition declared_column :: "string \<Rightarrow> sql_type \<Rightarrow> bool \<Rightarrow> sql_type column" where
  "declared_column c ty nullable =
     \<lparr>col_name = c, col_type = ty, col_nullable = nullable, col_unique = False, col_has_default = False,
      col_autoincrement = False, col_primary_key = False, col_version_meta = False\<rparr>"

text \<open>\<open>default=\<close>, \<open>server_default=\<close>; and a column that is the primary key.\<close>

definition with_default :: "sql_type column \<Rightarrow> sql_type column" where
  "with_default c = c\<lparr>col_has_default := True\<rparr>"

definition key_column :: "string \<Rightarrow> sql_type \<Rightarrow> sql_type column" where
  "key_column c ty = (declared_column c ty False)\<lparr>col_primary_key := True\<rparr>"

text \<open>\<open>index=True\<close> on a column, and \<open>Index\<close> in \<open>__table_args__\<close>.\<close>

definition flag_index :: "string \<Rightarrow> string \<Rightarrow> index" where
  "flag_index t c = \<lparr>ix_name = index_convention t [c], ix_columns = [c], ix_unique = False, ix_where = None, ix_column_flag = True\<rparr>"

definition table_index :: "string \<Rightarrow> string list \<Rightarrow> index" where
  "table_index name cs = \<lparr>ix_name = Some name, ix_columns = cs, ix_unique = False, ix_where = None, ix_column_flag = False\<rparr>"

definition customer_table :: "sql_type table" where
  "customer_table =
    \<lparr>tab_name = ''customer'',
     tab_columns =
      [key_column ''id'' Uuid_t,
       (declared_column ''email'' Text_t False)\<lparr>col_unique := True\<rparr>,
       declared_column ''name'' Text_t True,
       with_default (declared_column ''status'' (enum_type (map customer_status_value [Cust_ACTIVE, Cust_DISABLED])) False),
       declared_column ''created_at'' Timestamptz_t False,
       declared_column ''updated_at'' Timestamptz_t True],
     tab_indexes = [flag_index ''customer'' ''created_at''],
     tab_constraints = [primary_key [''id''], unique_key [''email'']]\<rparr>"

definition account_table :: "sql_type table" where
  "account_table =
    \<lparr>tab_name = ''customer_account'',
     tab_columns =
      [key_column ''id'' Uuid_t,
       declared_column ''customer_id'' Uuid_t False,
       declared_column ''currency'' Text_t False,
       declared_column ''name'' Text_t True,
       with_default (declared_column ''status'' (enum_type (map account_status_value [Acc_ACTIVE, Acc_DISABLED, Acc_DELETED])) False),
       with_default (declared_column ''created_at'' Timestamptz_t False),
       with_default (declared_column ''updated_at'' Timestamptz_t False),
       declared_column ''updated_by'' Uuid_t False],
     tab_indexes = map (flag_index ''customer_account'') [''customer_id'', ''currency'', ''status'', ''created_at''],
     tab_constraints =
      [primary_key [''id''],
       foreign_key [''customer_id''] ''customer'' [''id''],
       unique_key [''customer_id'', ''currency'']]\<rparr>"

definition ledger_table :: "sql_type table" where
  "ledger_table =
    \<lparr>tab_name = ''customer_account_ledger'',
     tab_columns =
      [key_column ''account_id'' Uuid_t,
       key_column ''no'' Bigint_t,
       declared_column ''amount'' money_type False,
       declared_column ''balance'' money_type False,
       declared_column ''operation_type'' (enum_type (map operation_type_value [Op_CREATE, Op_DEPOSIT, Op_WITHDRAWAL])) False,
       declared_column ''operation_id'' Uuid_t False,
       with_default (declared_column ''created_at'' Timestamptz_t False),
       declared_column ''created_by'' Uuid_t True],
     tab_indexes = [table_index ''ix_customer_account_ledger_account_id_created_at'' [''account_id'', ''created_at'']],
     tab_constraints =
      [foreign_key [''account_id''] ''customer_account'' [''id''],
       primary_key [''account_id'', ''no''],
       unique_key [''account_id'', ''operation_id'']]\<rparr>"

definition verified_table :: "sql_type table" where
  "verified_table =
    \<lparr>tab_name = ''customer_account_ledger_verified'',
     tab_columns =
      [key_column ''account_id'' Uuid_t,
       key_column ''through_no'' Bigint_t,
       declared_column ''balance'' money_type False,
       with_default (declared_column ''verified_at'' Timestamptz_t False)],
     tab_indexes = [table_index ''ix_customer_account_ledger_verified_account_id_verified_at'' [''account_id'', ''verified_at'']],
     tab_constraints =
      [foreign_key [''account_id''] ''customer_account'' [''id''],
       primary_key [''account_id'', ''through_no'']]\<rparr>"

definition discrepancy_table :: "sql_type table" where
  "discrepancy_table =
    \<lparr>tab_name = ''customer_account_ledger_discrepancy'',
     tab_columns =
      [(key_column ''discrepancy_id'' Bigint_t)\<lparr>col_autoincrement := True\<rparr>,
       declared_column ''account_id'' Uuid_t False,
       declared_column ''no'' Bigint_t False,
       declared_column ''kind'' (enum_type (map discrepancy_kind_value [ANCHOR_BALANCE, GAP, BALANCE, GAP_BALANCE])) False,
       declared_column ''prev_no'' Bigint_t False,
       declared_column ''expected_balance'' money_type True,
       declared_column ''actual_balance'' money_type False,
       with_default (declared_column ''detected_at'' Timestamptz_t False),
       declared_column ''resolved_at'' Timestamptz_t True,
       declared_column ''resolved_by'' Uuid_t True],
     tab_indexes =
      [flag_index ''customer_account_ledger_discrepancy'' ''kind'',
       (table_index ''uq_customer_account_ledger_discrepancy_open'' [''account_id''])
         \<lparr>ix_unique := True, ix_where := Some ''resolved_at''\<rparr>],
     tab_constraints =
      [primary_key [''discrepancy_id''],
       foreign_key [''account_id''] ''customer_account'' [''id'']]\<rparr>"

definition declared_tables :: "sql_type table list" where
  "declared_tables =
    [customer_table, versioned_table Integer_t account_table,
     history_table index_convention Integer_t Timestamp_t account_table,
     ledger_table, verified_table, discrepancy_table]"

text \<open>
  Agreement: the same columns with types and nullability, the same constraints whatever their names, and
  the same indexes with their names.
\<close>

definition agrees :: "sql_type table \<Rightarrow> string \<times> stored_table \<Rightarrow> bool" where
  "agrees t s \<longleftrightarrow> tab_name t = fst s
     \<and> set (map (\<lambda>c. (col_name c, col_type c, col_nullable c)) (tab_columns t))
         = set (map (\<lambda>c. (sc_name c, sc_type c, sc_nullable c)) (st_columns (snd s)))
     \<and> set (tab_constraints t) = set (map snd (st_constraints (snd s)))
     \<and> set (map (\<lambda>i. (ix_name i, ix_columns i, ix_unique i, ix_where i)) (tab_indexes t))
         = set (map (\<lambda>(n, i). (Some n, si_columns i, si_unique i, si_where i)) (st_indexes (snd s)))"

end
