(* ===== verification/Migration_Properties.thy ===== *)
theory Migration_Properties
  imports Declared_Schema
begin

text \<open>
  What the migrations do: where they lead, what a downgrade undoes, what becomes of the rows, and why a
  fresh database does not get past the third revision.
\<close>

section \<open>Running the chain\<close>

definition same_table :: "string \<times> stored_table \<Rightarrow> string \<times> stored_table \<Rightarrow> bool" where
  "same_table s s' \<longleftrightarrow> fst s = fst s'
     \<and> set (st_columns (snd s)) = set (st_columns (snd s'))
     \<and> set (st_constraints (snd s)) = set (st_constraints (snd s'))
     \<and> set (st_indexes (snd s)) = set (st_indexes (snd s'))"

text \<open>Every revision up and down again on the way, and \<open>good\<close> of the database at the end.\<close>

fun round_trips :: "(string \<Rightarrow> table_constraint \<Rightarrow> string) \<Rightarrow> (database \<Rightarrow> bool) \<Rightarrow> revision list \<Rightarrow> database \<Rightarrow> bool" where
  "round_trips naming good [] db = good db"
| "round_trips naming good (r # rs) db =
     (case run_operations naming (rv_upgrade r) db of
        Inl e \<Rightarrow> False
      | Inr up \<Rightarrow> (case run_operations naming (rv_downgrade r) up of Inl e \<Rightarrow> False | Inr back \<Rightarrow> list_all2 same_table db back)
          \<and> round_trips naming good rs up)"

lemma round_trips_end: "round_trips naming good rs db \<Longrightarrow> \<exists>db'. run_revisions naming rs db = Inr db' \<and> good db'"
  by (induction rs arbitrary: db) (auto split: sum.splits)

lemma round_trips_each:
  assumes "round_trips naming good rs db" "k < length rs"
  shows "\<exists>before up back. run_revisions naming (take k rs) db = Inr before
    \<and> run_operations naming (rv_upgrade (rs ! k)) before = Inr up
    \<and> run_operations naming (rv_downgrade (rs ! k)) up = Inr back \<and> list_all2 same_table before back"
  using assms
proof (induction rs arbitrary: db k)
  case (Cons r rs)
  obtain up where up: "run_operations naming (rv_upgrade r) db = Inr up" "round_trips naming good rs up"
    using Cons.prems(1) by (auto split: sum.splits)
  show ?case
  proof (cases k)
    case 0
    then show ?thesis using Cons.prems(1) up by (auto split: sum.splits)
  next
    case (Suc j)
    then show ?thesis using Cons.IH [OF up(2), of j] Cons.prems(2) up(1) by simp
  qed
qed simp

lemma chain_checked: "round_trips postgres_names (list_all2 agrees declared_tables) revisions []"
  by code_simp

lemma postgres_names_differ: "postgres_names \<noteq> naming_convention"
proof
  assume "postgres_names = naming_convention"
  from fun_cong [OF fun_cong [OF this, of "''t''"], of "(CheckC, [])"] show False
    by (simp add: postgres_names_def naming_convention_def)
qed

lemma convention_checked: "round_trips naming_convention (\<lambda>_. True) (take 2 revisions) []"
  by code_simp

lemma convention_stops:
  "case run_revisions naming_convention (take 3 revisions) [] of
     Inl e \<Rightarrow> e = Undefined_object ''customer_account_ledger_pkey'' | Inr db \<Rightarrow> False"
  by code_simp

lemma fresh_database_stops:
  "case run_revisions naming_convention (take 2 revisions) [] of Inl e \<Rightarrow> False
   | Inr db \<Rightarrow> (case run_operations naming_convention upgrade_f3bbd6b8a2f1 db of
        Inl e \<Rightarrow> e = Undefined_object ''customer_account_ledger_pkey'' | Inr db' \<Rightarrow> False)"
  by code_simp

lemma run_revisions_append:
  "run_revisions naming (rs @ rs') db =
     (case run_revisions naming rs db of Inl e \<Rightarrow> Inl e | Inr db' \<Rightarrow> run_revisions naming rs' db')"
  by (induction rs arbitrary: db) (simp_all split: sum.split)

section \<open>What becomes of the rows\<close>

fun moved_by :: "operation \<Rightarrow> string \<Rightarrow> row \<Rightarrow> row" where
  "moved_by (Drop_column t' c) t r = (if t' = t then r(c := None) else r)"
| "moved_by (Alter_type t' c ty) t r = (if t' = t then r(c := Option.bind (r c) (cast_value ty)) else r)"
| "moved_by (Rename_column t' c c') t r = (if t' = t then r(c' := r c, c := None) else r)"
| "moved_by _ t r = r"

fun moved :: "operation list \<Rightarrow> string \<Rightarrow> row \<Rightarrow> row" where
  "moved [] t r = r"
| "moved (op # ops) t r = moved ops t (moved_by op t r)"

lemma moved_unchanged [simp]: "map (moved_by (Create_table a cols ks) t) rs = rs" "map (moved_by (Drop_table a) t) rs = rs"
  "map (moved_by (Drop_index a) t) rs = rs" "map (moved [] t) rs = rs"
  "map (moved_by (Create_index a b cs u w) t) rs = rs" "map (moved_by (Add_column a c) t) rs = rs"
  "map (moved_by (Set_nullable a d e) t) rs = rs" "map (moved_by (Create_constraint a b k) t) rs = rs"
  "map (moved_by (Drop_constraint a b) t) rs = rs"
  by (simp_all add: map_idI)

lemma map_sum_InrD: "map_sum id f s = Inr y \<Longrightarrow> \<exists>x. s = Inr x \<and> y = f x"
  by (cases s) simp_all

lemma map_of_set_table: "map_of (set_table t y db) t' = (if t' = t then map_option (\<lambda>_. y) (map_of db t) else map_of db t')"
  by (induction db) (auto simp: set_table_def)

lemma map_of_map_tables: "map_of (map (\<lambda>(n, y). (n, f n y)) db) t = map_option (f t) (map_of db t)"
  by (induction db) auto

lemma with_table_rows:
  assumes "with_table t' f db = Inr db'" "map_of db t = Some x"
    and "\<And>y. t' = t \<Longrightarrow> f x = Inr y \<Longrightarrow> st_rows y = map g (st_rows x)"
    and "t' \<noteq> t \<Longrightarrow> map g (st_rows x) = st_rows x"
  shows "\<exists>x'. map_of db' t = Some x' \<and> st_rows x' = map g (st_rows x)"
proof -
  obtain z y where "map_of db t' = Some z" "f z = Inr y" "db' = set_table t' y db"
    using assms(1) by (auto simp: with_table_def split: option.splits dest: map_sum_InrD)
  then show ?thesis using assms(2-4) by (cases "t' = t") (auto simp: map_of_set_table)
qed

lemma add_constraint_rows: "add_constraint db name k x = Inr y \<Longrightarrow> st_rows y = st_rows x"
  by (auto simp: add_constraint_def Let_def split: if_splits constraint_kind.splits option.splits)

lemma run_operation_rows:
  assumes "run_operation naming op db = Inr db'" "map_of db t = Some x" "op \<noteq> Drop_table t"
  shows "\<exists>x'. map_of db' t = Some x' \<and> st_rows x' = map (moved_by op t) (st_rows x)"
proof (cases op)
  case (Create_table t' cols ks)
  show ?thesis
    using assms(1,2) by (auto simp: Create_table create_table_def split: if_splits dest!: map_sum_InrD)
next
  case (Drop_table t')
  have "map_of (filter (\<lambda>(n, x). n \<noteq> t') db) t = map_of db t"
    using assms(3) Drop_table by (induction db) auto
  then show ?thesis using assms(1,2) by (auto simp: Drop_table drop_table_def split: if_splits)
next
  case (Drop_index n)
  show ?thesis
    using assms(1,2)
    by (auto simp: Drop_index drop_index_def map_of_map_tables [where f = "\<lambda>_ y. y\<lparr>st_indexes := filter (\<lambda>(m, i). m \<noteq> n) (st_indexes y)\<rparr>"] split: if_splits)
next
  case (Rename_column t' c c')
  then have "db' = map (\<lambda>(n, y). (n, renamed_table t' c c' (n = t') y)) db"
    using assms(1) by (auto simp: rename_column_def split: option.splits if_splits)
  then have "map_of db' t = Some (renamed_table t' c c' (t = t') x)"
    using assms(2) map_of_map_tables [of "\<lambda>n y. renamed_table t' c c' (n = t') y" db t] by simp
  then show ?thesis by (auto simp: Rename_column renamed_table_def Let_def map_idI)
next
  case (Create_index n t' cs u w)
  show ?thesis
    by (rule with_table_rows [OF assms(1) [unfolded Create_index run_operation.simps] assms(2)])
      (auto simp: Create_index create_index_def split: if_splits)
next
  case (Add_column t' c)
  show ?thesis
    by (rule with_table_rows [OF assms(1) [unfolded Add_column run_operation.simps] assms(2)])
      (auto simp: Add_column add_column_def split: if_splits)
next
  case (Drop_column t' c)
  show ?thesis
    by (rule with_table_rows [OF assms(1) [unfolded Drop_column run_operation.simps] assms(2)])
      (auto simp: Drop_column drop_column_def map_idI split: if_splits)
next
  case (Alter_type t' c ty)
  show ?thesis
    by (rule with_table_rows [OF assms(1) [unfolded Alter_type run_operation.simps] assms(2)])
      (auto simp: Alter_type alter_type_def map_idI split: if_splits)
next
  case (Set_nullable t' c b)
  show ?thesis
    by (rule with_table_rows [OF assms(1) [unfolded Set_nullable run_operation.simps] assms(2)])
      (auto simp: Set_nullable set_nullable_def split: if_splits)
next
  case (Create_constraint n t' k)
  show ?thesis
    by (rule with_table_rows [OF assms(1) [unfolded Create_constraint run_operation.simps] assms(2)])
      (auto simp: Create_constraint dest: add_constraint_rows)
next
  case (Drop_constraint n t')
  show ?thesis
    by (rule with_table_rows [OF assms(1) [unfolded Drop_constraint run_operation.simps] assms(2)])
      (auto simp: Drop_constraint drop_constraint_def split: if_splits option.splits)
qed

lemma run_operations_rows:
  assumes "run_operations naming ops db = Inr db'" "map_of db t = Some x" "Drop_table t \<notin> set ops"
  shows "\<exists>x'. map_of db' t = Some x' \<and> st_rows x' = map (moved ops t) (st_rows x)"
  using assms
proof (induction ops arbitrary: db x)
  case (Cons op ops)
  obtain db1 where s: "run_operation naming op db = Inr db1" "run_operations naming ops db1 = Inr db'"
    using Cons.prems(1) by (auto split: sum.splits)
  obtain x1 where x1: "map_of db1 t = Some x1" "st_rows x1 = map (moved_by op t) (st_rows x)"
    using run_operation_rows [OF s(1) Cons.prems(2)] Cons.prems(3) by auto
  show ?case using Cons.IH [OF s(2) x1(1)] Cons.prems(3) x1(2) by auto
qed simp

text \<open>A populated database cannot get a column without a value for its rows.\<close>

lemma full_table_gets_no_bare_column:
  assumes "map_of db t = Some x" "st_rows x \<noteq> []" "Drop_table t \<notin> set ops"
    and "\<not> sc_nullable c" "\<not> sc_default c"
  shows "\<exists>e. run_operations naming (ops @ Add_column t c # ops') db = Inl e"
proof (cases "run_operations naming ops db")
  case (Inl e)
  then show ?thesis by (simp add: run_operations_append)
next
  case (Inr db1)
  obtain x1 where x1: "map_of db1 t = Some x1" "st_rows x1 = map (moved ops t) (st_rows x)"
    using run_operations_rows [OF Inr assms(1,3)] by blast
  then have "\<exists>e. add_column c x1 = Inl e" using assms(2,4,5) by (simp add: add_column_def)
  then show ?thesis using Inr x1(1) by (auto simp: run_operations_append with_table_def)
qed

section \<open>Properties\<close>

text \<open>C29: \<open>alembic upgrade head\<close>, as the README asks for it, fails on a fresh database. The first two
  revisions run, but \<open>env.py\<close> hands Alembic the naming convention of \<open>base.py\<close>, which names the primary
  key of the ledger \<open>pk_customer_account_ledger\<close>, while the third revision drops
  \<open>customer_account_ledger_pkey\<close>; all is rolled back.\<close>

theorem fresh_database_does_not_reach_head:
  "(\<exists>db. run_revisions naming_convention (take 2 revisions) [] = Inr db)
   \<and> run_migrations_online [] = Inl (Undefined_object ''customer_account_ledger_pkey'')"
proof -
  obtain db where db: "run_revisions naming_convention (take 2 revisions) [] = Inr db"
    "run_operations naming_convention upgrade_f3bbd6b8a2f1 db = Inl (Undefined_object ''customer_account_ledger_pkey'')"
    using fresh_database_stops by (auto split: sum.splits)
  obtain rs where "revisions = take 2 revisions
      @ \<lparr>rv_id = ''f3bbd6b8a2f1'', rv_down = Some ''12138c6b3773'', rv_upgrade = upgrade_f3bbd6b8a2f1, rv_downgrade = downgrade_f3bbd6b8a2f1\<rparr> # rs"
    by (simp add: revisions_def)
  then have "upgrade_head naming_convention [] = Inl (Undefined_object ''customer_account_ledger_pkey'')"
    unfolding upgrade_head_def using db run_revisions_append [of naming_convention "take 2 revisions" _ "[]"]
    by (metis (no_types, lifting) old.sum.simps(5,6) revision.select_convs(3) run_revisions.simps(2))
  then show ?thesis using db(1) by (auto simp: run_migrations_online_def)
qed

text \<open>C30: On a database whose constraints have PostgreSQL's own names, as the revisions assume, the chain
  is unbroken and leads exactly to the tables the entity classes declare: the same columns, types,
  nullability and constraints, the same named indexes, and the history table that \<open>_history_mapper\<close>
  derives, so that every constraint the repositories rely on is there.\<close>

theorem head_is_the_declared_schema:
  "map rv_down revisions = None # map Some (butlast (map rv_id revisions))
   \<and> (\<exists>db. upgrade_head postgres_names [] = Inr db \<and> list_all2 agrees declared_tables db)"
  using round_trips_end [OF chain_checked] by (simp add: upgrade_head_def) (simp add: revisions_def)

text \<open>C31: On the way up from an empty database, whose tables have no rows, every downgrade undoes its upgrade where
  the constraints have PostgreSQL's own names, as the revisions assume: from the database each revision finds, its
  upgrade and then its downgrade run without error and give the same tables back, with the same columns, constraints
  and indexes under the same names; only their order may differ. Under the naming convention that \<open>env.py\<close> hands to
  Alembic this holds of the first two revisions, and no other is ever reached and run up.\<close>

theorem each_downgrade_undoes_its_upgrade:
  assumes "k < length revisions" "naming \<in> {postgres_names, naming_convention}"
  shows "if naming = naming_convention \<and> 2 \<le> k
    then run_revisions naming (take (Suc k) revisions) [] = Inl (Undefined_object ''customer_account_ledger_pkey'')
    else (\<exists>before up back. run_revisions naming (take k revisions) [] = Inr before
      \<and> run_operations naming (rv_upgrade (revisions ! k)) before = Inr up
      \<and> run_operations naming (rv_downgrade (revisions ! k)) up = Inr back \<and> list_all2 same_table before back)"
proof (cases "naming = naming_convention")
  case False
  then have "naming = postgres_names" using assms(2) by simp
  then show ?thesis using round_trips_each [OF chain_checked assms(1)] False by simp
next
  case True
  show ?thesis
  proof (cases "2 \<le> k")
    case False
    then have "k < length (take 2 revisions)" "take k (take 2 revisions) = take k revisions" "take 2 revisions ! k = revisions ! k"
      using assms(1) by (simp_all add: min_def)
    then show ?thesis using round_trips_each [OF convention_checked, of k] True False by simp
  next
    case high: True
    obtain rs where "take (Suc k) revisions = take 3 revisions @ rs"
      using high by (metis add_Suc le_add_diff_inverse numeral_3_eq_3 numeral_2_eq_2 take_add)
    then show ?thesis
      using convention_stops True high by (simp add: run_revisions_append split: sum.splits)
  qed
qed

text \<open>C33: The revision that numbers the ledger's rows cannot be crossed once there are any: whatever the
  database holds, if its ledger has a row, both the upgrade, which adds \<open>no\<close> and \<open>balance\<close> without a
  value, and the downgrade, which adds \<open>customer_account_id\<close> so, fail.\<close>

theorem ledger_rework_needs_an_empty_ledger:
  assumes "map_of db ''customer_account_ledger'' = Some x" "st_rows x \<noteq> []"
  shows "(\<exists>e. run_operations naming upgrade_f3bbd6b8a2f1 db = Inl e)
    \<and> (\<exists>e. run_operations naming downgrade_f3bbd6b8a2f1 db = Inl e)"
proof -
  have "\<exists>ops ops' c. upgrade_f3bbd6b8a2f1 = ops @ Add_column ''customer_account_ledger'' c # ops'
      \<and> Drop_table ''customer_account_ledger'' \<notin> set ops \<and> \<not> sc_nullable c \<and> \<not> sc_default c"
    by (rule exI [of _ "take 4 upgrade_f3bbd6b8a2f1"], rule exI [of _ "drop 5 upgrade_f3bbd6b8a2f1"])
      (simp add: upgrade_f3bbd6b8a2f1_def column_def)
  moreover have "\<exists>ops ops' c. downgrade_f3bbd6b8a2f1 = ops @ Add_column ''customer_account_ledger'' c # ops'
      \<and> Drop_table ''customer_account_ledger'' \<notin> set ops \<and> \<not> sc_nullable c \<and> \<not> sc_default c"
    by (rule exI [of _ "[]"], rule exI [of _ "drop 1 downgrade_f3bbd6b8a2f1"])
      (simp add: downgrade_f3bbd6b8a2f1_def column_def)
  ultimately show ?thesis using full_table_gets_no_bare_column [OF assms] by metis
qed

lemma operation_type_fits: "cast_value (enum_type [''CREATE'', ''DEPOSIT'', ''WITHDRAWAL'']) (V_text (operation_type_value ty))
    = Some (V_text (operation_type_value ty))"
  by (cases ty) (simp_all add: enum_type_def cast_value_def)

lemma moved_ledger_row:
  "moved upgrade_d0b11413183a ''customer_account_ledger'' r = r(''account_id'' := r ''id'', ''id'' := None,
     ''operation_type'' := Option.bind (r ''operation_type'') (cast_value (enum_type [''CREATE'', ''DEPOSIT'', ''WITHDRAWAL''])))"
  "moved downgrade_d0b11413183a ''customer_account_ledger'' r = r(''id'' := r ''account_id'', ''account_id'' := None,
     ''operation_type'' := Option.bind (r ''operation_type'') (cast_value Text_t))"
  by (simp_all add: upgrade_d0b11413183a_def upgrade_d0b11413183a_accounts_def upgrade_d0b11413183a_ledger_def
      upgrade_d0b11413183a_verification_def downgrade_d0b11413183a_def downgrade_d0b11413183a_accounts_def
      downgrade_d0b11413183a_ledger_def downgrade_d0b11413183a_verification_def)

text \<open>C32: The rename of \<open>id\<close> to \<open>account_id\<close> keeps the data, as its comment says: if the revision runs, on
  whatever database and under whatever names, every ledger row is still there with the account under
  its new name and all else as it was, and if it is then undone the rows are the ones of before. Here
  the rows hold operation types the service writes.\<close>

theorem rename_keeps_the_ledger:
  assumes "run_operations naming upgrade_d0b11413183a db = Inr db'" "map_of db ''customer_account_ledger'' = Some x"
    and "\<forall>r \<in> set (st_rows x). r ''account_id'' = None \<and> (\<exists>ty. r ''operation_type'' = Some (V_text (operation_type_value ty)))"
  shows "\<exists>x'. map_of db' ''customer_account_ledger'' = Some x'
    \<and> st_rows x' = map (\<lambda>r. r(''account_id'' := r ''id'', ''id'' := None)) (st_rows x)
    \<and> (\<forall>db''. run_operations naming downgrade_d0b11413183a db' = Inr db'' \<longrightarrow>
        (\<exists>x''. map_of db'' ''customer_account_ledger'' = Some x'' \<and> st_rows x'' = st_rows x))"
proof -
  let ?t = "''customer_account_ledger''" and ?f = "\<lambda>r :: row. r(''account_id'' := r ''id'', ''id'' := None)"
  have nd: "Drop_table ?t \<notin> set upgrade_d0b11413183a" "Drop_table ?t \<notin> set downgrade_d0b11413183a"
    by (simp_all add: upgrade_d0b11413183a_def upgrade_d0b11413183a_accounts_def upgrade_d0b11413183a_ledger_def
        upgrade_d0b11413183a_verification_def downgrade_d0b11413183a_def downgrade_d0b11413183a_accounts_def
        downgrade_d0b11413183a_ledger_def downgrade_d0b11413183a_verification_def)
  have fwd: "moved upgrade_d0b11413183a ?t r = ?f r" and bwd: "moved downgrade_d0b11413183a ?t (?f r) = r"
    if "r \<in> set (st_rows x)" for r
    using assms(3) that operation_type_fits
    by (auto simp: moved_ledger_row fun_eq_iff cast_value_def [of Text_t])
  obtain x' where x': "map_of db' ?t = Some x'" "st_rows x' = map ?f (st_rows x)"
    using run_operations_rows [OF assms(1,2) nd(1)] fwd by (auto simp: cong: map_cong)
  have "\<exists>x''. map_of db'' ?t = Some x'' \<and> st_rows x'' = st_rows x"
    if "run_operations naming downgrade_d0b11413183a db' = Inr db''" for db''
    using run_operations_rows [OF that x'(1) nd(2)] x'(2) bwd by (auto simp: map_idI)
  then show ?thesis using x' by blast
qed

section \<open>Witnesses\<close>

theorem each_downgrade_undoes_its_upgrade_witness:
  "\<exists>before up back. run_revisions postgres_names (take 5 revisions) [] = Inr before
    \<and> run_operations postgres_names upgrade_d0b11413183a before = Inr up
    \<and> run_operations postgres_names downgrade_d0b11413183a up = Inr back \<and> list_all2 same_table before back"
  using each_downgrade_undoes_its_upgrade [of 5 postgres_names] postgres_names_differ by (simp add: revisions_def)

definition sample_ledger_row :: row where
  "sample_ledger_row = [''id'' \<mapsto> V_uuid 10, ''no'' \<mapsto> V_int 1, ''amount'' \<mapsto> V_int 0, ''balance'' \<mapsto> V_int 0,
     ''operation_type'' \<mapsto> V_text ''create'', ''operation_id'' \<mapsto> V_uuid 10, ''created_at'' \<mapsto> V_time 1]"

definition sample_rows_of :: "string \<Rightarrow> row list" where
  "sample_rows_of t =
     (if t = ''customer_account_ledger'' then [sample_ledger_row]
      else if t = ''customer_account'' then
        [[''id'' \<mapsto> V_uuid 10, ''customer_id'' \<mapsto> V_uuid 1, ''currency'' \<mapsto> V_text ''USD'', ''status'' \<mapsto> V_text ''active'',
          ''created_at'' \<mapsto> V_time 1, ''updated_at'' \<mapsto> V_time 1, ''updated_by'' \<mapsto> V_uuid 7, ''version'' \<mapsto> V_int 1]]
      else if t = ''customer'' then
        [[''id'' \<mapsto> V_uuid 1, ''email'' \<mapsto> V_text ''a@b.c'', ''status'' \<mapsto> V_text ''active'', ''created_at'' \<mapsto> V_time 1]]
      else [])"

definition populated :: "database \<Rightarrow> database" where
  "populated db = map (\<lambda>(t, x). (t, x\<lparr>st_rows := sample_rows_of t\<rparr>)) db"

lemma populated_upgrade:
  "case run_revisions postgres_names (take 5 revisions) [] of Inl e \<Rightarrow> False
   | Inr db \<Rightarrow> \<not> Option.is_none (map_of db ''customer_account_ledger'')
       \<and> (case run_operations postgres_names upgrade_d0b11413183a (populated db) of Inl e \<Rightarrow> False | Inr db' \<Rightarrow> True)"
  by code_simp

lemma populated_ledger:
  "map_of db ''customer_account_ledger'' = Some x \<Longrightarrow>
     map_of (populated db) ''customer_account_ledger'' = Some (x\<lparr>st_rows := [sample_ledger_row]\<rparr>)"
  using map_of_map_tables [of "\<lambda>t x. x\<lparr>st_rows := sample_rows_of t\<rparr>" db "''customer_account_ledger''"]
  by (simp add: populated_def sample_rows_of_def)

theorem rename_keeps_the_ledger_witness:
  "\<exists>db db' x'. run_revisions postgres_names (take 5 revisions) [] = Inr db
    \<and> run_operations postgres_names upgrade_d0b11413183a (populated db) = Inr db'
    \<and> map_of db' ''customer_account_ledger'' = Some x'
    \<and> st_rows x' = [sample_ledger_row(''account_id'' \<mapsto> V_uuid 10, ''id'' := None)]"
proof -
  obtain db db' x where db: "run_revisions postgres_names (take 5 revisions) [] = Inr db"
    "run_operations postgres_names upgrade_d0b11413183a (populated db) = Inr db'" "map_of db ''customer_account_ledger'' = Some x"
    using populated_upgrade by (auto split: sum.splits simp: Option.is_none_def)
  have "sample_ledger_row ''account_id'' = None" "sample_ledger_row ''id'' = Some (V_uuid 10)"
    "\<exists>ty. sample_ledger_row ''operation_type'' = Some (V_text (operation_type_value ty))"
    by (simp_all add: sample_ledger_row_def) (rule exI [of _ Op_CREATE], simp)
  then show ?thesis
    using db(1,2) rename_keeps_the_ledger [OF db(2) populated_ledger [OF db(3)]] by auto
qed

theorem ledger_rework_needs_an_empty_ledger_witness:
  "\<exists>db. run_revisions postgres_names (take 5 revisions) [] = Inr db
    \<and> (\<exists>e. run_operations postgres_names downgrade_f3bbd6b8a2f1 (populated db) = Inl e)"
proof -
  obtain db x where db: "run_revisions postgres_names (take 5 revisions) [] = Inr db" "map_of db ''customer_account_ledger'' = Some x"
    using populated_upgrade by (auto split: sum.splits simp: Option.is_none_def)
  then show ?thesis
    using ledger_rework_needs_an_empty_ledger [OF populated_ledger [OF db(2)], of postgres_names] by auto
qed

end
