(* ===== verification/Broker.thy ===== *)
theory Broker
  imports Messaging
begin

text \<open>
  The exchanges and queues of \<open>app/subscribers/base.py\<close>, what the start of \<open>subscribers_main.py\<close>
  declares at the broker, and what becomes of a message that is published: RabbitMQ's routing, the
  subscriber behind each live queue, and the dead letters.
\<close>

section \<open>Exchanges and queues\<close>

datatype exchange_type = DIRECT | TOPIC | FANOUT

record exchange =
  xc_name :: string
  xc_type :: exchange_type
  xc_durable :: bool

record rabbit_queue =
  rq_name :: string
  rq_routing_key :: string
  rq_durable :: bool
  rq_dlx :: "string option"
  rq_dl_key :: "string option"

datatype exchanges = X_COMMANDS | X_COMMANDS_DLX | X_EVENTS | X_EVENTS_DLX

fun exchanges_value :: "exchanges \<Rightarrow> string" where
  "exchanges_value X_COMMANDS = ''commands''"
| "exchanges_value X_COMMANDS_DLX = ''commands.dlx''"
| "exchanges_value X_EVENTS = ''events''"
| "exchanges_value X_EVENTS_DLX = ''events.dlx''"

datatype queues = Q_COMMANDS_DLQ | Q_EVENTS_DLQ

fun queues_value :: "queues \<Rightarrow> string" where
  "queues_value Q_COMMANDS_DLQ = ''commands.dlq''"
| "queues_value Q_EVENTS_DLQ = ''events.dlq''"

definition commands_exchange :: exchange where
  "commands_exchange = \<lparr>xc_name = exchanges_value X_COMMANDS, xc_type = DIRECT, xc_durable = True\<rparr>"

definition commands_dlx :: exchange where
  "commands_dlx = \<lparr>xc_name = exchanges_value X_COMMANDS_DLX, xc_type = FANOUT, xc_durable = True\<rparr>"

definition commands_dlq :: rabbit_queue where
  "commands_dlq = \<lparr>rq_name = queues_value Q_COMMANDS_DLQ, rq_routing_key = [], rq_durable = True, rq_dlx = None, rq_dl_key = None\<rparr>"

definition events_exchange :: exchange where
  "events_exchange = \<lparr>xc_name = exchanges_value X_EVENTS, xc_type = TOPIC, xc_durable = True\<rparr>"

definition events_dlx :: exchange where
  "events_dlx = \<lparr>xc_name = exchanges_value X_EVENTS_DLX, xc_type = FANOUT, xc_durable = True\<rparr>"

definition events_dlq :: rabbit_queue where
  "events_dlq = \<lparr>rq_name = queues_value Q_EVENTS_DLQ, rq_routing_key = [], rq_durable = True, rq_dlx = None, rq_dl_key = None\<rparr>"

definition live_queue :: "string \<Rightarrow> string \<Rightarrow> string \<Rightarrow> rabbit_queue" where
  "live_queue name routing_key dlx = \<lparr>rq_name = name, rq_routing_key = routing_key, rq_durable = True,
     rq_dlx = Some dlx, rq_dl_key = Some name\<rparr>"

text \<open>The decorators of the three subscribers.\<close>

definition customer_created_queue :: rabbit_queue where
  "customer_created_queue = live_queue ''customer.created'' ''customer.created'' (exchanges_value X_EVENTS_DLX)"

definition payment_deposited_queue :: rabbit_queue where
  "payment_deposited_queue = live_queue ''payment.deposited'' ''payment.deposited'' (exchanges_value X_EVENTS_DLX)"

definition payment_withdrawn_queue :: rabbit_queue where
  "payment_withdrawn_queue = live_queue ''payment.withdrawn'' ''payment.withdrawn'' (exchanges_value X_EVENTS_DLX)"

definition subscribers :: "(rabbit_queue \<times> exchange) list" where
  "subscribers = [(customer_created_queue, events_exchange), (payment_deposited_queue, events_exchange),
     (payment_withdrawn_queue, events_exchange)]"

section \<open>What is declared at the broker\<close>

record topology =
  tp_exchanges :: "exchange list"
  tp_queues :: "rabbit_queue list"
  tp_bindings :: "(string \<times> string \<times> string) list"

text \<open>Declaring again what is there with other properties is refused.\<close>

definition declare_exchange :: "exchange \<Rightarrow> topology \<Rightarrow> exc + topology" where
  "declare_exchange x tp = (case find (\<lambda>y. xc_name y = xc_name x) (tp_exchanges tp) of
     None \<Rightarrow> Inr (tp\<lparr>tp_exchanges := tp_exchanges tp @ [x]\<rparr>)
   | Some y \<Rightarrow> if y = x then Inr tp else Inl (OtherException ''ChannelPreconditionFailed''))"

definition declare_queue :: "rabbit_queue \<Rightarrow> topology \<Rightarrow> exc + topology" where
  "declare_queue q tp = (case find (\<lambda>y. rq_name y = rq_name q) (tp_queues tp) of
     None \<Rightarrow> Inr (tp\<lparr>tp_queues := tp_queues tp @ [q]\<rparr>)
   | Some y \<Rightarrow> if y = q then Inr tp else Inl (OtherException ''ChannelPreconditionFailed''))"

definition bind_queue :: "rabbit_queue \<Rightarrow> exchange \<Rightarrow> string \<Rightarrow> topology \<Rightarrow> topology" where
  "bind_queue q x key tp =
     (if (rq_name q, xc_name x, key) \<in> set (tp_bindings tp) then tp
      else tp\<lparr>tp_bindings := tp_bindings tp @ [(rq_name q, xc_name x, key)]\<rparr>)"

text \<open>The start of the broker declares and binds the queue of every subscriber.\<close>

fun start_broker :: "(rabbit_queue \<times> exchange) list \<Rightarrow> topology \<Rightarrow> exc + topology" where
  "start_broker [] tp = Inr tp"
| "start_broker ((q, x) # rest) tp =
     (case declare_exchange x tp of Inl e \<Rightarrow> Inl e | Inr tp1 \<Rightarrow>
      (case declare_queue q tp1 of Inl e \<Rightarrow> Inl e | Inr tp2 \<Rightarrow>
         start_broker rest (bind_queue q x (rq_routing_key q) tp2)))"

text \<open>\<open>after_startup_hook\<close>; \<open>bind\<close> without a key uses the name of the queue.\<close>

definition declare_dead_letters :: "exchange \<Rightarrow> exchange \<Rightarrow> rabbit_queue \<Rightarrow> topology \<Rightarrow> exc + topology" where
  "declare_dead_letters x dlx dlq tp =
     (case declare_exchange x tp of Inl e \<Rightarrow> Inl e | Inr tp1 \<Rightarrow>
      (case declare_exchange dlx tp1 of Inl e \<Rightarrow> Inl e | Inr tp2 \<Rightarrow>
       (case declare_queue dlq tp2 of Inl e \<Rightarrow> Inl e | Inr tp3 \<Rightarrow> Inr (bind_queue dlq dlx (rq_name dlq) tp3))))"

definition after_startup_hook :: "topology \<Rightarrow> exc + topology" where
  "after_startup_hook tp =
     (case declare_dead_letters commands_exchange commands_dlx commands_dlq tp of
        Inl e \<Rightarrow> Inl e
      | Inr tp1 \<Rightarrow> declare_dead_letters events_exchange events_dlx events_dlq tp1)"

section \<open>Routing\<close>

fun split_on :: "char \<Rightarrow> string \<Rightarrow> string list" where
  "split_on c [] = [[]]"
| "split_on c (x # xs) = (if x = c then [] # split_on c xs
     else (case split_on c xs of [] \<Rightarrow> [[x]] | w # ws \<Rightarrow> (x # w) # ws))"

text \<open>Topic patterns: \<open>*\<close> is one word, \<open>#\<close> any number of words.\<close>

fun topic_words :: "string list \<Rightarrow> string list \<Rightarrow> bool" where
  "topic_words [] ws = (ws = [])"
| "topic_words (p # ps) [] = (p = ''#'' \<and> topic_words ps [])"
| "topic_words (p # ps) (w # ws) =
     (if p = ''#'' then topic_words ps (w # ws) \<or> topic_words (p # ps) ws
      else (p = ''*'' \<or> p = w) \<and> topic_words ps ws)"

definition binding_matches :: "exchange_type \<Rightarrow> string \<Rightarrow> string \<Rightarrow> bool" where
  "binding_matches ty binding_key key = (case ty of
     DIRECT \<Rightarrow> binding_key = key
   | TOPIC \<Rightarrow> topic_words (split_on (CHR ''.'') binding_key) (split_on (CHR ''.'') key)
   | FANOUT \<Rightarrow> True)"

definition route_message :: "topology \<Rightarrow> string \<Rightarrow> string \<Rightarrow> string list" where
  "route_message tp exchange_name key =
     (case find (\<lambda>x. xc_name x = exchange_name) (tp_exchanges tp) of
        None \<Rightarrow> []
      | Some x \<Rightarrow> remdups (map fst (filter (\<lambda>(q, x', k). x' = exchange_name \<and> binding_matches (xc_type x) k key) (tp_bindings tp))))"

text \<open>A rejected message goes to the queue's dead-letter exchange, and is dropped if there is none.\<close>

definition dead_letter :: "topology \<Rightarrow> string \<Rightarrow> string list" where
  "dead_letter tp queue_name =
     (case find (\<lambda>q. rq_name q = queue_name) (tp_queues tp) of
        None \<Rightarrow> []
      | Some q \<Rightarrow> (case (rq_dlx q, rq_dl_key q) of
            (Some dlx, Some key) \<Rightarrow> route_message tp dlx key
          | _ \<Rightarrow> []))"

section \<open>Delivery\<close>

record delivery =
  dv_key :: string
  dv_headers :: "(string \<rightharpoonup> header_value) option"
  dv_body :: "byte list"

text \<open>The answers a consumer has for a message: it is done, it is dropped or dead-lettered, it goes back to its queue.\<close>

datatype settlement = Acknowledge | Reject | Requeue

text \<open>
  What the subscribers depend on: the decoding of bodies, the job queue, fresh identifiers, and how FastStream
  answers for a message whose subscriber raises.
\<close>

record 'q subscriber_env =
  se_load_customer :: "byte list \<Rightarrow> exc + customer_created"
  se_load_payment :: "byte list \<Rightarrow> exc + payment_event"
  se_dump :: "async_message \<Rightarrow> byte list"
  se_put :: "job_request \<Rightarrow> 'q \<Rightarrow> exc + 'q"
  se_fresh :: uuid
  se_settle :: "exc \<Rightarrow> settlement"

text \<open>FastStream's documented default, \<open>REJECT_ON_ERROR\<close>; the service sets no other policy.\<close>

definition rejects_on_error :: "'q subscriber_env \<Rightarrow> bool" where
  "rejects_on_error env \<longleftrightarrow> (\<forall>e. se_settle env e = Reject)"

text \<open>\<open>bind_request_id\<close> around every subscriber.\<close>

definition bind_request_id :: "uuid \<Rightarrow> delivery \<Rightarrow> string \<rightharpoonup> string" where
  "bind_request_id fresh message = [''request_id'' \<mapsto> request_id_from fresh (dv_headers message)]"

definition load_valid_payment :: "'q subscriber_env \<Rightarrow> byte list \<Rightarrow> exc + payment_event" where
  "load_valid_payment env body = (case se_load_payment env body of
     Inl e \<Rightarrow> Inl e
   | Inr event \<Rightarrow> if payment_event_valid event then Inr event else Inl ValidationError)"

definition consume :: "'q subscriber_env \<Rightarrow> string \<Rightarrow> delivery \<Rightarrow> db \<times> 'q \<Rightarrow> exc + db \<times> 'q" where
  "consume env queue_name message s =
     (let (d, jobs) = s; contextvars = bind_request_id (se_fresh env) message
      in if queue_name = rq_name customer_created_queue
         then (case se_load_customer env (dv_body message) of
                 Inl e \<Rightarrow> Inl e
               | Inr event \<Rightarrow> map_sum id (\<lambda>d'. (d', jobs)) (on_customer_created event d))
         else if queue_name = rq_name payment_deposited_queue
         then (case load_valid_payment env (dv_body message) of
                 Inl e \<Rightarrow> Inl e
               | Inr event \<Rightarrow> map_sum id (\<lambda>jobs'. (d, jobs'))
                   (on_payment_deposited (se_dump env) (se_put env) contextvars event jobs))
         else (case load_valid_payment env (dv_body message) of
                 Inl e \<Rightarrow> Inl e
               | Inr event \<Rightarrow> map_sum id (\<lambda>jobs'. (d, jobs'))
                   (on_payment_withdrawn (se_dump env) (se_put env) contextvars event jobs)))"

text \<open>
  A subscriber that raises leaves the database and the jobs as they were; its message is settled as FastStream
  does it. A queue without a subscriber keeps its messages.
\<close>

fun deliver :: "topology \<Rightarrow> 'q subscriber_env \<Rightarrow> delivery \<Rightarrow> string list
    \<Rightarrow> db \<times> 'q \<times> (string \<times> delivery) list \<Rightarrow> db \<times> 'q \<times> (string \<times> delivery) list" where
  "deliver tp env message [] s = s"
| "deliver tp env message (q # qs) (d, jobs, stored) =
     deliver tp env message qs
       (if q \<in> set (map (rq_name \<circ> fst) subscribers)
        then (case consume env q message (d, jobs) of
                Inr (d', jobs') \<Rightarrow> (d', jobs', stored)
              | Inl e \<Rightarrow> (case se_settle env e of
                    Acknowledge \<Rightarrow> (d, jobs, stored)
                  | Reject \<Rightarrow> (d, jobs, stored @ map (\<lambda>n. (n, message)) (dead_letter tp q))
                  | Requeue \<Rightarrow> (d, jobs, stored @ [(q, message)])))
        else (d, jobs, stored @ [(q, message)]))"

definition publish_to :: "topology \<Rightarrow> 'q subscriber_env \<Rightarrow> string \<Rightarrow> delivery
    \<Rightarrow> db \<times> 'q \<times> (string \<times> delivery) list \<Rightarrow> db \<times> 'q \<times> (string \<times> delivery) list" where
  "publish_to tp env exchange_name message s = deliver tp env message (route_message tp exchange_name (dv_key message)) s"

text \<open>The broker once the subscribers have started on it.\<close>

definition empty_topology :: topology where
  "empty_topology = \<lparr>tp_exchanges = [], tp_queues = [], tp_bindings = []\<rparr>"

definition started :: "exc + topology" where
  "started = start_broker subscribers empty_topology"

definition running :: "exc + topology" where
  "running = (case started of Inl e \<Rightarrow> Inl e | Inr tp \<Rightarrow> after_startup_hook tp)"

section \<open>Lemmas\<close>

lemma topic_literal:
  "list_all (\<lambda>p. p \<noteq> ''#'' \<and> p \<noteq> ''*'') ps \<Longrightarrow> topic_words ps ws \<longleftrightarrow> ps = ws"
  by (induction ps ws rule: topic_words.induct) auto

lemma split_on_not_Nil: "split_on c s \<noteq> []"
  by (induction s) (auto split: list.splits)

text \<open>Joining the words gives the text back.\<close>

fun join_with :: "char \<Rightarrow> string list \<Rightarrow> string" where
  "join_with c [] = []"
| "join_with c [w] = w"
| "join_with c (w # v # ws) = w @ c # join_with c (v # ws)"

lemma join_Cons_Nil: "ws \<noteq> [] \<Longrightarrow> join_with c ([] # ws) = c # join_with c ws"
  by (cases ws) simp_all

lemma join_Cons_Cons: "join_with c ((x # w) # ws) = x # join_with c (w # ws)"
  by (cases ws) simp_all

lemma join_split: "join_with c (split_on c s) = s"
  by (induction s) (auto simp: join_Cons_Nil join_Cons_Cons split_on_not_Nil split: list.splits)

lemma split_on_inj: "split_on c s = split_on c t \<longleftrightarrow> s = t"
  by (metis join_split)

definition running_topology :: topology where
  "running_topology =
     \<lparr>tp_exchanges = [events_exchange, commands_exchange, commands_dlx, events_dlx],
      tp_queues = [customer_created_queue, payment_deposited_queue, payment_withdrawn_queue, commands_dlq, events_dlq],
      tp_bindings =
        [(''customer.created'', ''events'', ''customer.created''), (''payment.deposited'', ''events'', ''payment.deposited''),
         (''payment.withdrawn'', ''events'', ''payment.withdrawn''), (''commands.dlq'', ''commands.dlx'', ''commands.dlq''),
         (''events.dlq'', ''events.dlx'', ''events.dlq'')]\<rparr>"

lemmas broker_defs = subscribers_def customer_created_queue_def payment_deposited_queue_def payment_withdrawn_queue_def
  live_queue_def events_exchange_def events_dlx_def events_dlq_def commands_exchange_def commands_dlx_def commands_dlq_def

lemma running_eq: "running = Inr running_topology"
  by (simp add: running_def started_def after_startup_hook_def declare_dead_letters_def empty_topology_def
      declare_exchange_def declare_queue_def bind_queue_def running_topology_def broker_defs)

lemma literal_binding:
  "list_all (\<lambda>p. p \<noteq> ''#'' \<and> p \<noteq> ''*'') (split_on (CHR ''.'') b) \<Longrightarrow> binding_matches TOPIC b key \<longleftrightarrow> key = b"
  by (auto simp: binding_matches_def topic_literal split_on_inj)

lemma event_binding:
  "binding_matches TOPIC ''customer.created'' key \<longleftrightarrow> key = ''customer.created''"
  "binding_matches TOPIC ''payment.deposited'' key \<longleftrightarrow> key = ''payment.deposited''"
  "binding_matches TOPIC ''payment.withdrawn'' key \<longleftrightarrow> key = ''payment.withdrawn''"
  by (rule literal_binding, simp)+

lemma event_routes:
  "route_message running_topology ''events'' key =
     (if key \<in> {''customer.created'', ''payment.deposited'', ''payment.withdrawn''} then [key] else [])"
  by (auto simp: route_message_def running_topology_def events_exchange_def event_binding)

lemma event_dead_letters:
  "key \<in> {''customer.created'', ''payment.deposited'', ''payment.withdrawn''} \<Longrightarrow>
     dead_letter running_topology key = [''events.dlq'']"
  by (auto simp: dead_letter_def running_topology_def broker_defs route_message_def binding_matches_def)

lemma early_dead_letters:
  "case started of Inl e \<Rightarrow> False | Inr tp \<Rightarrow> list_all (\<lambda>(q, x). dead_letter tp (rq_name q) = []) subscribers"
  by (simp add: started_def empty_topology_def declare_exchange_def declare_queue_def bind_queue_def broker_defs
      dead_letter_def route_message_def)

lemma subscriber_names:
  "set (map (rq_name \<circ> fst) subscribers) = {''customer.created'', ''payment.deposited'', ''payment.withdrawn''}"
  by (simp add: broker_defs)

lemma publish_event:
  "publish_to running_topology env ''events'' message (d, jobs, stored) =
     (if dv_key message \<in> {''customer.created'', ''payment.deposited'', ''payment.withdrawn''}
      then (case consume env (dv_key message) message (d, jobs) of
              Inr (d', jobs') \<Rightarrow> (d', jobs', stored)
            | Inl e \<Rightarrow> (case se_settle env e of
                  Reject \<Rightarrow> (d, jobs, stored @ [(''events.dlq'', message)])
                | Requeue \<Rightarrow> (d, jobs, stored @ [(dv_key message, message)])
                | Acknowledge \<Rightarrow> (d, jobs, stored)))
      else (d, jobs, stored))"
proof -
  define K where "K = {''customer.created'', ''payment.deposited'', ''payment.withdrawn''}"
  have "route_message running_topology ''events'' key = (if key \<in> K then [key] else [])" for key
    unfolding K_def by (rule event_routes)
  moreover have "key \<in> K \<Longrightarrow> dead_letter running_topology key = [''events.dlq'']" for key
    unfolding K_def by (rule event_dead_letters)
  ultimately show ?thesis
    unfolding publish_to_def K_def [symmetric]
    by (cases "consume env (dv_key message) message (d, jobs)")
      (simp_all add: subscriber_names [folded K_def, unfolded comp_def set_map] split: prod.split settlement.split)
qed

section \<open>Properties\<close>

text \<open>C35: No event is lost once the subscribers run. The broker then has exactly one queue for each of the
  three events, so a published event is handled once or, if its body cannot be read or its handler
  raises, kept in \<open>events.dlq\<close> with nothing else changed, provided FastStream rejects it, as is its default
  (the theorem covers the other two answers as well); other keys have no queue here. Between the
  start of the broker and the hook that declares the dead letters, a rejected event is dropped.\<close>

theorem events_are_handled_or_dead_lettered:
  "\<exists>early tp. started = Inr early \<and> running = Inr tp
    \<and> (\<forall>env message d jobs stored. publish_to tp env ''events'' message (d, jobs, stored) =
        (if dv_key message \<in> {''customer.created'', ''payment.deposited'', ''payment.withdrawn''}
         then (case consume env (dv_key message) message (d, jobs) of
                 Inr (d', jobs') \<Rightarrow> (d', jobs', stored)
               | Inl e \<Rightarrow> (case se_settle env e of
                     Reject \<Rightarrow> (d, jobs, stored @ [(''events.dlq'', message)])
                   | Requeue \<Rightarrow> (d, jobs, stored @ [(dv_key message, message)])
                   | Acknowledge \<Rightarrow> (d, jobs, stored)))
         else (d, jobs, stored)))
    \<and> list_all (\<lambda>(q, x). dead_letter early (rq_name q) = []) subscribers"
proof -
  obtain early where "started = Inr early" "list_all (\<lambda>(q, x). dead_letter early (rq_name q) = []) subscribers"
    using early_dead_letters by (auto split: sum.splits)
  then show ?thesis
    by (intro exI [of _ early] exI [of _ running_topology]) (simp add: running_eq publish_event)
qed

text \<open>C36: A customer the service does not know is never stored: the statement names the column
  \<open>entity_id\<close>, which the table does not have, so the subscriber raises for every such event and the
  event ends among the dead letters with the database unchanged (FastStream's default for a subscriber that
  raises, which the service leaves as it is). Naming the column \<open>id\<close> instead stores
  exactly the customer the event describes.\<close>

theorem created_customers_end_in_dead_letters:
  assumes "running = Inr tp" "rejects_on_error env" "dv_key message = ''customer.created''" "se_load_customer env (dv_body message) = Inr event"
    and "distinct (map c_id (customers d))" "\<forall>c \<in> set (customers d). c_id c \<noteq> cc_id event"
  shows "publish_to tp env ''events'' message (d, jobs, stored) = (d, jobs, stored @ [(''events.dlq'', message)])
    \<and> ((\<forall>c \<in> set (customers d). c_email c \<noteq> cc_email event) \<longrightarrow>
      insert_customer
        [(''id'', CV_uuid (cc_id event)), (''email'', CV_text (Some (cc_email event))),
         (''name'', CV_text (Some (cc_name event))), (''status'', CV_status status),
         (''created_at'', CV_time (Some (cc_created_at event))),
         (''updated_at'', CV_time (cc_updated_at event))] d =
      Inr (d\<lparr>customers := customers d @ [customer_create (cc_id event) (cc_email event)
        (Some (cc_name event)) status (cc_created_at event) (cc_updated_at event)]\<rparr>))"
proof -
  note never = created_customers_are_never_stored [OF assms(5,6), of status]
  have tp: "tp = running_topology" using assms(1) by (simp add: running_eq)
  obtain e where e: "on_customer_created event d = Inl e" using never by (auto split: sum.splits)
  have "consume env (dv_key message) message (d, jobs) = Inl e"
    using assms(3,4) e by (simp add: consume_def broker_defs)
  then have "publish_to tp env ''events'' message (d, jobs, stored) = (d, jobs, stored @ [(''events.dlq'', message)])"
    unfolding tp publish_event using assms(2,3) by (simp add: rejects_on_error_def)
  then show ?thesis using never by blast
qed

definition sample_subscriber_env :: "job_request list subscriber_env" where
  "sample_subscriber_env = \<lparr>se_load_customer = (\<lambda>_. Inr sample_customer_event), se_load_payment = (\<lambda>_. Inr sample_event),
     se_dump = (\<lambda>_. []), se_put = (\<lambda>j q. Inr (q @ [j])), se_fresh = 5, se_settle = (\<lambda>_. Reject)\<rparr>"

definition sample_delivery :: delivery where
  "sample_delivery = \<lparr>dv_key = ''customer.created'', dv_headers = None, dv_body = [1]\<rparr>"

theorem created_customers_end_in_dead_letters_witness:
  "publish_to running_topology sample_subscriber_env ''events'' sample_delivery (sample_db, [], [])
     = (sample_db, [], [(''events.dlq'', sample_delivery)])"
  using created_customers_end_in_dead_letters [OF running_eq, of sample_subscriber_env sample_delivery sample_customer_event sample_db "[]" "[]"]
  by (simp add: sample_delivery_def sample_subscriber_env_def sample_customer_event_def sample_customer_def customer_create_def
      rejects_on_error_def)

end
