(* ===== verification/Processes.thy ===== *)
theory Processes
  imports Jobs Account_Properties
begin

text \<open>
  What surrounds the handlers in each process: the request middleware of \<open>main.py\<close>, the context a job
  runs in (\<open>app/consumers/executor.py\<close>), the probes of \<open>app/routers/system/health.py\<close>, and the heartbeat
  of \<open>infra/heartbeat.py\<close> whose file the container's health check looks at.
\<close>

section \<open>Requests and jobs carry an id\<close>

record response =
  rs_status :: nat
  rs_headers :: "string \<rightharpoonup> string"

text \<open>
  \<open>logging_ctx\<close>: the context variables are those left over from an earlier request; \<open>call_next\<close> runs
  the endpoint, which answers or raises, and \<open>'s\<close> is the state it works on.
\<close>

definition logging_ctx :: "uuid \<Rightarrow> (string \<rightharpoonup> string) \<Rightarrow> (string \<rightharpoonup> header_value)
    \<Rightarrow> ((string \<rightharpoonup> string) \<Rightarrow> exc + response \<times> 's) \<Rightarrow> exc + response \<times> 's" where
  "logging_ctx fresh contextvars request_headers call_next =
     (let contextvars = Map.empty;
          request_id = resolve_request_id fresh (request_headers request_id_header);
          contextvars = contextvars(''request_id'' \<mapsto> request_id)
      in map_sum id (\<lambda>(answer, s). (answer\<lparr>rs_headers := (rs_headers answer)(request_id_header \<mapsto> request_id)\<rparr>, s))
           (call_next contextvars))"

text \<open>A job runs with the id its headers carry.\<close>

definition job_context :: "uuid \<Rightarrow> job \<Rightarrow> string \<rightharpoonup> string" where
  "job_context fresh job = [''request_id'' \<mapsto> request_id_from fresh (j_headers job)]"

text \<open>The creation endpoint behind the middleware, with a queue that keeps its jobs in a list.\<close>

definition post_account :: "(async_message \<Rightarrow> byte list) \<Rightarrow> timestamp \<Rightarrow> uuid \<Rightarrow> account_create_body \<Rightarrow> uuid \<Rightarrow> db
    \<Rightarrow> (string \<rightharpoonup> string) \<Rightarrow> exc + response \<times> db \<times> job_request list" where
  "post_account dump now entity_id body sub d contextvars =
     map_sum id (\<lambda>(d', jobs, i). (\<lparr>rs_status = 201, rs_headers = Map.empty\<rparr>, d', jobs))
       (create_customer_account dump (\<lambda>j q. Inr (q @ [j])) contextvars now entity_id body sub d [])"

section \<open>Probes\<close>

definition livez :: "exc + nat" where
  "livez = Inr 200"

text \<open>\<open>readyz\<close>: what \<open>SELECT 1\<close> gave within the time allowed; a timeout is an exception like any other.\<close>

definition readyz :: "exc + unit \<Rightarrow> exc + nat" where
  "readyz outcome = (case outcome of
     Inl e \<Rightarrow> Inl (HTTPException 503 (Message ''database unavailable''))
   | Inr _ \<Rightarrow> Inr 200)"

section \<open>The heartbeat\<close>

definition check_dependencies :: "exc + unit \<Rightarrow> exc + bool \<Rightarrow> exc + unit" where
  "check_dependencies db_outcome ping =
     (case db_outcome of
        Inl e \<Rightarrow> Inl e
      | Inr _ \<Rightarrow> (case ping of
            Inl e \<Rightarrow> Inl e
          | Inr ok \<Rightarrow> if ok then Inr () else Inl RuntimeError))"

text \<open>One turn of the loop: what the check and the touching of the file gave, and how long they took.\<close>

record turn =
  tn_check :: "exc + unit"
  tn_touch :: "exc + unit"
  tn_took :: int

record heart =
  ht_now :: int
  ht_touched :: "int option"
  ht_failures :: nat

text \<open>
  The loop never ends by itself: an exception of the check or of the touching is logged and the next
  turn follows after the interval. The list holds the turns so far.
\<close>

fun run_heartbeat :: "int \<Rightarrow> turn list \<Rightarrow> heart \<Rightarrow> heart" where
  "run_heartbeat interval [] h = h"
| "run_heartbeat interval (t # ts) h =
     (let at = ht_now h + tn_took t;
          h1 = (case tn_check t of
                  Inl e \<Rightarrow> h\<lparr>ht_failures := ht_failures h + 1\<rparr>
                | Inr _ \<Rightarrow> (case tn_touch t of
                      Inl e \<Rightarrow> h\<lparr>ht_failures := ht_failures h + 1\<rparr>
                    | Inr _ \<Rightarrow> h\<lparr>ht_touched := Some at\<rparr>))
      in run_heartbeat interval ts (h1\<lparr>ht_now := at + interval\<rparr>))"

text \<open>Cancelling the task is not an error for the one who stops it.\<close>

definition stop_heartbeat :: "exc + unit \<Rightarrow> exc + unit" where
  "stop_heartbeat outcome = (case outcome of
     Inl e \<Rightarrow> if e = OtherException ''CancelledError'' then Inr () else Inl e
   | Inr _ \<Rightarrow> Inr ())"

definition passes_turn :: "turn \<Rightarrow> bool" where
  "passes_turn t \<longleftrightarrow> tn_check t = Inr () \<and> tn_touch t = Inr ()"

lemma run_heartbeat_append: "run_heartbeat interval (ts @ us) h = run_heartbeat interval us (run_heartbeat interval ts h)"
  by (induction ts arbitrary: h) (simp_all add: Let_def)

lemma run_heartbeat_last:
  "ht_now (run_heartbeat interval (ts @ [t]) h) = ht_now (run_heartbeat interval ts h) + tn_took t + interval"
  "ht_touched (run_heartbeat interval (ts @ [t]) h) =
     (if passes_turn t then Some (ht_now (run_heartbeat interval ts h) + tn_took t) else ht_touched (run_heartbeat interval ts h))"
  by (auto simp: run_heartbeat_append passes_turn_def Let_def split: sum.splits)

lemma run_heartbeat_failing:
  assumes "list_all (\<lambda>t. \<not> passes_turn t \<and> 0 \<le> tn_took t) ts"
  shows "ht_touched (run_heartbeat interval ts h) = ht_touched h
    \<and> ht_now h + int (length ts) * interval \<le> ht_now (run_heartbeat interval ts h)"
  using assms
proof (induction ts rule: rev_induct)
  case (snoc t ts)
  then have ih: "ht_touched (run_heartbeat interval ts h) = ht_touched h"
    "ht_now h + int (length ts) * interval \<le> ht_now (run_heartbeat interval ts h)" and t: "\<not> passes_turn t" "0 \<le> tn_took t"
    by auto
  have "ht_now h + int (length (ts @ [t])) * interval = ht_now h + int (length ts) * interval + interval"
    by (simp add: algebra_simps)
  with ih(2) t(2) have "ht_now h + int (length (ts @ [t])) * interval \<le> ht_now (run_heartbeat interval ts h) + tn_took t + interval"
    by linarith
  then show ?case using ih(1) t(1) unfolding run_heartbeat_last by simp
qed simp

section \<open>Properties\<close>

text \<open>The heartbeat file tells how long the dependencies have been well. After a turn that passes, the
  file is never older than the interval and the next turn together until that turn ends, so with turns
  of at most 20 seconds the health check's limit of 30 seconds is kept; and \<open>n\<close> failing turns after it
  leave the file untouched while at least \<open>n\<close> intervals pass, so three of them exceed the limit.\<close>

lemma heartbeat_file_tells_the_health:
  assumes "passes_turn t" "0 \<le> tn_took t" "0 \<le> tn_took next" "0 \<le> interval"
    and "list_all (\<lambda>u. \<not> passes_turn u \<and> 0 \<le> tn_took u) failing"
  shows "\<exists>touched. ht_touched (run_heartbeat interval (ts @ [t]) h) = Some touched
    \<and> ht_now (run_heartbeat interval (ts @ [t]) h) + tn_took next - touched = interval + tn_took next
    \<and> ht_touched (run_heartbeat interval (ts @ t # failing) h) = Some touched
    \<and> touched + (int (length failing) + 1) * interval \<le> ht_now (run_heartbeat interval (ts @ t # failing) h)"
proof -
  let ?h = "run_heartbeat interval (ts @ [t]) h"
  have s: "run_heartbeat interval (ts @ t # failing) h = run_heartbeat interval failing ?h"
    using run_heartbeat_append [of interval "ts @ [t]" failing h] by simp
  have now: "ht_now ?h = ht_now (run_heartbeat interval ts h) + tn_took t + interval"
    and touched: "ht_touched ?h = Some (ht_now (run_heartbeat interval ts h) + tn_took t)"
    unfolding run_heartbeat_last using assms(1) by simp_all
  have "ht_touched (run_heartbeat interval failing ?h) = ht_touched ?h"
    "ht_now ?h + int (length failing) * interval \<le> ht_now (run_heartbeat interval failing ?h)"
    using run_heartbeat_failing [OF assms(5), of interval ?h] by simp_all
  then show ?thesis unfolding s now touched by (simp add: algebra_simps)
qed

lemma heartbeat_file_tells_the_health_witness:
  "ht_touched (run_heartbeat 10 [\<lparr>tn_check = Inr (), tn_touch = Inr (), tn_took = 1\<rparr>] \<lparr>ht_now = 0, ht_touched = None, ht_failures = 0\<rparr>) = Some 1"
  using heartbeat_file_tells_the_health [of "\<lparr>tn_check = Inr (), tn_touch = Inr (), tn_took = 1\<rparr>"
      "\<lparr>tn_check = Inr (), tn_touch = Inr (), tn_took = 1\<rparr>" 10
      "[\<lparr>tn_check = check_dependencies (Inr ()) (Inr False), tn_touch = Inr (), tn_took = 1\<rparr>]" "[]"
      "\<lparr>ht_now = 0, ht_touched = None, ht_failures = 0\<rparr>"]
  by (simp add: passes_turn_def check_dependencies_def)

text \<open>C37: One id joins a request to everything it causes. For a request that creates an account, whatever
  context an earlier request left behind and whatever header it carries, the id in the answer's header
  is the one the job it enqueues carries, and the one on the message that job publishes, in another
  process with another fresh id; and it is the caller's own if the caller sent a UUID.\<close>

theorem request_id_joins_answer_job_and_message:
  assumes "logging_ctx fresh left_over headers (post_account dump now entity_id body sub d) = Inr (answer, d', jobs)"
    and "load (dump (M_account_created (account_created_event (new_account now entity_id body sub))))
      = Inr (account_created_event (new_account now entity_id body sub))"
  shows "\<exists>rid job p. rs_headers answer request_id_header = Some rid \<and> jobs = [job]
    \<and> on_customer_account_created load (\<lambda>m b. Inr (b @ [m])) (job_context fresh' (queued job)) (queued job) [] = Inr [p]
    \<and> pub_headers p = Some [request_id_header \<mapsto> H_str rid]
    \<and> (\<forall>u. headers request_id_header = Some (H_str (uuid_str u)) \<longrightarrow> rid = uuid_str u)"
proof -
  define rid where "rid = resolve_request_id fresh (headers request_id_header)"
  let ?ctx = "[''request_id'' \<mapsto> rid]"
  let ?create = "create_customer_account dump (\<lambda>j q. Inr (q @ [j])) ?ctx now entity_id body sub d []"
  obtain i where c: "?create = Inr (d', jobs, i)" and r: "rs_headers answer request_id_header = Some rid"
    using assms(1) by (cases ?create) (auto simp: logging_ctx_def post_account_def Let_def rid_def [symmetric])
  let ?e = "account_created_event (new_account now entity_id body sub)"
  from c have j: "jobs = [\<lparr>jr_entrypoint = account_created_route, jr_payload = dump (M_account_created ?e),
      jr_dedupe_key = dedupe_key (M_account_created ?e), jr_headers = propagation_headers ?ctx\<rparr>]"
    by (auto simp: create_customer_account_def new_account_def [symmetric] enqueue_def Let_def split: sum.splits exc.splits)
  obtain u where u: "rid = uuid_str u" using resolve_is_uuid unfolding rid_def by blast
  let ?job = "hd jobs"
  have ctx: "job_context fresh' (queued ?job) = ?ctx"
    by (simp add: j job_context_def queued_def propagation_headers_def request_id_from_def u)
  have "\<exists>p. on_customer_account_created load (\<lambda>m b. Inr (b @ [m])) ?ctx (queued ?job) [] = Inr [p]
      \<and> pub_headers p = propagation_headers ?ctx"
    using assms(2) by (simp add: j on_customer_account_created_def decode_or_fail_def from_payload_bytes_def queued_def)
  moreover have "rid = uuid_str v" if "headers request_id_header = Some (H_str (uuid_str v))" for v
    using that by (simp add: rid_def)
  ultimately show ?thesis
    using r ctx j by (auto simp: propagation_headers_def)
qed

theorem request_id_joins_answer_job_and_message_witness:
  "\<exists>answer d' job p. logging_ctx 3 [''request_id'' \<mapsto> ''stale''] [request_id_header \<mapsto> H_str (uuid_str 9)]
      (post_account (\<lambda>_. []) 5 11 sample_body 7 sample_db) = Inr (answer, d', [job])
    \<and> rs_headers answer request_id_header = Some (uuid_str 9)
    \<and> on_customer_account_created (\<lambda>_. Inr (account_created_event (new_account 5 11 sample_body 7)))
        (\<lambda>m b. Inr (b @ [m])) (job_context 4 (queued job)) (queued job) [] = Inr [p]
    \<and> pub_headers p = Some [request_id_header \<mapsto> H_str (uuid_str 9)]"
proof -
  let ?h = "[request_id_header \<mapsto> H_str (uuid_str 9)]" and ?post = "post_account (\<lambda>_. []) 5 11 sample_body 7 sample_db"
  have "creatable 11 sample_body sample_db"
    by (simp add: creatable_def sample_body_def sample_account_def sample_customer_def customer_create_def)
  then obtain answer d' jobs where a: "logging_ctx 3 [''request_id'' \<mapsto> ''stale''] ?h ?post = Inr (answer, d', jobs)"
    by (simp add: logging_ctx_def post_account_def create_customer_account_eq [OF sample_db_ok] Let_def)
  show ?thesis
    using a request_id_joins_answer_job_and_message [OF a, of "\<lambda>_. Inr (account_created_event (new_account 5 11 sample_body 7))" 4]
    by auto
qed

end
