(* ===== verification/History_Mapper.thy ===== *)
theory History_Mapper
  imports VersionedHistory
begin

text \<open>
  \<open>_history_mapper\<close> of \<open>persistence/versioned_history.py\<close> as a whole: what it makes of a mapped class,
  with the three cases of inheritance. Tables and classes are known by their names; a column of a
  property is a pair of table and column.
\<close>

section \<open>Mapped classes\<close>

text \<open>The properties come with their columns, a relationship with none.\<close>

record 't super_mapper =
  sm_table :: "'t table"
  sm_history_class :: string
  sm_history_table :: "'t table"
  sm_changed_columns :: "(string \<times> string) list"

record 't local_mapper =
  lm_class :: string
  lm_configured :: bool
  lm_table :: "'t table"
  lm_inherits :: "'t super_mapper option"
  lm_polymorphic_on :: "(string \<times> string) option"
  lm_polymorphic_identity :: "string option"
  lm_properties :: "(string \<times> (string \<times> string) list) list"
  lm_use_versioning :: bool
  lm_base_bases :: "string list"

text \<open>What is generated or changed: the history class with its table, the mapped table, the history table
  of the parent, and the properties whose old values are always loaded.\<close>

record 't history_mapping =
  hp_class :: string
  hp_bases :: "string list"
  hp_inherits :: "string option"
  hp_table :: "'t table option"
  hp_polymorphic_on :: "string option"
  hp_polymorphic_identity :: "string option"
  hp_properties :: "(string \<times> (string \<times> string) list) list"
  hp_local_table :: "'t table"
  hp_super_history :: "'t table option"
  hp_version_id_col :: "string option"
  hp_active_history :: "string list"

definition col_references_table :: "'t table \<Rightarrow> string \<Rightarrow> 't table \<Rightarrow> bool" where
  "col_references_table t c referred = list_ex (\<lambda>(kind, cs). c \<in> set cs \<and> (case kind of
     ForeignKeyC t' rs \<Rightarrow> t' = tab_name referred | _ \<Rightarrow> False)) (tab_constraints t)"

definition primary_key_columns :: "'t table \<Rightarrow> string list" where
  "primary_key_columns t = concat (map snd (filter (\<lambda>(kind, cs). kind = PrimaryKeyC) (tab_constraints t)))"

section \<open>The parts of the function\<close>

text \<open>Columns that refer to the parent's table refer to the first key column of its history table, and
  the version to the version.\<close>

definition super_fks :: "'t local_mapper \<Rightarrow> (string \<times> string) list" where
  "super_fks m = (case lm_inherits m of
     None \<Rightarrow> []
   | Some s \<Rightarrow>
       map (\<lambda>c. (col_name c, hd (primary_key_columns (sm_history_table s))))
         (filter (\<lambda>c. col_references_table (lm_table m) (col_name c) (sm_table s)) (tab_columns (lm_table m)))
       @ [(''version'', ''version'')])"

definition own_history_table :: "(string \<Rightarrow> string list \<Rightarrow> string option) \<Rightarrow> 't \<Rightarrow> 't \<Rightarrow> 't local_mapper \<Rightarrow> 't table" where
  "own_history_table ix_naming int_type datetime_type m =
     (let t = history_table ix_naming int_type datetime_type (lm_table m)
      in case (lm_inherits m, super_fks m) of
           (Some s, fk # fks) \<Rightarrow> t\<lparr>tab_constraints := tab_constraints t
             @ [(ForeignKeyC (tab_name (sm_history_table s)) (map snd (fk # fks)), map fst (fk # fks))]\<rparr>
         | _ \<Rightarrow> t)"

text \<open>Properties that have another name than their column, or several columns, are carried over.\<close>

definition remapped :: "'t local_mapper \<Rightarrow> (string \<times> (string \<times> string) list) list" where
  "remapped m = map (\<lambda>(key, cols). (key, map (\<lambda>(t, c). (t @ ''_history'', c)) cols))
     (filter (\<lambda>(key, cols). list_ex (\<lambda>(t, c). t = tab_name (lm_table m)) cols
        \<and> (length cols > 1 \<or> map snd cols \<noteq> [key])) (lm_properties m))"

text \<open>Single-table inheritance: columns the subclass added are added to the parent's history table.\<close>

definition plain_column :: "'t column \<Rightarrow> 't column" where
  "plain_column c = \<lparr>col_name = col_name c, col_type = col_type c, col_nullable = col_nullable c, col_unique = False,
     col_has_default = False, col_autoincrement = False, col_primary_key = False, col_version_meta = False\<rparr>"

fun add_missing :: "'t column list \<Rightarrow> 't table \<Rightarrow> 't table" where
  "add_missing [] t = t"
| "add_missing (c # cs) t = add_missing cs
     (if col_name c \<in> set (map col_name (tab_columns t)) then t
      else t\<lparr>tab_columns := tab_columns t @ [plain_column c]\<rparr>)"

definition shares_table :: "'t local_mapper \<Rightarrow> bool" where
  "shares_table m = (case lm_inherits m of None \<Rightarrow> False | Some s \<Rightarrow> tab_name (lm_table m) = tab_name (sm_table s))"

text \<open>The discriminator counts where it is a column of the class's own table.\<close>

definition own_polymorphic_on :: "'t local_mapper \<Rightarrow> string option" where
  "own_polymorphic_on m = (case lm_polymorphic_on m of
     Some (t, c) \<Rightarrow> if t = tab_name (lm_table m) \<and> c \<in> set (map col_name (tab_columns (lm_table m))) then Some c else None
   | None \<Rightarrow> None)"

definition history_mapper_of :: "(string \<Rightarrow> string list \<Rightarrow> string option) \<Rightarrow> 't \<Rightarrow> 't \<Rightarrow> 't local_mapper
    \<Rightarrow> 't history_mapping option" where
  "history_mapper_of ix_naming int_type datetime_type m =
     (if lm_configured m then None
      else
        let history = (if shares_table m then None else Some (own_history_table ix_naming int_type datetime_type m));
            properties = (if shares_table m then [] else remapped m)
        in Some
          \<lparr>hp_class = lm_class m @ ''History'',
           hp_bases = (case lm_inherits m of None \<Rightarrow> lm_base_bases m | Some s \<Rightarrow> [sm_history_class s]),
           hp_inherits = map_option sm_history_class (lm_inherits m),
           hp_table = history,
           hp_polymorphic_on = (if shares_table m then None else own_polymorphic_on m),
           hp_polymorphic_identity = lm_polymorphic_identity m,
           hp_properties = (case (lm_inherits m, history) of
               (Some s, Some h) \<Rightarrow> properties @ [(''changed'', (tab_name h, ''changed'') # sm_changed_columns s)]
             | _ \<Rightarrow> properties),
           hp_local_table = (if lm_inherits m = None then versioned_table int_type (lm_table m) else lm_table m),
           hp_super_history = (case lm_inherits m of
               None \<Rightarrow> None
             | Some s \<Rightarrow> Some (if shares_table m then add_missing (tab_columns (lm_table m)) (sm_history_table s) else sm_history_table s)),
           hp_version_id_col = (if lm_inherits m = None \<and> lm_use_versioning m then Some ''version'' else None),
           hp_active_history = map fst (lm_properties m) @ (if lm_inherits m = None then [''version''] else [])\<rparr>)"

section \<open>What it makes of the cases\<close>

text \<open>A class is configured once; a class without a parent gets its own history table, and the version
  of its rows is the mapper's version column if it asks for it.\<close>

lemma configured_once: "history_mapper_of nm it dt m = None \<longleftrightarrow> lm_configured m"
  by (simp add: history_mapper_of_def Let_def)

lemma plain_class_history:
  assumes "history_mapper_of nm it dt m = Some h" "lm_inherits m = None"
  shows "hp_table h = Some (history_table nm it dt (lm_table m)) \<and> hp_local_table h = versioned_table it (lm_table m)
    \<and> hp_bases h = lm_base_bases m \<and> (hp_version_id_col h = Some ''version'' \<longleftrightarrow> lm_use_versioning m)"
  using assms by (auto simp: history_mapper_of_def own_history_table_def shares_table_def Let_def split: if_splits)

text \<open>With a table of its own, a subclass keeps for every row of its history the row of the same version
  in its parent's history.\<close>

lemma joined_class_history:
  assumes "history_mapper_of nm it dt m = Some h" "lm_inherits m = Some s" "tab_name (lm_table m) \<noteq> tab_name (sm_table s)"
  shows "\<exists>t cs rs. hp_table h = Some t \<and> (ForeignKeyC (tab_name (sm_history_table s)) (rs @ [''version'']), cs @ [''version'']) \<in> set (tab_constraints t)
    \<and> set cs = {c \<in> col_name ` set (tab_columns (lm_table m)). col_references_table (lm_table m) c (sm_table s)}
    \<and> set rs \<subseteq> {hd (primary_key_columns (sm_history_table s))} \<and> hp_inherits h = Some (sm_history_class s)"
proof -
  let ?cols = "filter (\<lambda>c. col_references_table (lm_table m) (col_name c) (sm_table s)) (tab_columns (lm_table m))"
  let ?pk = "hd (primary_key_columns (sm_history_table s))"
  have fks: "super_fks m = map (\<lambda>c. (col_name c, ?pk)) ?cols @ [(''version'', ''version'')]"
    using assms(2) by (simp add: super_fks_def)
  then have "super_fks m \<noteq> []" by simp
  then obtain fk rest where f: "super_fks m = fk # rest" unfolding neq_Nil_conv by blast
  have e: "map fst (fk # rest) = map col_name ?cols @ [''version'']" "map snd (fk # rest) = map (\<lambda>c. ?pk) ?cols @ [''version'']"
    unfolding f [symmetric] fks by (simp_all add: comp_def)
  have "(ForeignKeyC (tab_name (sm_history_table s)) (map snd (fk # rest)), map fst (fk # rest))
      \<in> set (tab_constraints (own_history_table nm it dt m))"
    using assms(2) by (simp add: own_history_table_def f Let_def)
  moreover have "hp_table h = Some (own_history_table nm it dt m)" "hp_inherits h = Some (sm_history_class s)"
    using assms by (auto simp: history_mapper_of_def shares_table_def Let_def split: if_splits)
  ultimately show ?thesis
    unfolding e by (intro exI [of _ "own_history_table nm it dt m"] exI [of _ "map col_name ?cols"] exI [of _ "map (\<lambda>c. ?pk) ?cols"])
      auto
qed

lemma plain_column_name [simp]: "col_name (plain_column c) = col_name c"
  by (simp add: plain_column_def)

lemma add_missing_columns:
  "set (map col_name (tab_columns (add_missing cs t))) = set (map col_name (tab_columns t)) \<union> col_name ` set cs"
  by (induction cs arbitrary: t) auto

text \<open>Sharing the parent's table, a subclass has no history table of its own, and the parent's has a
  column for each of the subclass's.\<close>

lemma single_table_history:
  assumes "history_mapper_of nm it dt m = Some h" "lm_inherits m = Some s" "tab_name (lm_table m) = tab_name (sm_table s)"
  shows "\<exists>t. hp_table h = None \<and> hp_super_history h = Some t
    \<and> col_name ` set (tab_columns (lm_table m)) \<subseteq> set (map col_name (tab_columns t))"
  using assms add_missing_columns [of "tab_columns (lm_table m)" "sm_history_table s"]
  by (auto simp: history_mapper_of_def shares_table_def Let_def split: if_splits)

end
