(* ===== verification/Outbox.thy ===== *)
theory Outbox
  imports Processes
begin

text \<open>
  The outbox: a request writes its rows and the job that announces them. \<open>deps.py\<close> opens the sessions and
  hands their connection to the queue, \<open>fast_deps.get_pgqueuer_queries\<close> and \<open>get_enqueuer\<close> choose the
  session. Here the creation of an account is taken apart into the steps that others can see.
\<close>

section \<open>Connections\<close>

text \<open>
  What is committed, and what the transaction of the endpoint's session has changed so far. A session begins
  its transaction with its first statement, so a connection nothing was executed on has none.
\<close>

record 'q backend =
  be_db :: db
  be_queue :: 'q
  tx_db :: "db option"
  tx_queue :: "'q option"

abbreviation durable :: "'q backend \<Rightarrow> db \<times> 'q" where
  "durable b \<equiv> (be_db b, be_queue b)"

definition idle :: "db \<Rightarrow> 'q \<Rightarrow> 'q backend" where
  "idle d q = \<lparr>be_db = d, be_queue = q, tx_db = None, tx_queue = None\<rparr>"

text \<open>The end of \<open>get_tx_session\<close>: \<open>commits\<close> says that the handler returned and the database accepted the
  commit; otherwise the transaction is rolled back, as the end of \<open>get_session\<close> does in any case.\<close>

definition session_exit :: "bool \<Rightarrow> 'q backend \<Rightarrow> 'q backend" where
  "session_exit commits b =
     (if commits
      then idle (case tx_db b of None \<Rightarrow> be_db b | Some d \<Rightarrow> d) (case tx_queue b of None \<Rightarrow> be_queue b | Some q \<Rightarrow> q)
      else idle (be_db b) (be_queue b))"

text \<open>
  \<open>make_job_queries\<close> takes the driver's connection from under SQLAlchemy's, so the queue's statement is part of a
  transaction only if the session of that connection has begun one. Without one the statement is
  committed by itself. \<open>shared\<close>: it is the connection of the endpoint's session.
\<close>

definition job_queries :: "bool \<Rightarrow> (job_request \<Rightarrow> 'q \<Rightarrow> exc + 'q) \<Rightarrow> job_request \<Rightarrow> 'q backend \<Rightarrow> exc + 'q backend" where
  "job_queries shared put job b =
     (if shared \<and> tx_db b \<noteq> None
      then map_sum id (\<lambda>q. b\<lparr>tx_queue := Some q\<rparr>) (put job (case tx_queue b of None \<Rightarrow> be_queue b | Some q \<Rightarrow> q))
      else map_sum id (\<lambda>q. b\<lparr>be_queue := q\<rparr>) (put job (be_queue b)))"

section \<open>The creation of an account, step by step\<close>

text \<open>The states the request goes through, and its answer.\<close>

definition create_account_steps ::
  "bool \<Rightarrow> bool \<Rightarrow> (async_message \<Rightarrow> byte list) \<Rightarrow> (job_request \<Rightarrow> 'q \<Rightarrow> exc + 'q) \<Rightarrow> (string \<rightharpoonup> string)
    \<Rightarrow> timestamp \<Rightarrow> uuid \<Rightarrow> account_create_body \<Rightarrow> uuid \<Rightarrow> 'q backend \<Rightarrow> 'q backend list \<times> (exc + uuid)"
where
  "create_account_steps shared commits dump put contextvars now entity_id body sub b =
     (let account = account_create now entity_id (nb_customer_id body)
            (currency_value (nb_currency body)) (Some (nb_name body)) sub
      in case (case insert_account account (be_db b) of
                 Inl e \<Rightarrow> Inl e
               | Inr d1 \<Rightarrow> insert_ledger (ledger_create now (a_id account) (Some sub)) d1) of
           Inl (IntegrityError c) \<Rightarrow> ([b, session_exit False b], Inl (HTTPException 400 (StrOf (IntegrityError c))))
         | Inl e \<Rightarrow> ([b, session_exit False b], Inl e)
         | Inr d2 \<Rightarrow>
             let flushed = b\<lparr>tx_db := Some d2\<rparr>
             in case enqueue dump (job_queries shared put) contextvars (M_account_created (account_created_event account)) flushed of
                  Inl e \<Rightarrow> ([b, flushed, session_exit False flushed], Inl e)
                | Inr enqueued \<Rightarrow> ([b, flushed, enqueued, session_exit commits enqueued], Inr (a_id account)))"

lemma create_account_steps_eq:
  assumes "db_ok d"
  shows "create_account_steps shared commits dump put contextvars now i body sub (idle d q) =
    (let b = idle d q; flushed = b\<lparr>tx_db := Some (opened now i body sub d)\<rparr>
     in if creatable i body d
        then (case job_queries shared put (creation_job dump contextvars (new_account now i body sub)) flushed of
                Inl e \<Rightarrow> ([b, flushed, session_exit False flushed], Inl e)
              | Inr enqueued \<Rightarrow> ([b, flushed, enqueued, session_exit commits enqueued], Inr i))
        else ([b, b], Inl (HTTPException 400 (StrOf (case insert_account (new_account now i body sub) d of
                Inl e \<Rightarrow> e | Inr _ \<Rightarrow> undefined)))))"
proof -
  have "job_queries shared put (creation_job dump contextvars a) b
      = enqueue dump (job_queries shared put) contextvars (M_account_created (account_created_event a)) b" for a b
    by (simp add: creation_job_def enqueue_def dedupe_key_def Let_def account_created_event_def)
  note job = this [symmetric, of "new_account now i body sub"]
  have [simp]: "be_db (idle d q) = d" "session_exit False (idle d q) = idle d q"
    by (simp_all add: idle_def session_exit_def)
  note inserts = opened_inserts [OF assms, of now i sub body]
  show ?thesis
  proof (cases "creatable i body d")
    case True
    then show ?thesis
      using inserts unfolding create_account_steps_def new_account_def [symmetric]
      by (simp add: job Let_def split: sum.splits)
  next
    case False
    then show ?thesis
      using inserts uncreatable_integrity [of i body d now sub] unfolding create_account_steps_def new_account_def [symmetric]
      by (auto simp: Let_def)
  qed
qed

text \<open>With one session the steps are the atomic transaction: nobody sees the rows without the job or the job
  without the rows.\<close>

lemma one_session_is_atomic:
  assumes "db_ok d" "b \<in> set (fst (create_account_steps True commits dump put contextvars now i body sub (idle d q)))"
  shows "durable b = (d, q) \<or>
    commits \<and> create_customer_account dump put contextvars now i body sub d q = Inr (be_db b, be_queue b, i)"
proof (cases "put (creation_job dump contextvars (new_account now i body sub)) q")
  case (Inl e)
  then show ?thesis
    using assms(2) unfolding create_account_steps_eq [OF assms(1)]
    by (auto simp: job_queries_def session_exit_def idle_def Let_def split: if_splits)
next
  case (Inr q')
  then show ?thesis
    using assms(2) unfolding create_account_steps_eq [OF assms(1)] create_customer_account_eq [OF assms(1)]
    by (auto simp: job_queries_def session_exit_def idle_def Let_def split: if_splits)
qed

text \<open>When the handler returns and the commit succeeds, the wiring makes no difference to what is stored.\<close>

lemma committed_creation:
  assumes "db_ok d" "create_customer_account dump put contextvars now i body sub d q = Inr (d', q', i')"
  shows "durable (last (fst (create_account_steps shared True dump put contextvars now i body sub (idle d q)))) = (d', q')
    \<and> snd (create_account_steps shared True dump put contextvars now i body sub (idle d q)) = Inr i'"
  using assms(2) uncreatable_integrity [of i body d now sub]
  unfolding create_account_steps_eq [OF assms(1)] create_customer_account_eq [OF assms(1)]
  by (cases "put (creation_job dump contextvars (new_account now i body sub)) q")
    (auto simp: job_queries_def session_exit_def idle_def Let_def split: if_splits)

text \<open>A subscriber's session executes nothing before it puts the job in, so the job stays although
  \<open>get_session\<close> never commits.\<close>

lemma subscribers_jobs_stay:
  assumes "on_payment_deposited dump put contextvars event q = Inr q'"
  shows "\<exists>b. on_payment_deposited dump (job_queries shared put) contextvars event (idle d q) = Inr b
    \<and> session_exit False b = idle d q'"
  using assms by (auto simp: on_payment_deposited_def enqueue_def job_queries_def session_exit_def idle_def Let_def)

lemma creation_job_publishes:
  assumes "load (dump (M_account_created (account_created_event a))) = Inr (account_created_event a)"
  shows "\<exists>p. on_customer_account_created load (\<lambda>m b. Inr (b @ [m])) ctx (queued (creation_job dump contextvars a)) [] = Inr [p]
    \<and> ac_id (pub_body p) = a_id a"
  using assms
  by (simp add: on_customer_account_created_def decode_or_fail_def from_payload_bytes_def queued_def creation_job_def Let_def
      account_created_event_def)

text \<open>C15: The creation of an account as wired is no outbox. The queue uses a session of its own, so the job
  is committed while the account is not: others see it before the account, and if the commit of the
  account fails, the job stays and announces an account that does not exist. With one session for
  both, as the tests have it, the account and its job are committed together or not at all.\<close>

theorem outbox_as_wired_is_not_atomic:
  assumes "db_ok d" "creatable i body d" "put (creation_job dump contextvars (new_account now i body sub)) q = Inr q'"
    and "load (dump (M_account_created (account_created_event (new_account now i body sub))))
      = Inr (account_created_event (new_account now i body sub))"
  shows "map durable (fst (create_account_steps sessions_shared commits dump put contextvars now i body sub (idle d q)))
      = [(d, q), (d, q), (d, q'), (if commits then opened now i body sub d else d, q')]
    \<and> account_find_by_id d i = Inr None
    \<and> (\<exists>p. on_customer_account_created load (\<lambda>m b. Inr (b @ [m])) ctx
          (queued (creation_job dump contextvars (new_account now i body sub))) [] = Inr [p] \<and> ac_id (pub_body p) = i)
    \<and> map durable (fst (create_account_steps True commits dump put contextvars now i body sub (idle d q)))
      = [(d, q), (d, q), (d, q), if commits then (opened now i body sub d, q') else (d, q)]"
proof -
  have "filter (\<lambda>a. a_id a = i) (accounts d) = []"
    using assms(2) by (auto simp: creatable_def filter_empty_conv)
  then have "account_find_by_id d i = Inr None" by (simp add: account_find_by_id_def)
  then show ?thesis
    using assms(2,3) creation_job_publishes [of load dump, OF assms(4)]
    unfolding create_account_steps_eq [OF assms(1)]
    by (simp add: job_queries_def session_exit_def idle_def Let_def)
qed

theorem outbox_as_wired_is_not_atomic_witness:
  "\<exists>job. map durable (fst (create_account_steps sessions_shared False (\<lambda>_. []) (\<lambda>j q. Inr (q @ [j])) Map.empty 5 11 sample_body 7
      (idle sample_db []))) = [(sample_db, []), (sample_db, []), (sample_db, [job]), (sample_db, [job])]"
proof -
  have "creatable 11 sample_body sample_db"
    by (simp add: creatable_def sample_body_def sample_account_def sample_customer_def customer_create_def)
  then show ?thesis
    using outbox_as_wired_is_not_atomic [OF sample_db_ok, of 11 sample_body "\<lambda>j q. Inr (q @ [j])" "\<lambda>_. []" Map.empty 5 7 "[]" _
        "\<lambda>_. Inr (account_created_event (new_account 5 11 sample_body 7))" False]
    by simp
qed

end
