(* ===== verification/Serial_Payments.thy ===== *)
theory Serial_Payments
  imports Payments
begin

text \<open>
  Payment jobs that run at the same time. \<open>on_create_payment\<close> is taken apart into the statements it sends;
  those of several jobs may come in any order, each reading what is committed, and other transactions
  commit in between. \<open>lock_by_id\<close> holds the account's row until the transaction ends: that this is enough
  for the jobs to have the effect of running one after the other, as \<open>apply_payment\<close> has it and the verifier's
  checkpoints assume, is shown here.
\<close>

section \<open>The statements of a job\<close>

text \<open>Where a job is: the last statement it has sent, with what it still needs.\<close>

datatype phase =
    Starting
  | Account_locked
  | Not_applied
  | Following customer_account_ledger
  | Flushed customer_account_ledger
  | Ended "exc + unit"

text \<open>The next statement and what the code does with its answer; an exception rolls the transaction back.
  The commit is not a statement of the handler.\<close>

fun next_statement :: "timestamp \<Rightarrow> create_payment \<Rightarrow> db \<Rightarrow> phase \<Rightarrow> phase" where
  "next_statement now event d Starting =
     (case account_lock_by_id d (p_account_id event) of
        Inl e \<Rightarrow> Ended (Inl e)
      | Inr None \<Rightarrow> Ended (Inl (RetryRequested None (AccountNotFound (p_account_id event))))
      | Inr (Some account) \<Rightarrow>
          if a_status account \<noteq> Acc_ACTIVE
          then Ended (Inl (TerminalJobError (AccountNotActive (p_account_id event))))
          else Account_locked)"
| "next_statement now event d Account_locked =
     (if has_ledger_operation d (p_account_id event) (p_id event) then Ended (Inr ()) else Not_applied)"
| "next_statement now event d Not_applied =
     (case find_last_ledger_entry d (p_account_id event) of
        Inl e \<Rightarrow> Ended (Inl e)
      | Inr None \<Rightarrow> Ended (Inl (TerminalJobError (LedgerNotFound (p_account_id event))))
      | Inr (Some previous) \<Rightarrow>
          let balance_after = l_balance previous + p_signed_amount event
          in if balance_after < 0
             then Ended (Inl (TerminalJobError (InsufficientFunds (p_account_id event) (p_id event) \<bar>balance_after\<bar>)))
             else Following (ledger_follow now previous (p_signed_amount event) (p_type event) (p_id event) None))"
| "next_statement now event d (Following entry) =
     (case insert_ledger entry d of Inl e \<Rightarrow> Ended (Inl e) | Inr d' \<Rightarrow> Flushed entry)"
| "next_statement now event d (Flushed entry) = Flushed entry"
| "next_statement now event d (Ended r) = Ended r"

fun in_transaction :: "phase \<Rightarrow> bool" where
  "in_transaction Starting = False"
| "in_transaction (Ended r) = False"
| "in_transaction _ = True"

section \<open>Jobs side by side\<close>

text \<open>Job \<open>w\<close> runs \<open>command w\<close> at the moment that comes with it. The lock of an account's row is held by one job.\<close>

record jobs =
  jb_db :: db
  jb_phase :: "nat \<Rightarrow> phase"
  jb_owner :: "uuid \<rightharpoonup> nat"

definition jobs_start :: "db \<Rightarrow> jobs" where
  "jobs_start d = \<lparr>jb_db = d, jb_phase = \<lambda>w. Starting, jb_owner = Map.empty\<rparr>"

text \<open>What a transaction that does not touch an account's row or ledger leaves alone.\<close>

definition same_account :: "uuid \<Rightarrow> db \<Rightarrow> db \<Rightarrow> bool" where
  "same_account i d d' \<longleftrightarrow> filter (\<lambda>a. a_id a = i) (accounts d') = filter (\<lambda>a. a_id a = i) (accounts d)
     \<and> filter (\<lambda>r. l_account_id r = i) (ledger d') = filter (\<lambda>r. l_account_id r = i) (ledger d)"

text \<open>What can be seen of a step: a job ended with its result, or another transaction committed.\<close>

datatype event = Done nat "exc + unit" | Other db

definition owner_after :: "uuid \<Rightarrow> nat \<Rightarrow> phase \<Rightarrow> (uuid \<rightharpoonup> nat) \<Rightarrow> (uuid \<rightharpoonup> nat)" where
  "owner_after i w ph owner = owner(i := (if in_transaction ph then Some w else None))"

text \<open>
  A job's first statement waits while another holds the row; its end gives the lock back. Other
  transactions (edits, creations, verification runs) do not change a row that is locked, and a ledger
  is only written with its account's row locked or created.
\<close>

inductive job_step :: "(nat \<Rightarrow> timestamp \<times> create_payment) \<Rightarrow> jobs \<Rightarrow> event option \<Rightarrow> jobs \<Rightarrow> bool"
  for command :: "nat \<Rightarrow> timestamp \<times> create_payment"
where
  statement:
    "command w = (now, event) \<Longrightarrow> jb_phase s w = ph \<Longrightarrow> ph = Starting \<and> jb_owner s (p_account_id event) = None \<or> in_transaction ph
     \<Longrightarrow> next_statement now event (jb_db s) ph = ph' \<Longrightarrow> ph' \<noteq> ph
     \<Longrightarrow> job_step command s (case ph' of Ended r \<Rightarrow> Some (Done w r) | _ \<Rightarrow> None)
           (s\<lparr>jb_phase := (jb_phase s)(w := ph'), jb_owner := owner_after (p_account_id event) w ph' (jb_owner s)\<rparr>)"
| commit:
    "command w = (now, event) \<Longrightarrow> jb_phase s w = Flushed entry
     \<Longrightarrow> job_step command s (Some (Done w (Inr ())))
           (s\<lparr>jb_db := (jb_db s)\<lparr>ledger := ledger (jb_db s) @ [entry]\<rparr>,
              jb_phase := (jb_phase s)(w := Ended (Inr ())),
              jb_owner := (jb_owner s)(p_account_id event := None)\<rparr>)"
| other:
    "db_ok d' \<Longrightarrow> (\<And>i. jb_owner s i \<noteq> None \<Longrightarrow> same_account i (jb_db s) d')
     \<Longrightarrow> job_step command s (Some (Other d')) (s\<lparr>jb_db := d'\<rparr>)"

inductive job_steps :: "(nat \<Rightarrow> timestamp \<times> create_payment) \<Rightarrow> jobs \<Rightarrow> event list \<Rightarrow> jobs \<Rightarrow> bool"
  for command :: "nat \<Rightarrow> timestamp \<times> create_payment"
where
  none: "job_steps command s [] s"
| more: "job_steps command s es s' \<Longrightarrow> job_step command s' l s'' \<Longrightarrow>
     job_steps command s (es @ (case l of None \<Rightarrow> [] | Some e \<Rightarrow> [e])) s''"

text \<open>The specification: the jobs run one after the other in the order they ended, each as one
  transaction, with the other transactions in between.\<close>

fun one_by_one :: "(nat \<Rightarrow> timestamp \<times> create_payment) \<Rightarrow> event list \<Rightarrow> db \<Rightarrow> db option" where
  "one_by_one command [] d = Some d"
| "one_by_one command (Other d' # es) d = one_by_one command es d'"
| "one_by_one command (Done w r # es) d =
     (case (payment_tx (command w) d, r) of
        (Inl e, Inl e') \<Rightarrow> if e = e' then one_by_one command es d else None
      | (Inr d', Inr _) \<Rightarrow> one_by_one command es d'
      | _ \<Rightarrow> None)"

lemma one_by_one_append:
  "one_by_one command (es @ fs) d = Option.bind (one_by_one command es d) (one_by_one command fs)"
  by (induction command es d rule: one_by_one.induct) (auto split: sum.splits)

section \<open>What a job knows while it holds the lock\<close>

definition still_true :: "timestamp \<Rightarrow> create_payment \<Rightarrow> db \<Rightarrow> phase \<Rightarrow> bool" where
  "still_true now event d ph =
     (let i = p_account_id event;
          active = (\<exists>a. account_lock_by_id d i = Inr (Some a) \<and> a_status a = Acc_ACTIVE);
          follows = (\<lambda>entry. \<exists>previous. find_last_ledger_entry d i = Inr (Some previous)
            \<and> 0 \<le> l_balance previous + p_signed_amount event
            \<and> entry = ledger_follow now previous (p_signed_amount event) (p_type event) (p_id event) None)
      in case ph of
           Account_locked \<Rightarrow> active
         | Not_applied \<Rightarrow> active \<and> \<not> has_ledger_operation d i (p_id event)
         | Following entry \<Rightarrow> active \<and> \<not> has_ledger_operation d i (p_id event) \<and> follows entry
         | Flushed entry \<Rightarrow> active \<and> \<not> has_ledger_operation d i (p_id event) \<and> follows entry
             \<and> insert_ledger entry d = Inr (d\<lparr>ledger := ledger d @ [entry]\<rparr>)
         | _ \<Rightarrow> True)"

text \<open>A statement keeps what is known, and a job that ends has done what the transaction does.\<close>

lemma statement_still_true:
  assumes "still_true now event d ph"
  shows "still_true now event d (next_statement now event d ph)"
  using assms
  by (cases ph) (auto simp: still_true_def Let_def dest: insert_ledger_Inr split: sum.splits option.splits if_splits)

lemma ended_as_transaction:
  assumes "still_true now event d ph" "next_statement now event d ph = Ended r" "in_transaction ph \<or> ph = Starting"
  shows "apply_payment now event d = map_sum id (\<lambda>_. d) r"
  using assms
  by (cases ph) (auto simp: still_true_def apply_payment_def Let_def split: sum.splits option.splits if_splits)

lemma flushed_as_transaction:
  assumes "still_true now event d (Flushed entry)"
  shows "apply_payment now event d = Inr (d\<lparr>ledger := ledger d @ [entry]\<rparr>)"
  using assms by (auto simp: still_true_def apply_payment_def Let_def)

lemma list_ex_filtered:
  "list_ex (\<lambda>x. f x = i \<and> P x) xs \<longleftrightarrow> list_ex P (filter (\<lambda>x. f x = i) xs)"
  by (induction xs) auto

lemma last_entry_account: "find_last_ledger_entry d i = Inr (Some r) \<Longrightarrow> l_account_id r = i"
  by (auto simp: find_last_ledger_entry_def order_by_desc_def split: list.splits dest!: arg_cong [where f = set])

lemma same_account_reads:
  assumes "same_account i d d'"
  shows "account_lock_by_id d' i = account_lock_by_id d i"
    "has_ledger_operation d' i oid = has_ledger_operation d i oid"
    "find_last_ledger_entry d' i = find_last_ledger_entry d i"
    "account_exists d' i = account_exists d i"
  using assms list_ex_filtered [of a_id i "\<lambda>_. True" "accounts d"] list_ex_filtered [of a_id i "\<lambda>_. True" "accounts d'"]
  by (simp_all add: same_account_def account_lock_by_id_def has_ledger_operation_def find_last_ledger_entry_def account_exists_def
      list_ex_filtered [of l_account_id])

lemma same_account_insert:
  assumes "same_account (l_account_id r) d d'" "insert_ledger r d = Inr (d\<lparr>ledger := ledger d @ [r]\<rparr>)"
  shows "insert_ledger r d' = Inr (d'\<lparr>ledger := ledger d' @ [r]\<rparr>)"
proof -
  have "list_ex (\<lambda>s. l_account_id s = l_account_id r \<and> P s) (ledger d') = list_ex (\<lambda>s. l_account_id s = l_account_id r \<and> P s) (ledger d)" for P
    using assms(1) by (simp add: list_ex_filtered same_account_def)
  then show ?thesis
    using assms(2) same_account_reads(4) [OF assms(1)] unfolding insert_ledger_def by (simp split: if_splits)
qed

lemma still_true_stable:
  assumes "same_account (p_account_id event) d d'" "still_true now event d ph"
  shows "still_true now event d' ph"
proof -
  note r = same_account_reads [OF assms(1)]
  show ?thesis
  proof (cases ph)
    case (Flushed entry)
    then have "l_account_id entry = p_account_id event"
      using assms(2) last_entry_account by (auto simp: still_true_def Let_def)
    then show ?thesis
      using assms same_account_insert [of entry d d'] Flushed by (simp add: still_true_def Let_def r)
  qed (use assms(2) r in \<open>simp_all add: still_true_def Let_def\<close>)
qed

section \<open>The lock makes the jobs serial\<close>

definition locks_ok :: "(nat \<Rightarrow> timestamp \<times> create_payment) \<Rightarrow> jobs \<Rightarrow> bool" where
  "locks_ok command s \<longleftrightarrow>
     (\<forall>w. still_true (fst (command w)) (snd (command w)) (jb_db s) (jb_phase s w)
        \<and> (in_transaction (jb_phase s w) \<longrightarrow> jb_owner s (p_account_id (snd (command w))) = Some w))
     \<and> (\<forall>i w. jb_owner s i = Some w \<longrightarrow> in_transaction (jb_phase s w) \<and> p_account_id (snd (command w)) = i)"

lemma locks_okD:
  assumes "locks_ok command s" "command w = (now, event)"
  shows "still_true now event (jb_db s) (jb_phase s w)"
    "in_transaction (jb_phase s w) \<Longrightarrow> jb_owner s (p_account_id event) = Some w"
    "jb_owner s i = Some w \<Longrightarrow> in_transaction (jb_phase s w) \<and> p_account_id event = i"
  using assms unfolding locks_ok_def by (metis fst_conv snd_conv)+

lemma idle_still_true: "\<not> in_transaction ph \<Longrightarrow> still_true now event d ph"
  by (cases ph) (simp_all add: still_true_def)

lemma start_locks_ok: "locks_ok command (jobs_start d)"
  by (simp add: locks_ok_def jobs_start_def idle_still_true)

text \<open>A step of one job: the others hold other locks.\<close>

lemma locks_ok_step:
  assumes ok: "locks_ok command s" and w: "command w = (now, event)"
    and free: "jb_owner s (p_account_id event) \<in> {None, Some w}"
    and mine: "still_true now event d' ph'"
    and others: "\<And>j. j \<noteq> p_account_id event \<Longrightarrow> same_account j (jb_db s) d'"
  shows "locks_ok command (s\<lparr>jb_db := d', jb_phase := (jb_phase s)(w := ph'),
    jb_owner := owner_after (p_account_id event) w ph' (jb_owner s)\<rparr>)"
proof -
  have "still_true (fst (command v)) (snd (command v)) d' (jb_phase s v)
      \<and> (in_transaction (jb_phase s v) \<longrightarrow> p_account_id (snd (command v)) \<noteq> p_account_id event
          \<and> jb_owner s (p_account_id (snd (command v))) = Some v)" if "v \<noteq> w" for v
  proof (cases "in_transaction (jb_phase s v)")
    case True
    then have o: "jb_owner s (p_account_id (snd (command v))) = Some v" using ok by (simp add: locks_ok_def)
    then have "p_account_id (snd (command v)) \<noteq> p_account_id event" using free that by auto
    then show ?thesis
      using o ok others still_true_stable unfolding locks_ok_def by blast
  qed (simp add: idle_still_true)
  moreover have "i = p_account_id event" if "jb_owner s i = Some w" for i
    using locks_okD(3) [OF ok w that] by simp
  ultimately show ?thesis
    using ok w mine free by (auto simp: locks_ok_def owner_after_def)
qed

lemma same_account_refl [simp]: "same_account i d d"
  by (simp add: same_account_def)

lemma next_statement_waits: "in_transaction (next_statement now event d ph) \<or> (\<exists>r. next_statement now event d ph = Ended r)
    \<or> next_statement now event d ph = ph"
  by (cases ph) (auto simp: Let_def split: sum.splits option.splits)

text \<open>The simulation.\<close>

lemma job_step_serial:
  assumes "locks_ok command s" "job_step command s l s'"
  shows "locks_ok command s' \<and> one_by_one command (case l of None \<Rightarrow> [] | Some e \<Rightarrow> [e]) (jb_db s) = Some (jb_db s')"
  using assms(2)
proof cases
  case (statement w now event ph ph')
  have free: "jb_owner s (p_account_id event) \<in> {None, Some w}"
    using statement(5) locks_okD(2) [OF assms(1) statement(3)] statement(4) by auto
  note known = locks_okD(1) [OF assms(1) statement(3)]
  have "locks_ok command s'"
    using locks_ok_step [OF assms(1) statement(3) free, of "jb_db s" ph'] statement_still_true [OF known] statement(2,4,6)
    by simp
  moreover have "payment_tx (command w) (jb_db s) = map_sum id (\<lambda>_. jb_db s) r" if "ph' = Ended r" for r
    using ended_as_transaction [OF known, of r] statement(3-6) that by auto
  ultimately show ?thesis
    using statement(1,2) by (auto split: phase.splits sum.splits)
next
  case (commit w now event entry)
  note known = locks_okD(1) [OF assms(1) commit(3)]
  have acc: "l_account_id entry = p_account_id event"
    using known commit(4) last_entry_account by (auto simp: still_true_def Let_def)
  have free: "jb_owner s (p_account_id event) \<in> {None, Some w}"
    using locks_okD(2) [OF assms(1) commit(3)] commit(4) by simp
  have s': "s' = s\<lparr>jb_db := (jb_db s)\<lparr>ledger := ledger (jb_db s) @ [entry]\<rparr>, jb_phase := (jb_phase s)(w := Ended (Inr ())),
      jb_owner := owner_after (p_account_id event) w (Ended (Inr ())) (jb_owner s)\<rparr>"
    using commit(2) by (simp add: owner_after_def)
  have "locks_ok command s'"
    unfolding s' by (rule locks_ok_step [OF assms(1) commit(3) free]) (auto simp: idle_still_true same_account_def acc)
  then show ?thesis
    using flushed_as_transaction [of now event "jb_db s" entry] known commit(3,4) by (simp add: commit(1,2))
next
  case (other d')
  have "still_true now event d' (jb_phase s w)" if "command w = (now, event)" for w now event
  proof (cases "in_transaction (jb_phase s w)")
    case True
    then have "same_account (p_account_id event) (jb_db s) d'"
      by (intro other(4)) (simp add: locks_okD(2) [OF assms(1) that])
    then show ?thesis by (rule still_true_stable) (rule locks_okD(1) [OF assms(1) that])
  qed (simp add: idle_still_true)
  then have "locks_ok command s'"
    using assms(1) other(2) unfolding locks_ok_def by simp
  then show ?thesis using other(1,2) by simp
qed

lemma job_steps_serial:
  assumes "job_steps command s es s'" "locks_ok command s"
  shows "locks_ok command s' \<and> one_by_one command es (jb_db s) = Some (jb_db s')"
  using assms
proof (induction rule: job_steps.induct)
  case (more s es s' l s'')
  then show ?case using job_step_serial [OF _ more(2)] by (simp add: one_by_one_append)
qed simp

text \<open>No job waits for ever: each takes one lock, and who holds a lock can go on.\<close>

lemma next_statement_moves:
  "next_statement now event d ph \<noteq> ph \<or> (\<exists>entry. ph = Flushed entry) \<or> (\<exists>r. ph = Ended r)"
  by (cases ph) (auto simp: Let_def split: sum.splits option.splits)

lemma statement_goes_on:
  assumes "jb_phase s w = Starting \<and> jb_owner s (p_account_id (snd (command w))) = None \<or> in_transaction (jb_phase s w)"
    and "\<And>entry. jb_phase s w \<noteq> Flushed entry"
  shows "\<exists>l s'. job_step command s l s' \<and> jb_phase s' w \<noteq> jb_phase s w"
proof -
  let ?ph' = "next_statement (fst (command w)) (snd (command w)) (jb_db s) (jb_phase s w)"
  have "\<And>r. jb_phase s w \<noteq> Ended r" using assms(1) by auto
  then have "?ph' \<noteq> jb_phase s w" using next_statement_moves [of _ _ _ "jb_phase s w"] assms(2) by blast
  let ?s' = "s\<lparr>jb_phase := (jb_phase s)(w := ?ph'), jb_owner := owner_after (p_account_id (snd (command w))) w ?ph' (jb_owner s)\<rparr>"
  have "job_step command s (case ?ph' of Ended r \<Rightarrow> Some (Done w r) | _ \<Rightarrow> None) ?s'"
    by (rule job_step.statement [OF _ refl assms(1) refl \<open>?ph' \<noteq> jb_phase s w\<close>]) simp
  moreover have "jb_phase ?s' w \<noteq> jb_phase s w" using \<open>?ph' \<noteq> jb_phase s w\<close> by simp
  ultimately show ?thesis by blast
qed

lemma transaction_goes_on:
  assumes "in_transaction (jb_phase s w)"
  shows "\<exists>l s'. job_step command s l s' \<and> jb_phase s' w \<noteq> jb_phase s w"
proof (cases "\<exists>entry. jb_phase s w = Flushed entry")
  case True
  then obtain entry where f: "jb_phase s w = Flushed entry" by blast
  show ?thesis
    by (intro exI conjI, rule job_step.commit [OF prod.collapse [symmetric] f]) (simp add: f)
qed (use statement_goes_on assms in blast)

lemma no_deadlock:
  assumes "locks_ok command s" "\<And>r. jb_phase s w \<noteq> Ended r"
  shows "\<exists>l s' v. job_step command s l s' \<and> jb_phase s' v \<noteq> jb_phase s v"
proof (cases "in_transaction (jb_phase s w)")
  case True
  then show ?thesis using transaction_goes_on by blast
next
  case False
  then have st: "jb_phase s w = Starting" using assms(2) by (cases "jb_phase s w") auto
  show ?thesis
  proof (cases "jb_owner s (p_account_id (snd (command w)))")
    case None
    then have "\<exists>l s'. job_step command s l s' \<and> jb_phase s' w \<noteq> jb_phase s w"
      using statement_goes_on [of s w command] st by simp
    then show ?thesis by blast
  next
    case (Some v)
    then have "in_transaction (jb_phase s v)" using assms(1) by (simp add: locks_ok_def)
    then show ?thesis using transaction_goes_on by blast
  qed
qed

section \<open>Runs that can be computed\<close>

text \<open>One turn of job \<open>w\<close>, if it can go on.\<close>

definition job_turn :: "(nat \<Rightarrow> timestamp \<times> create_payment) \<Rightarrow> nat \<Rightarrow> jobs \<Rightarrow> (event list \<times> jobs) option" where
  "job_turn command w s =
     (let (now, event) = command w; i = p_account_id event; ph = jb_phase s w; ph' = next_statement now event (jb_db s) ph
      in case ph of
           Flushed entry \<Rightarrow> Some ([Done w (Inr ())],
             s\<lparr>jb_db := (jb_db s)\<lparr>ledger := ledger (jb_db s) @ [entry]\<rparr>, jb_phase := (jb_phase s)(w := Ended (Inr ())),
               jb_owner := (jb_owner s)(i := None)\<rparr>)
         | _ \<Rightarrow> if ph = Starting \<and> jb_owner s i = None \<or> in_transaction ph
              then Some (case ph' of Ended r \<Rightarrow> [Done w r] | _ \<Rightarrow> [],
                s\<lparr>jb_phase := (jb_phase s)(w := ph'), jb_owner := owner_after i w ph' (jb_owner s)\<rparr>)
              else None)"

fun job_turns :: "(nat \<Rightarrow> timestamp \<times> create_payment) \<Rightarrow> nat list \<Rightarrow> event list \<times> jobs \<Rightarrow> event list \<times> jobs" where
  "job_turns command [] (es, s) = (es, s)"
| "job_turns command (w # ws) (es, s) = job_turns command ws (case job_turn command w s of None \<Rightarrow> (es, s) | Some (fs, s') \<Rightarrow> (es @ fs, s'))"

lemma job_turn_step:
  assumes "job_turn command w s = Some (fs, s')"
  shows "\<exists>l. job_step command s l s' \<and> fs = (case l of None \<Rightarrow> [] | Some e \<Rightarrow> [e])"
proof (cases "\<exists>entry. jb_phase s w = Flushed entry")
  case True
  then obtain entry where f: "jb_phase s w = Flushed entry" by blast
  show ?thesis
    using job_step.commit [OF prod.collapse [symmetric] f, of command] assms f
    by (intro exI [of _ "Some (Done w (Inr ()))"]) (auto simp: job_turn_def Let_def split: prod.splits)
next
  case False
  let ?ph' = "next_statement (fst (command w)) (snd (command w)) (jb_db s) (jb_phase s w)"
  have c: "jb_phase s w = Starting \<and> jb_owner s (p_account_id (snd (command w))) = None \<or> in_transaction (jb_phase s w)"
    and r: "fs = (case ?ph' of Ended r \<Rightarrow> [Done w r] | _ \<Rightarrow> [])"
      "s' = s\<lparr>jb_phase := (jb_phase s)(w := ?ph'), jb_owner := owner_after (p_account_id (snd (command w))) w ?ph' (jb_owner s)\<rparr>"
    using assms False by (auto simp: job_turn_def Let_def split: prod.splits phase.splits if_splits)
  have "\<And>r. jb_phase s w \<noteq> Ended r" using c by auto
  then have "?ph' \<noteq> jb_phase s w" using next_statement_moves [of _ _ _ "jb_phase s w"] False by blast
  with job_step.statement [of command w "fst (command w)" "snd (command w)" s "jb_phase s w", OF _ refl c refl]
  have "job_step command s (case ?ph' of Ended r \<Rightarrow> Some (Done w r) | _ \<Rightarrow> None) s'" unfolding r by simp
  then show ?thesis unfolding r(1) by (intro exI conjI) (auto split: phase.splits)
qed

lemma turns_steps: "job_steps command s0 es s \<Longrightarrow> job_turns command ws (es, s) = (es', s') \<Longrightarrow> job_steps command s0 es' s'"
proof (induction command ws "(es, s)" arbitrary: es s rule: job_turns.induct)
  case (2 command w ws es s)
  show ?case
  proof (cases "job_turn command w s")
    case None
    then show ?thesis using 2 by simp
  next
    case (Some x)
    obtain fs t where x: "x = (fs, t)" by fastforce
    obtain l where "job_step command s l t" "fs = (case l of None \<Rightarrow> [] | Some e \<Rightarrow> [e])"
      using job_turn_step [of command w s fs t] Some x by blast
    then have "job_steps command s0 (es @ fs) t" using job_steps.more [OF 2(2)] by simp
    then show ?thesis using 2 Some x by simp
  qed
qed simp

section \<open>Properties\<close>

lemma apply_payment_no_collision:
  assumes "db_ok d" "ledger_intact d (p_account_id event)"
  shows "apply_payment now event d \<noteq> Inl (IntegrityError c)"
proof
  assume f: "apply_payment now event d = Inl (IntegrityError c)"
  then obtain a where a: "find (\<lambda>a. a_id a = p_account_id event) (accounts d) = Some a"
    and l: "\<not> has_ledger_operation d (p_account_id event) (p_id event)" "ledger_of d (p_account_id event) \<noteq> []"
    by (auto simp: apply_payment_eq [OF assms(1)] split: option.splits if_splits)
  then have "account_exists d (p_account_id event)"
    by (auto simp: account_exists_def list_ex_iff dest: find_SomeD)
  from f payment_row_accepted [OF assms l(2) this l(1)] show False
    by (auto simp: apply_payment_eq [OF assms(1)] Let_def split: option.splits if_splits)
qed

lemma concurrent_intact:
  assumes "job_steps command s es s'" "locks_ok command s" "db_ok (jb_db s)" "all_intact (jb_db s)"
    and "list_all (\<lambda>e. case e of Other d' \<Rightarrow> all_intact d' | _ \<Rightarrow> True) es"
  shows "db_ok (jb_db s') \<and> all_intact (jb_db s') \<and> list_all (\<lambda>e. \<forall>w c. e \<noteq> Done w (Inl (IntegrityError c))) es"
  using assms
proof (induction rule: job_steps.induct)
  case (more s es s' l s'')
  then have ih: "db_ok (jb_db s')" "all_intact (jb_db s')" "list_all (\<lambda>e. \<forall>w c. e \<noteq> Done w (Inl (IntegrityError c))) es"
    by auto
  note st = job_step_serial [OF conjunct1 [OF job_steps_serial [OF more(1,4)]] more(2)]
  show ?case
  proof (cases l)
    case None
    then show ?thesis using ih st by simp
  next
    case (Some e)
    show ?thesis
    proof (cases e)
      case (Other d')
      then show ?thesis using more.prems(4) more(2) ih Some by (auto elim: job_step.cases split: phase.splits)
    next
      case (Done w r)
      obtain now event where c: "command w = (now, event)" by fastforce
      have i: "ledger_intact (jb_db s') i" for i using ih(2) by (simp add: all_intact_def)
      show ?thesis
      proof (cases "apply_payment now event (jb_db s')")
        case (Inl x)
        then show ?thesis
          using apply_payment_no_collision [OF ih(1) i, of now event] st ih Some Done c by (auto split: sum.splits if_splits)
      next
        case (Inr d')
        then have "all_intact d'" using apply_payment_intact [OF ih(1) _ i] by (simp add: all_intact_def)
        then show ?thesis
          using apply_payment_ok [OF ih(1) Inr] Inr st ih(3) Some Done c by (auto split: sum.splits)
      qed
    qed
  qed
qed simp

text \<open>C3: Payment jobs that run at the same time, whatever the order of their statements and whatever other
  transactions commit in between, have the results and the effect of running one after the other in
  the order they end, each as the single transaction \<open>apply_payment\<close>. So intact ledgers stay intact, a ledger
  number is never given twice (no job fails on a unique key), and no job waits for ever: as long as one
  has not ended, one can go on.\<close>

theorem concurrent_payments_run_one_by_one:
  assumes "job_steps command (jobs_start d) es s"
  shows "one_by_one command es d = Some (jb_db s)
    \<and> (db_ok d \<and> all_intact d \<and> list_all (\<lambda>e. case e of Other d' \<Rightarrow> all_intact d' | _ \<Rightarrow> True) es
        \<longrightarrow> all_intact (jb_db s) \<and> list_all (\<lambda>e. \<forall>w c. e \<noteq> Done w (Inl (IntegrityError c))) es)
    \<and> ((\<exists>w. \<forall>r. jb_phase s w \<noteq> Ended r) \<longrightarrow> (\<exists>l s' v. job_step command s l s' \<and> jb_phase s' v \<noteq> jb_phase s v))"
proof -
  note serial = job_steps_serial [OF assms start_locks_ok]
  have "jb_db (jobs_start d) = d" by (simp add: jobs_start_def)
  then show ?thesis
    using serial concurrent_intact [OF assms start_locks_ok] no_deadlock [of command s] by auto
qed

text \<open>Three jobs: two on one account, which lacks the funds for both, and one on an unknown account.\<close>

definition sample_commands :: "nat \<Rightarrow> timestamp \<times> create_payment" where
  "sample_commands w = (4, if w = 0 then sample_payment 23 (-1500) else if w = 1 then sample_payment 24 (-1000)
     else (sample_payment 25 100)\<lparr>p_account_id := 99\<rparr>)"

lemma sample_turns:
  "fst (job_turns sample_commands [1, 0, 1, 0, 2, 1, 1, 0, 1, 0, 0, 0, 0] ([], jobs_start sample_db)) =
     [Done 2 (Inl (RetryRequested None (AccountNotFound 99))), Done 1 (Inr ()),
      Done 0 (Inl (TerminalJobError (InsufficientFunds 10 23 500)))]"
  by (simp add: job_turn_def jobs_start_def sample_commands_def owner_after_def account_lock_by_id_def has_ledger_operation_def
      find_last_ledger_entry_def order_by_desc_def insert_ledger_def account_exists_def numeric_ok_def bigint_ok_def
      sample_defs sample_rows_def Let_def)

theorem concurrent_payments_run_one_by_one_witness:
  "\<exists>d'. one_by_one sample_commands [Done 2 (Inl (RetryRequested None (AccountNotFound 99))), Done 1 (Inr ()),
      Done 0 (Inl (TerminalJobError (InsufficientFunds 10 23 500)))] sample_db = Some d' \<and> all_intact d'"
proof -
  let ?ws = "[1, 0, 1, 0, 2, 1, 1, 0, 1, 0, 0, 0, 0]"
  obtain s where "job_turns sample_commands ?ws ([], jobs_start sample_db) = ([Done 2 (Inl (RetryRequested None (AccountNotFound 99))), Done 1 (Inr ()),
      Done 0 (Inl (TerminalJobError (InsufficientFunds 10 23 500)))], s)"
    using sample_turns prod.collapse by metis
  from concurrent_payments_run_one_by_one [OF turns_steps [OF job_steps.none this]]
  show ?thesis by (simp add: sample_db_ok sample_all_intact)
qed

end
