(* ===== verification/Repositories.thy ===== *)
theory Repositories
  imports Resolution
begin

text \<open>
  The interfaces the application is written against: \<open>domain/repository.py\<close> and \<open>app/repository.py\<close> as records
  of operations on a state \<open>'s\<close>, their implementations of \<open>infra/repository\<close>, and the code that uses them over
  any implementation. What the scheduled run relies on is the locale \<open>verification_contract\<close>.
\<close>

section \<open>Accounts\<close>

record 's account_repository =
  ar_find_by_id :: "uuid \<Rightarrow> 's \<Rightarrow> exc + customer_account option"
  ar_lock_by_id :: "uuid \<Rightarrow> 's \<Rightarrow> exc + customer_account option"
  ar_find_last_ledger_entry :: "uuid \<Rightarrow> 's \<Rightarrow> exc + customer_account_ledger option"
  ar_has_ledger_operation :: "uuid \<Rightarrow> uuid \<Rightarrow> 's \<Rightarrow> exc + bool"

definition account_repository_impl :: "db account_repository" where
  "account_repository_impl =
     \<lparr>ar_find_by_id = (\<lambda>i d. account_find_by_id d i), ar_lock_by_id = (\<lambda>i d. account_lock_by_id d i),
      ar_find_last_ledger_entry = (\<lambda>i d. find_last_ledger_entry d i),
      ar_has_ledger_operation = (\<lambda>i operation_id d. Inr (has_ledger_operation d i operation_id))\<rparr>"

text \<open>The payment job over an account repository; \<open>add\<close> is the flush of the new ledger row.\<close>

definition payment_job :: "'s account_repository \<Rightarrow> (customer_account_ledger \<Rightarrow> 's \<Rightarrow> exc + 's)
    \<Rightarrow> timestamp \<Rightarrow> create_payment \<Rightarrow> 's \<Rightarrow> exc + 's" where
  "payment_job repo add now event s =
     (case ar_lock_by_id repo (p_account_id event) s of
        Inl e \<Rightarrow> Inl e
      | Inr None \<Rightarrow> Inl (RetryRequested None (AccountNotFound (p_account_id event)))
      | Inr (Some account) \<Rightarrow>
          if a_status account \<noteq> Acc_ACTIVE
          then Inl (TerminalJobError (AccountNotActive (p_account_id event)))
          else (case ar_has_ledger_operation repo (p_account_id event) (p_id event) s of
            Inl e \<Rightarrow> Inl e
          | Inr applied \<Rightarrow> if applied then Inr s
          else (case ar_find_last_ledger_entry repo (p_account_id event) s of
            Inl e \<Rightarrow> Inl e
          | Inr None \<Rightarrow> Inl (TerminalJobError (LedgerNotFound (p_account_id event)))
          | Inr (Some previous) \<Rightarrow>
              let balance_after = l_balance previous + p_signed_amount event
              in if balance_after < 0
                 then Inl (TerminalJobError (InsufficientFunds (p_account_id event) (p_id event) \<bar>balance_after\<bar>))
                 else add (ledger_follow now previous (p_signed_amount event) (p_type event) (p_id event) None) s)))"

lemma payment_job_impl: "payment_job account_repository_impl insert_ledger now event d = apply_payment now event d"
  by (auto simp: payment_job_def account_repository_impl_def apply_payment_def split: sum.split option.split)

section \<open>Verification\<close>

record verified_dto =
  vd_account_id :: uuid
  vd_through_no :: int
  vd_balance :: money
  vd_verified_at :: timestamp

record discrepancy_dto =
  dt_discrepancy_id :: int
  dt_account_id :: uuid
  dt_no :: int
  dt_kind :: string
  dt_prev_no :: int
  dt_expected_balance :: "money option"
  dt_actual_balance :: money
  dt_detected_at :: timestamp
  dt_resolved_at :: "timestamp option"
  dt_resolved_by :: "uuid option"

record 's verification_repository =
  vr_next_batch :: "int \<Rightarrow> int \<Rightarrow> int \<Rightarrow> 's \<Rightarrow> exc + verification list"
  vr_add_checkpoint :: "uuid \<Rightarrow> int \<Rightarrow> money \<Rightarrow> 's \<Rightarrow> exc + 's"
  vr_record_verified :: "verification \<Rightarrow> 's \<Rightarrow> exc + 's"
  vr_record_discrepancy :: "verification \<Rightarrow> 's \<Rightarrow> exc + 's"
  vr_resolve_discrepancy :: "int \<Rightarrow> uuid \<Rightarrow> uuid \<Rightarrow> 's \<Rightarrow> exc + 's"
  vr_find_open_discrepancy :: "uuid \<Rightarrow> 's \<Rightarrow> exc + discrepancy_dto option"
  vr_find_latest_checkpoint :: "uuid \<Rightarrow> 's \<Rightarrow> exc + verified_dto option"
  vr_find_ledger_balance :: "uuid \<Rightarrow> int \<Rightarrow> 's \<Rightarrow> exc + money option"

definition verified_dto_of :: "customer_account_ledger_verified \<Rightarrow> verified_dto" where
  "verified_dto_of checkpoint = \<lparr>vd_account_id = v_account_id checkpoint, vd_through_no = v_through_no checkpoint,
     vd_balance = v_balance checkpoint, vd_verified_at = v_verified_at checkpoint\<rparr>"

definition discrepancy_dto_of :: "customer_account_ledger_discrepancy \<Rightarrow> discrepancy_dto" where
  "discrepancy_dto_of x = \<lparr>dt_discrepancy_id = d_id x, dt_account_id = d_account_id x, dt_no = d_no x,
     dt_kind = discrepancy_kind_value (d_kind x), dt_prev_no = d_prev_no x, dt_expected_balance = d_expected_balance x,
     dt_actual_balance = d_actual_balance x, dt_detected_at = d_detected_at x, dt_resolved_at = d_resolved_at x,
     dt_resolved_by = d_resolved_by x\<rparr>"

definition verification_repository_impl :: "query_plan \<Rightarrow> timestamp \<Rightarrow> timestamp \<Rightarrow> db verification_repository" where
  "verification_repository_impl pl db_now now =
     \<lparr>vr_next_batch = (\<lambda>accounts rows age d.
        next_batch pl \<lparr>accounts_per_run = accounts, rows_per_account = rows, max_checkpoint_age = age\<rparr> db_now d),
      vr_add_checkpoint = add_checkpoint now, vr_record_verified = record_verified now,
      vr_record_discrepancy = record_discrepancy now, vr_resolve_discrepancy = resolve_discrepancy now,
      vr_find_open_discrepancy = (\<lambda>i d. map_sum id (map_option discrepancy_dto_of) (find_open_discrepancy d i)),
      vr_find_latest_checkpoint = (\<lambda>i d. map_sum id (map_option verified_dto_of) (find_latest_checkpoint d i)),
      vr_find_ledger_balance = (\<lambda>i no d. find_ledger_balance d i no)\<rparr>"

lemma verification_impl_sel [simp]:
  "vr_next_batch (verification_repository_impl pl db_now now) n m k d =
     next_batch pl \<lparr>accounts_per_run = n, rows_per_account = m, max_checkpoint_age = k\<rparr> db_now d"
  "vr_record_verified (verification_repository_impl pl db_now now) = record_verified now"
  "vr_record_discrepancy (verification_repository_impl pl db_now now) = record_discrepancy now"
  "vr_find_open_discrepancy (verification_repository_impl pl db_now now) i d =
     map_sum id (map_option discrepancy_dto_of) (find_open_discrepancy d i)"
  "vr_find_latest_checkpoint (verification_repository_impl pl db_now now) i d =
     map_sum id (map_option verified_dto_of) (find_latest_checkpoint d i)"
  by (simp_all add: verification_repository_impl_def)

text \<open>The scheduled run over a verification repository.\<close>

fun verify_batch :: "'s verification_repository \<Rightarrow> verification list \<Rightarrow> 's \<times> int \<times> int \<Rightarrow> exc + 's \<times> int \<times> int" where
  "verify_batch repo [] s = Inr s"
| "verify_batch repo (v # vs) (s, checkpoints, discs) =
     (case (if vf_break_kind v \<noteq> None
            then map_sum id (\<lambda>s'. (s', discs + 1)) (vr_record_discrepancy repo v s)
            else Inr (s, discs)) of
        Inl e \<Rightarrow> Inl e
      | Inr (s1, discs1) \<Rightarrow>
          (case (if should_checkpoint v
                 then map_sum id (\<lambda>s'. (s', checkpoints + 1)) (vr_record_verified repo v s1)
                 else Inr (s1, checkpoints)) of
             Inl e \<Rightarrow> Inl e
           | Inr (s2, checkpoints2) \<Rightarrow> verify_batch repo vs (s2, checkpoints2, discs1)))"

definition verify_ledgers :: "'s verification_repository \<Rightarrow> verify_params \<Rightarrow> bool \<Rightarrow> 's \<Rightarrow> exc + 's \<times> run_log option" where
  "verify_ledgers repo ps lock s =
     (if \<not> lock then Inr (s, None)
      else case vr_next_batch repo (accounts_per_run ps) (rows_per_account ps) (max_checkpoint_age ps) s of
        Inl e \<Rightarrow> Inl e
      | Inr batch \<Rightarrow> (case verify_batch repo batch (s, 0, 0) of
          Inl e \<Rightarrow> Inl e
        | Inr (s', checkpoints, discs) \<Rightarrow>
            Inr (s', Some \<lparr>log_accounts = length batch, log_checkpoints = checkpoints, log_discrepancies = discs\<rparr>)))"

lemma verify_batch_impl: "verify_batch (verification_repository_impl pl db_now now) vs x = verify_loop now vs x"
proof (induction vs arbitrary: x)
  case (Cons v vs)
  then show ?case by (cases x) (simp split: sum.splits)
qed simp

lemma verify_ledgers_impl: "verify_ledgers (verification_repository_impl pl db_now now) ps lock d = verify_run pl ps db_now now lock d"
proof -
  have "\<lparr>accounts_per_run = accounts_per_run ps, rows_per_account = rows_per_account ps, max_checkpoint_age = max_checkpoint_age ps\<rparr> = ps"
    by simp
  then show ?thesis unfolding verify_ledgers_def verify_run_def verification_impl_sel verify_batch_impl
    by (simp only:)
qed

text \<open>The report of a discrepancy reads the kind back from its text.\<close>

definition discrepancy_report :: "'s verification_repository \<Rightarrow> uuid \<Rightarrow> 's \<Rightarrow> exc + discrepancy_display" where
  "discrepancy_report repo account_id s =
     (case vr_find_open_discrepancy repo account_id s of
        Inl e \<Rightarrow> Inl e
      | Inr None \<Rightarrow> Inl no_open_discrepancy
      | Inr (Some x) \<Rightarrow> (case vr_find_latest_checkpoint repo account_id s of
          Inl e \<Rightarrow> Inl e
        | Inr checkpoint \<Rightarrow> (case discrepancy_kind_of (dt_kind x) of
            Inl e \<Rightarrow> Inl e
          | Inr kind \<Rightarrow> Inr
             \<lparr>dd_id = dt_account_id x, dd_no = dt_no x, dd_kind = kind, dd_prev_no = dt_prev_no x,
              dd_expected_balance = dt_expected_balance x, dd_actual_balance = dt_actual_balance x,
              dd_detected_at = dt_detected_at x,
              dd_verified_through_no = (case checkpoint of None \<Rightarrow> 0 | Some c \<Rightarrow> vd_through_no c)\<rparr>)))"

lemma discrepancy_report_impl:
  "discrepancy_report (verification_repository_impl pl db_now now) i d = get_ledger_discrepancy i d"
  by (auto simp: discrepancy_report_def get_ledger_discrepancy_def discrepancy_dto_of_def verified_dto_of_def
      split: sum.splits option.splits)

section \<open>What the run relies on\<close>

definition reported :: "'s verification_repository \<Rightarrow> uuid \<Rightarrow> 's \<Rightarrow> bool" where
  "reported repo i s \<longleftrightarrow> (\<exists>x. vr_find_open_discrepancy repo i s = Inr (Some x))"

definition verified_to :: "'s verification_repository \<Rightarrow> uuid \<Rightarrow> int \<Rightarrow> 's \<Rightarrow> bool" where
  "verified_to repo i n s \<longleftrightarrow> (\<exists>c. vr_find_latest_checkpoint repo i s = Inr (Some c) \<and> n \<le> vd_through_no c)"

text \<open>What is recorded can be found, and no recording takes away what another has left.\<close>

locale verification_contract =
  fixes repo :: "'s verification_repository" and inv :: "'s \<Rightarrow> bool"
  assumes verified_found: "inv s \<Longrightarrow> vr_record_verified repo v s = Inr s'
      \<Longrightarrow> inv s' \<and> verified_to repo (vf_account_id v) (last_good_no v) s'"
    and discrepancy_found: "inv s \<Longrightarrow> vr_record_discrepancy repo v s = Inr s'
      \<Longrightarrow> inv s' \<and> reported repo (vf_account_id v) s'"
    and verified_keeps: "inv s \<Longrightarrow> vr_record_verified repo v s = Inr s'
      \<Longrightarrow> (reported repo i s \<longrightarrow> reported repo i s') \<and> (verified_to repo i n s \<longrightarrow> verified_to repo i n s')"
    and discrepancy_keeps: "inv s \<Longrightarrow> vr_record_discrepancy repo v s = Inr s'
      \<Longrightarrow> (reported repo i s \<longrightarrow> reported repo i s') \<and> (verified_to repo i n s \<longrightarrow> verified_to repo i n s')"
begin

definition served :: "verification \<Rightarrow> 's \<Rightarrow> bool" where
  "served v s \<longleftrightarrow> (vf_break_kind v \<noteq> None \<longrightarrow> reported repo (vf_account_id v) s)
     \<and> (should_checkpoint v \<longrightarrow> verified_to repo (vf_account_id v) (last_good_no v) s)"

lemma verify_one:
  fixes n c :: int
  assumes "inv s" "(if vf_break_kind v \<noteq> None then map_sum id (\<lambda>s'. (s', n + 1)) (vr_record_discrepancy repo v s)
      else Inr (s, n)) = Inr (s1, n1)"
    and "(if should_checkpoint v then map_sum id (\<lambda>s'. (s', c + 1)) (vr_record_verified repo v s1)
      else Inr (s1, c)) = Inr (s2, c2)"
  shows "inv s2 \<and> served v s2 \<and> (\<forall>w. served w s \<longrightarrow> served w s2)
    \<and> n1 = n + (if vf_break_kind v \<noteq> None then 1 else 0) \<and> c2 = c + (if should_checkpoint v then 1 else 0)"
proof -
  have 1: "inv s1 \<and> (vf_break_kind v \<noteq> None \<longrightarrow> reported repo (vf_account_id v) s1) \<and> (\<forall>w. served w s \<longrightarrow> served w s1)
      \<and> n1 = n + (if vf_break_kind v \<noteq> None then 1 else 0)"
  proof (cases "vf_break_kind v \<noteq> None")
    case True
    then have r: "vr_record_discrepancy repo v s = Inr s1" "n1 = n + 1"
      using assms(2) by (cases "vr_record_discrepancy repo v s"; simp)+
    then show ?thesis using discrepancy_found [OF assms(1) r(1)] discrepancy_keeps [OF assms(1) r(1)] True by (simp add: served_def)
  qed (use assms(1,2) in simp)
  show ?thesis
  proof (cases "should_checkpoint v")
    case True
    then have r: "vr_record_verified repo v s1 = Inr s2" "c2 = c + 1"
      using assms(3) by (cases "vr_record_verified repo v s1"; simp)+
    then show ?thesis
      using verified_found [OF conjunct1 [OF 1] r(1)] verified_keeps [OF conjunct1 [OF 1] r(1)] 1 True by (simp add: served_def)
  qed (use 1 assms(3) in \<open>auto simp: served_def\<close>)
qed

lemma verify_batch_serves:
  assumes "verify_batch repo vs (s, c, n) = Inr (s', c', n')" "inv s"
  shows "inv s' \<and> (\<forall>v \<in> set vs. served v s') \<and> (\<forall>w. served w s \<longrightarrow> served w s')
    \<and> n' = n + int (length (filter (\<lambda>v. vf_break_kind v \<noteq> None) vs)) \<and> c' = c + int (length (filter should_checkpoint vs))"
  using assms
proof (induction vs arbitrary: s c n)
  case (Cons v vs)
  from Cons.prems(1) obtain s1 n1 s2 c2 where
    1: "(if vf_break_kind v \<noteq> None then map_sum id (\<lambda>s'. (s', n + 1)) (vr_record_discrepancy repo v s) else Inr (s, n)) = Inr (s1, n1)"
    and 2: "(if should_checkpoint v then map_sum id (\<lambda>s'. (s', c + 1)) (vr_record_verified repo v s1) else Inr (s1, c)) = Inr (s2, c2)"
    and rest: "verify_batch repo vs (s2, c2, n1) = Inr (s', c', n')"
    by (auto split: sum.splits prod.splits simp del: not_None_eq)
  have one: "inv s2 \<and> served v s2 \<and> (\<forall>w. served w s \<longrightarrow> served w s2)
      \<and> n1 = n + (if vf_break_kind v \<noteq> None then 1 else 0) \<and> c2 = c + (if should_checkpoint v then 1 else 0)"
    by (rule verify_one [OF Cons.prems(2) 1 2])
  show ?case using Cons.IH [OF rest conjunct1 [OF one]] one by auto
qed simp

text \<open>A run that ends has served every account of its batch, and logs how many.\<close>

lemma verify_ledgers_serves:
  assumes "verify_ledgers repo ps True s = Inr (s', Some lg)" "inv s"
  obtains batch where "vr_next_batch repo (accounts_per_run ps) (rows_per_account ps) (max_checkpoint_age ps) s = Inr batch"
    "inv s'" "\<And>v. v \<in> set batch \<Longrightarrow> served v s'" "log_accounts lg = length batch"
    "log_discrepancies lg = int (length (filter (\<lambda>v. vf_break_kind v \<noteq> None) batch))"
    "log_checkpoints lg = int (length (filter should_checkpoint batch))"
proof -
  obtain batch c n where b: "vr_next_batch repo (accounts_per_run ps) (rows_per_account ps) (max_checkpoint_age ps) s = Inr batch"
    and l: "verify_batch repo batch (s, 0, 0) = Inr (s', c, n)"
    and lg: "lg = \<lparr>log_accounts = length batch, log_checkpoints = c, log_discrepancies = n\<rparr>"
    using assms(1) by (auto simp: verify_ledgers_def split: sum.splits prod.splits)
  from verify_batch_serves [OF l assms(2)] show thesis by (intro that [OF b]) (auto simp: lg)
qed

end

section \<open>The implementation keeps the contract\<close>

lemma insert_verified_cases:
  assumes "insert_verified v d = Inr d'"
  shows "v_account_id v \<in> v_account_id ` {w \<in> set (verified d'). v_through_no w = v_through_no v}
    \<and> set (verified d) \<subseteq> set (verified d') \<and> discrepancies d' = discrepancies d"
  using assms by (auto simp: insert_verified_def list_ex_iff image_iff split: if_splits)

lemma insert_discrepancy_cases:
  assumes "insert_discrepancy x d = Inr d'" "is_open x"
  shows "has_open_discrepancy d' (d_account_id x) \<and> (has_open_discrepancy d i \<longrightarrow> has_open_discrepancy d' i)
    \<and> verified d' = verified d"
  using assms by (auto simp: insert_discrepancy_def has_open_discrepancy_def list_ex_iff is_open_def split: if_splits)

lemma impl_reported: "db_ok d \<Longrightarrow> reported (verification_repository_impl pl t n) i d \<longleftrightarrow> has_open_discrepancy d i"
  using find_open_None_iff [of d i] find_open_eq [of d i] by (auto simp: reported_def)

lemma impl_verified_to:
  "verified_to (verification_repository_impl pl t now) i n d \<longleftrightarrow> (\<exists>w \<in> set (verified d). v_account_id w = i \<and> n \<le> v_through_no w)"
proof (cases "latest_checkpoint d i")
  case None
  moreover from None have "\<forall>w \<in> set (verified d). v_account_id w \<noteq> i" by (simp add: latest_checkpoint_None_iff)
  ultimately show ?thesis by (auto simp: verified_to_def find_latest_eq)
next
  case (Some v)
  then have "verified_to (verification_repository_impl pl t now) i n d \<longleftrightarrow> n \<le> v_through_no v"
    by (simp add: verified_to_def find_latest_eq verified_dto_of_def)
  moreover have "n \<le> v_through_no v \<longleftrightarrow> (\<exists>w \<in> set (verified d). v_account_id w = i \<and> n \<le> v_through_no w)"
    using latest_checkpoint_SomeD(1,2) [OF Some] latest_checkpoint_SomeD(3) [OF Some] order_trans by blast
  ultimately show ?thesis by simp
qed

interpretation verification_impl: verification_contract "verification_repository_impl pl db_now now" db_ok
proof (unfold_locales, unfold verification_impl_sel)
  fix d d' :: db and v i n
  assume ok: "db_ok d"
  { assume r: "record_verified now v d = Inr d'"
    have ok': "db_ok d'" using r ok by (rule record_steps_ok)
    note c = insert_verified_cases [OF r [unfolded record_verified_def add_checkpoint_def]]
    show "db_ok d' \<and> verified_to (verification_repository_impl pl db_now now) (vf_account_id v) (last_good_no v) d'"
      using ok' c by (force simp: impl_verified_to)
    show "(reported (verification_repository_impl pl db_now now) i d \<longrightarrow> reported (verification_repository_impl pl db_now now) i d')
        \<and> (verified_to (verification_repository_impl pl db_now now) i n d \<longrightarrow> verified_to (verification_repository_impl pl db_now now) i n d')"
      using c by (auto simp: impl_verified_to impl_reported ok ok' has_open_discrepancy_def)
  next
    assume r: "record_discrepancy now v d = Inr d'"
    have ok': "db_ok d'" using r ok by (rule record_steps_ok)
    obtain x where x: "insert_discrepancy x d = Inr d'" "is_open x" "d_account_id x = vf_account_id v"
      using r by (auto simp: record_discrepancy_def is_open_def split: option.splits sum.splits)
    note c = insert_discrepancy_cases [OF x(1,2)]
    show "db_ok d' \<and> reported (verification_repository_impl pl db_now now) (vf_account_id v) d'"
      using ok' c x(3) by (simp add: impl_reported)
    show "(reported (verification_repository_impl pl db_now now) i d \<longrightarrow> reported (verification_repository_impl pl db_now now) i d')
        \<and> (verified_to (verification_repository_impl pl db_now now) i n d \<longrightarrow> verified_to (verification_repository_impl pl db_now now) i n d')"
      using c [of i] by (auto simp: impl_verified_to impl_reported ok ok')
  }
qed

text \<open>So a run of the service that ends has left, for every account it looked at, a report if it found a
  break and a checkpoint at least as far as it got, and its log counts them.\<close>

lemma verify_run_serves_its_batch:
  assumes "db_ok d" "verify_run pl ps db_now now True d = Inr (d', Some lg)" "v \<in> set (query_rows ps db_now d)"
  shows "(vf_break_kind v \<noteq> None \<longrightarrow> has_open_discrepancy d' (vf_account_id v))
    \<and> (should_checkpoint v \<longrightarrow> (\<exists>w \<in> set (verified d'). v_account_id w = vf_account_id v \<and> last_good_no v \<le> v_through_no w))
    \<and> log_discrepancies lg = int (length (filter (\<lambda>v. vf_break_kind v \<noteq> None) (query_rows ps db_now d)))
    \<and> log_checkpoints lg = int (length (filter should_checkpoint (query_rows ps db_now d)))"
proof -
  have r: "verify_ledgers (verification_repository_impl pl db_now now) ps True d = Inr (d', Some lg)"
    using assms(2) by (simp add: verify_ledgers_impl)
  have ps: "\<lparr>accounts_per_run = accounts_per_run ps, rows_per_account = rows_per_account ps, max_checkpoint_age = max_checkpoint_age ps\<rparr> = ps"
    by simp
  from r assms(1) show ?thesis
  proof (rule verification_impl.verify_ledgers_serves)
    fix batch assume b: "vr_next_batch (verification_repository_impl pl db_now now) (accounts_per_run ps) (rows_per_account ps)
        (max_checkpoint_age ps) d = Inr batch"
      and ok: "db_ok d'" and s: "\<And>v. v \<in> set batch \<Longrightarrow> verification_impl.served pl db_now now v d'"
      and l: "log_accounts lg = length batch"
        "log_discrepancies lg = int (length (filter (\<lambda>v. vf_break_kind v \<noteq> None) batch))"
        "log_checkpoints lg = int (length (filter should_checkpoint batch))"
    from b have "batch = query_rows ps db_now d"
      unfolding verification_impl_sel ps by (simp add: next_batch_def split: if_splits)
    then show ?thesis
      using s [of v] assms(3) l ok
      by (simp add: verification_impl.served_def impl_reported impl_verified_to)
  qed
qed

end
