(* ===== verification/Observability.thy ===== *)
theory Observability
  imports Auth
begin

text \<open>
  \<open>infra/observability.py\<close>: the processors every log line passes and the configuration of Python's
  \<open>logging\<close>. A line is a dictionary of texts until it is rendered. structlog's processors are parameters;
  of \<open>logging\<close> the model has what the configuration decides: levels, handlers, propagation.
\<close>

section \<open>Processors\<close>

type_synonym event_dict = "string \<rightharpoonup> string"
type_synonym processor = "event_dict \<Rightarrow> event_dict"

text \<open>What the module takes from structlog; \<open>merge_contextvars\<close> reads the context variables.\<close>

record structlog =
  sl_merge_contextvars :: "(string \<rightharpoonup> string) \<Rightarrow> processor"
  sl_add_logger_name :: processor
  sl_add_log_level :: processor
  sl_stack_info :: processor
  sl_set_exc_info :: processor
  sl_time_stamper :: processor
  sl_unicode_decoder :: processor
  sl_callsite :: processor
  sl_remove_processors_meta :: processor
  sl_format_exc_info :: processor
  sl_console_renderer :: "event_dict \<Rightarrow> string"
  sl_json_renderer :: "event_dict \<Rightarrow> string"

definition add_service :: "string \<Rightarrow> processor" where
  "add_service service_name event = event(''service'' \<mapsto> service_name)"

definition build_shared_processors :: "structlog \<Rightarrow> (string \<rightharpoonup> string) \<Rightarrow> string \<Rightarrow> processor list" where
  "build_shared_processors lib contextvars service_name =
     [sl_merge_contextvars lib contextvars, sl_add_logger_name lib, sl_add_log_level lib, sl_stack_info lib,
      sl_set_exc_info lib, sl_time_stamper lib, sl_unicode_decoder lib, sl_callsite lib, add_service service_name]"

text \<open>\<open>renderer\<close> and \<open>exc_processors\<close>, chosen when the module is loaded.\<close>

definition renderer :: "structlog \<Rightarrow> settings \<Rightarrow> event_dict \<Rightarrow> string" where
  "renderer lib s = (if s_app_env s = Env_LOCAL then sl_console_renderer lib else sl_json_renderer lib)"

definition exc_processors :: "structlog \<Rightarrow> settings \<Rightarrow> processor list" where
  "exc_processors lib s = (if s_app_env s = Env_LOCAL then [] else [sl_format_exc_info lib])"

definition run_processors :: "processor list \<Rightarrow> processor" where
  "run_processors ps event = fold (\<lambda>p e. p e) ps event"

section \<open>The configuration of logging\<close>

text \<open>\<open>logging\<close>'s level names; any other name is refused.\<close>

definition check_level :: "string \<Rightarrow> exc + nat" where
  "check_level name =
     (case map_of [(''CRITICAL'', 50), (''FATAL'', 50), (''ERROR'', 40), (''WARN'', 30), (''WARNING'', 30), (''INFO'', 20),
        (''DEBUG'', 10), (''NOTSET'', 0)] name of None \<Rightarrow> Inl ValueError | Some level \<Rightarrow> Inr level)"

text \<open>A logger that sets no level has level 0 and takes its parent's.\<close>

record logger_config =
  lg_handlers :: "string list"
  lg_propagate :: bool
  lg_level :: nat

record logging_config =
  lc_formatter :: "processor list"
  lc_renderer :: "event_dict \<Rightarrow> string"
  lc_processors :: "(string \<rightharpoonup> string) \<Rightarrow> processor list"
  lc_foreign_pre_chain :: "(string \<rightharpoonup> string) \<Rightarrow> processor list"
  lc_handler_levels :: "string \<rightharpoonup> nat"
  lc_root :: logger_config
  lc_loggers :: "(string \<times> logger_config) list"
  lc_cache_logger :: bool

definition setup_logging :: "structlog \<Rightarrow> settings \<Rightarrow> string \<Rightarrow> exc + logging_config" where
  "setup_logging lib s service_name =
     (case check_level (s_log_level s) of
        Inl e \<Rightarrow> Inl e
      | Inr level \<Rightarrow>
          let shared = (\<lambda>contextvars. build_shared_processors lib contextvars service_name);
              passes = \<lparr>lg_handlers = [], lg_propagate = True, lg_level = 0\<rparr>
          in Inr \<lparr>lc_formatter = sl_remove_processors_meta lib # exc_processors lib s, lc_renderer = renderer lib s,
               lc_processors = shared, lc_foreign_pre_chain = shared,
               lc_handler_levels = [''stdout'' \<mapsto> level],
               lc_root = \<lparr>lg_handlers = [''stdout''], lg_propagate = True, lg_level = level\<rparr>,
               lc_loggers = [(''uvicorn'', passes), (''uvicorn.error'', passes), (''uvicorn.access'', passes), (''faststream'', passes)],
               lc_cache_logger = s_app_env s \<noteq> Env_TEST\<rparr>)"

text \<open>The logger of a name and its parents up to the root: a name's parents are its dotted prefixes.\<close>

definition logger_chain :: "logging_config \<Rightarrow> string \<Rightarrow> logger_config list" where
  "logger_chain cfg name =
     map snd (rev (sort_key (\<lambda>(n, _). length n)
       (filter (\<lambda>(n, _). n = name \<or> take (length n + 1) name = n @ ''.'') (lc_loggers cfg)))) @ [lc_root cfg]"

fun effective_level :: "logger_config list \<Rightarrow> nat" where
  "effective_level [] = 0"
| "effective_level (l # ls) = (if lg_level l \<noteq> 0 then lg_level l else effective_level ls)"

fun call_handlers :: "(string \<rightharpoonup> nat) \<Rightarrow> nat \<Rightarrow> logger_config list \<Rightarrow> string list" where
  "call_handlers levels level [] = []"
| "call_handlers levels level (l # ls) =
     filter (\<lambda>h. case levels h of None \<Rightarrow> True | Some n \<Rightarrow> n \<le> level) (lg_handlers l)
     @ (if lg_propagate l then call_handlers levels level ls else [])"

text \<open>The handlers a record of a logger reaches.\<close>

definition handled_by :: "logging_config \<Rightarrow> string \<Rightarrow> nat \<Rightarrow> string list" where
  "handled_by cfg name level =
     (let chain = logger_chain cfg name
      in if level < effective_level chain then [] else call_handlers (lc_handler_levels cfg) level chain)"

text \<open>The line of a structlog event, and of a record of another library.\<close>

definition own_line :: "logging_config \<Rightarrow> (string \<rightharpoonup> string) \<Rightarrow> event_dict \<Rightarrow> string" where
  "own_line cfg contextvars event =
     lc_renderer cfg (run_processors (lc_formatter cfg) (run_processors (lc_processors cfg contextvars) event))"

definition foreign_line :: "logging_config \<Rightarrow> (string \<rightharpoonup> string) \<Rightarrow> event_dict \<Rightarrow> string" where
  "foreign_line cfg contextvars event =
     lc_renderer cfg (run_processors (lc_formatter cfg) (run_processors (lc_foreign_pre_chain cfg contextvars) event))"

section \<open>What the lines carry\<close>

lemma run_processors_append: "run_processors (ps @ qs) e = run_processors qs (run_processors ps e)"
  by (simp add: run_processors_def)

lemma run_processors_keeps:
  "list_all (\<lambda>p. \<forall>e. p e k = e k) ps \<Longrightarrow> run_processors ps e k = e k"
  by (induction ps arbitrary: e) (simp_all add: run_processors_def)

text \<open>Whatever the libraries do, a line names the service of its process.\<close>

lemma lines_name_the_service:
  "run_processors (build_shared_processors lib contextvars service_name) event ''service'' = Some service_name"
  by (simp add: build_shared_processors_def run_processors_def add_service_def)

text \<open>The request id of the context reaches the line, if the library's processors leave the key alone.\<close>

lemma lines_carry_the_request_id:
  assumes "\<And>e. e ''request_id'' = None \<Longrightarrow> sl_merge_contextvars lib contextvars e ''request_id'' = contextvars ''request_id''"
    and "list_all (\<lambda>p. \<forall>e. p e ''request_id'' = e ''request_id'')
      [sl_add_logger_name lib, sl_add_log_level lib, sl_stack_info lib, sl_set_exc_info lib, sl_time_stamper lib,
       sl_unicode_decoder lib, sl_callsite lib]"
    and "event ''request_id'' = None"
  shows "run_processors (build_shared_processors lib contextvars service_name) event ''request_id'' = contextvars ''request_id''"
  using assms by (simp add: build_shared_processors_def run_processors_def add_service_def)

section \<open>Every record is written once\<close>

lemma passing_loggers:
  assumes "setup_logging lib s name = Inr cfg" "l \<in> set (map snd (lc_loggers cfg))"
  shows "l = \<lparr>lg_handlers = [], lg_propagate = True, lg_level = 0\<rparr>"
  using assms by (auto simp: setup_logging_def Let_def split: sum.splits)

lemma chain_of_passing:
  assumes "setup_logging lib s name = Inr cfg"
  shows "\<exists>ls. logger_chain cfg logger = ls @ [lc_root cfg]
    \<and> list_all (\<lambda>l. l = \<lparr>lg_handlers = [], lg_propagate = True, lg_level = 0\<rparr>) ls"
proof -
  let ?ls = "map snd (rev (sort_key (\<lambda>(n, _). length n)
    (filter (\<lambda>(n, _). n = logger \<or> take (length n + 1) logger = n @ ''.'') (lc_loggers cfg))))"
  have "set ?ls \<subseteq> set (map snd (lc_loggers cfg))" by auto
  then have "list_all (\<lambda>l. l = \<lparr>lg_handlers = [], lg_propagate = True, lg_level = 0\<rparr>) ?ls"
    using passing_loggers [OF assms] unfolding list_all_iff by blast
  then show ?thesis unfolding logger_chain_def by blast
qed

lemma passing_prefix:
  assumes "list_all (\<lambda>l. l = \<lparr>lg_handlers = [], lg_propagate = True, lg_level = 0\<rparr>) ls"
  shows "effective_level (ls @ ms) = effective_level ms" "call_handlers levels n (ls @ ms) = call_handlers levels n ms"
  using assms by (induction ls) auto

text \<open>A record at or above the configured level is written to the standard output exactly once, whichever
  logger it comes from, and one below is not written; the level must be one \<open>logging\<close> knows, or the
  process does not start.\<close>

lemma records_are_written_once:
  "case setup_logging lib s name of
     Inl e \<Rightarrow> e = ValueError \<and> check_level (s_log_level s) = Inl ValueError
   | Inr cfg \<Rightarrow> \<exists>n. check_level (s_log_level s) = Inr n \<and> handled_by cfg logger level = (if n \<le> level then [''stdout''] else [])"
proof (cases "setup_logging lib s name")
  case (Inl e)
  then show ?thesis by (auto simp: setup_logging_def check_level_def Let_def split: sum.splits option.splits)
next
  case (Inr cfg)
  obtain ls where c: "logger_chain cfg logger = ls @ [lc_root cfg]"
    and p: "list_all (\<lambda>l. l = \<lparr>lg_handlers = [], lg_propagate = True, lg_level = 0\<rparr>) ls"
    using chain_of_passing [OF Inr] by blast
  obtain n where n: "check_level (s_log_level s) = Inr n" "lc_root cfg = \<lparr>lg_handlers = [''stdout''], lg_propagate = True, lg_level = n\<rparr>"
    "lc_handler_levels cfg = [''stdout'' \<mapsto> n]"
    using Inr by (auto simp: setup_logging_def Let_def split: sum.splits)
  then show ?thesis
    by (simp add: Inr handled_by_def c passing_prefix [OF p] Let_def)
qed

text \<open>The service's own lines and those of other libraries are formatted alike; outside the local
  environment they are JSON with the traceback in the line.\<close>

lemma lines_are_formatted_alike:
  assumes "setup_logging lib s name = Inr cfg"
  shows "own_line cfg contextvars event = foreign_line cfg contextvars event
    \<and> (s_app_env s \<noteq> Env_LOCAL \<longrightarrow> own_line cfg contextvars event = sl_json_renderer lib (sl_format_exc_info lib
        (sl_remove_processors_meta lib (run_processors (build_shared_processors lib contextvars name) event))))"
  using assms by (auto simp: setup_logging_def own_line_def foreign_line_def renderer_def exc_processors_def run_processors_def
      Let_def split: sum.splits)

end
