(* ===== verification/Lifecycle.thy ===== *)
theory Lifecycle
  imports Processes
begin

text \<open>
  The life of the processes: what \<open>consumers_main.py\<close>, \<open>subscribers_main.py\<close> and the lifespan of \<open>main.py\<close> start,
  and what they give back when they end, whatever fails on the way.
\<close>

section \<open>Actions\<close>

datatype action =
    Connect_queue
  | Register
  | Broker_start
  | Heartbeat_start
  | Serve
  | Heartbeat_stop
  | Broker_stop
  | Connection_close
  | Engine_dispose
  | Logging_setup
  | Declare_topology

text \<open>\<open>outcome\<close> says which action raises. Statements run until one raises; the trace has the actions tried.\<close>

fun run_actions :: "(action \<Rightarrow> exc option) \<Rightarrow> action list \<Rightarrow> action list \<times> exc option" where
  "run_actions outcome [] = ([], None)"
| "run_actions outcome (a # as) =
     (case outcome a of
        Some e \<Rightarrow> ([a], Some e)
      | None \<Rightarrow> (let (done, e) = run_actions outcome as in (a # done, e)))"

text \<open>\<open>try \<dots> finally\<close>: an exception of the last part replaces the one it found.\<close>

definition try_finally :: "action list \<times> exc option \<Rightarrow> (action list \<Rightarrow> action list \<times> exc option) \<Rightarrow> action list \<times> exc option" where
  "try_finally body final =
     (let (tried, e) = body; (tried', e') = final tried
      in (tried @ tried', case e' of None \<Rightarrow> e | Some _ \<Rightarrow> e'))"

section \<open>The processes\<close>

text \<open>\<open>heartbeat\<close> is set only when the action that starts it returned.\<close>

definition consumers_main :: "(action \<Rightarrow> exc option) \<Rightarrow> action list \<times> exc option" where
  "consumers_main outcome =
     (case run_actions outcome [Connect_queue, Register] of
        (tried, Some e) \<Rightarrow> (tried, Some e)
      | (tried, None) \<Rightarrow>
          (let (rest, e) = try_finally (run_actions outcome [Broker_start, Heartbeat_start, Serve])
                 (\<lambda>started. run_actions outcome
                    ((if Heartbeat_start \<in> set started \<and> outcome Heartbeat_start = None then [Heartbeat_stop] else [])
                     @ [Broker_stop, Connection_close, Engine_dispose]))
           in (tried @ rest, e)))"

definition api_lifespan :: "(action \<Rightarrow> exc option) \<Rightarrow> action list \<times> exc option" where
  "api_lifespan outcome =
     (case run_actions outcome [Logging_setup] of
        (tried, Some e) \<Rightarrow> (tried, Some e)
      | (tried, None) \<Rightarrow>
          (let (rest, e) = try_finally (run_actions outcome [Serve]) (\<lambda>_. run_actions outcome [Engine_dispose])
           in (tried @ rest, e)))"

text \<open>FastStream runs the hook after the broker has started; the heartbeat is the hook's last statement.
  The second hook runs at shutdown.\<close>

definition subscribers_start :: "(action \<Rightarrow> exc option) \<Rightarrow> action list \<times> exc option" where
  "subscribers_start outcome = run_actions outcome [Declare_topology, Heartbeat_start]"

definition before_shutdown_hook :: "bool \<Rightarrow> (action \<Rightarrow> exc option) \<Rightarrow> action list \<times> exc option" where
  "before_shutdown_hook heartbeat outcome =
     run_actions outcome ((if heartbeat then [Heartbeat_stop] else []) @ [Engine_dispose])"

section \<open>Nothing is left open\<close>

definition releases :: "action list" where
  "releases = [Heartbeat_stop, Broker_stop, Connection_close, Engine_dispose]"

lemma run_actions_all: "list_all (\<lambda>a. outcome a = None) as \<Longrightarrow> run_actions outcome as = (as, None)"
  by (induction as) auto

text \<open>When a consumer process that has its connection ends, by whatever failure of the start or of the
  service, it stops the heartbeat if it runs, then the broker the heartbeat asks, then closes the
  connection and the engine, provided these succeed; and it ends with the failure that ended it.\<close>

lemma consumers_release_everything:
  assumes "list_all (\<lambda>a. outcome a = None) releases" "outcome Connect_queue = None" "outcome Register = None"
  shows "\<exists>started e. run_actions outcome [Broker_start, Heartbeat_start, Serve] = (started, e)
    \<and> consumers_main outcome = ([Connect_queue, Register] @ started
        @ (if outcome Broker_start = None \<and> outcome Heartbeat_start = None then [Heartbeat_stop] else [])
        @ [Broker_stop, Connection_close, Engine_dispose], e)"
  using assms by (auto simp: consumers_main_def try_finally_def releases_def split: option.splits)

text \<open>The releases run one after the other: one that raises keeps the later ones from running.\<close>

lemma failing_broker_stop_leaves_connection:
  assumes "outcome Connect_queue = None" "outcome Register = None" "outcome Heartbeat_stop = None" "outcome Broker_stop = Some e"
  shows "Connection_close \<notin> set (fst (consumers_main outcome)) \<and> snd (consumers_main outcome) = Some e"
  using assms by (auto simp: consumers_main_def try_finally_def split: option.splits)

lemma api_disposes_engine:
  assumes "outcome Logging_setup = None"
  shows "last (fst (api_lifespan outcome)) = Engine_dispose"
  using assms by (auto simp: api_lifespan_def try_finally_def split: option.splits)

end
