(* ===== verification/Payload_Preview.thy ===== *)
theory Payload_Preview
  imports Jobs
begin

text \<open>
  What the log shows of a payload that cannot be decoded: \<open>_payload_preview\<close> of
  \<open>app/consumers/entrypoints/main.py\<close>. The payload is any sequence of bytes, cut anywhere; Python's UTF-8
  decoder with \<open>errors="replace"\<close> is written out. Characters are their code points.
\<close>

section \<open>Decoding UTF-8\<close>

text \<open>How many bytes a character has, by its first; 0 for a byte that begins none.\<close>

definition sequence_length :: "nat \<Rightarrow> nat" where
  "sequence_length b = (if b < 0x80 then 1 else if 0xC2 \<le> b \<and> b \<le> 0xDF then 2
     else if 0xE0 \<le> b \<and> b \<le> 0xEF then 3 else if 0xF0 \<le> b \<and> b \<le> 0xF4 then 4 else 0)"

definition continues :: "nat \<Rightarrow> bool" where
  "continues c \<longleftrightarrow> 0x80 \<le> c \<and> c \<le> 0xBF"

text \<open>The second byte: no overlong forms, no surrogates, nothing past the last code point.\<close>

definition second_ok :: "nat \<Rightarrow> nat \<Rightarrow> bool" where
  "second_ok b c \<longleftrightarrow> continues c \<and> (b = 0xE0 \<longrightarrow> 0xA0 \<le> c) \<and> (b = 0xED \<longrightarrow> c \<le> 0x9F)
     \<and> (b = 0xF0 \<longrightarrow> 0x90 \<le> c) \<and> (b = 0xF4 \<longrightarrow> c \<le> 0x8F)"

text \<open>How many of the bytes after the first belong to it.\<close>

definition matched :: "nat \<Rightarrow> nat list \<Rightarrow> nat" where
  "matched b cs = (case take (sequence_length b - 1) cs of
     [] \<Rightarrow> 0 | c # ds \<Rightarrow> if second_ok b c then 1 + length (takeWhile continues ds) else 0)"

definition code_point :: "nat \<Rightarrow> nat list \<Rightarrow> nat" where
  "code_point b cs = foldl (\<lambda>n c. n * 64 + (c - 0x80))
     (if b < 0x80 then b else if b < 0xE0 then b - 0xC0 else if b < 0xF0 then b - 0xE0 else b - 0xF0) cs"

text \<open>A maximal beginning of a character that is broken off counts as one replacement character.\<close>

function decode_replace :: "nat list \<Rightarrow> nat list" where
  "decode_replace [] = []"
| "decode_replace (b # bs) =
     (if sequence_length b = 0 then 0xFFFD # decode_replace bs
      else if matched b bs = sequence_length b - 1
      then code_point b (take (matched b bs) bs) # decode_replace (drop (matched b bs) bs)
      else 0xFFFD # decode_replace (drop (matched b bs) bs))"
  by pat_completeness auto
termination by (relation "measure length") auto

section \<open>The preview\<close>

definition payload_log_limit :: nat where
  "payload_log_limit = 200"

definition payload_preview :: "byte list option \<Rightarrow> nat list option" where
  "payload_preview payload = (case payload of
     None \<Rightarrow> None
   | Some bytes \<Rightarrow> if bytes = [] then None else Some (decode_replace (map unat (take payload_log_limit bytes))))"

lemma length_decode_replace: "length (decode_replace bs) \<le> length bs"
proof (induction bs rule: decode_replace.induct)
  case (2 b bs)
  have "length (decode_replace (drop (matched b bs) bs)) \<le> length bs" if "sequence_length b \<noteq> 0"
    using 2(2,3) that by (cases "matched b bs = sequence_length b - 1") (metis diff_le_self length_drop order_trans)+
  then show ?case
    using 2(1) by (cases "sequence_length b = 0"; cases "matched b bs = sequence_length b - 1") simp_all
qed simp

text \<open>The log line stays short whatever the payload.\<close>

lemma preview_is_short: "payload_preview payload = Some chars \<Longrightarrow> length chars \<le> 200"
  using length_decode_replace [of "map unat (take payload_log_limit (the payload))"]
  by (auto simp: payload_preview_def payload_log_limit_def split: option.splits if_splits intro: order_trans)

section \<open>Encoding\<close>

definition encode_char :: "nat \<Rightarrow> nat list" where
  "encode_char n =
     (if n < 0x80 then [n]
      else if n < 0x800 then [0xC0 + n div 64, 0x80 + n mod 64]
      else if n < 0x10000 then [0xE0 + n div 4096, 0x80 + n div 64 mod 64, 0x80 + n mod 64]
      else [0xF0 + n div 262144, 0x80 + n div 4096 mod 64, 0x80 + n div 64 mod 64, 0x80 + n mod 64])"

definition scalar_value :: "nat \<Rightarrow> bool" where
  "scalar_value n \<longleftrightarrow> n < 0x110000 \<and> \<not> (0xD800 \<le> n \<and> n \<le> 0xDFFF)"

text \<open>A code point in base 64.\<close>

lemma base64_digits:
  fixes w x y z :: nat
  assumes "x < 64" "y < 64" "z < 64" "n = ((w * 64 + x) * 64 + y) * 64 + z"
  shows "n div 64 = (w * 64 + x) * 64 + y" "n div 4096 = w * 64 + x" "n div 262144 = w" "n mod 64 = z"
    "n div 64 mod 64 = y" "n div 4096 mod 64 = x"
proof -
  show 1: "n div 64 = (w * 64 + x) * 64 + y" using assms by simp
  show "n mod 64 = z" unfolding assms(4) mod_mult_self3 using assms(3) by simp
  have 2: "n div 4096 = n div 64 div 64" by (simp add: div_mult2_eq [symmetric])
  show 3: "n div 4096 = w * 64 + x" unfolding 2 1 using assms by simp
  have "n div 262144 = n div 4096 div 64" by (simp add: div_mult2_eq [symmetric])
  then show "n div 262144 = w" unfolding 3 using assms by simp
  show "n div 64 mod 64 = y" "n div 4096 mod 64 = x" unfolding 1 3 mod_mult_self3 using assms by simp_all
qed

lemma base64_exists: "\<exists>w x y z :: nat. x < 64 \<and> y < 64 \<and> z < 64 \<and> n = ((w * 64 + x) * 64 + y) * 64 + z"
  by (intro exI [of _ "n div 64 div 64 div 64"] exI [of _ "n div 64 div 64 mod 64"] exI [of _ "n div 64 mod 64"]
      exI [of _ "n mod 64"]) simp

definition well_formed :: "nat \<Rightarrow> nat \<Rightarrow> nat list \<Rightarrow> bool" where
  "well_formed n b cs \<longleftrightarrow> sequence_length b = length cs + 1 \<and> code_point b cs = n \<and> list_all continues cs
     \<and> (cs \<noteq> [] \<longrightarrow> second_ok b (hd cs))"

lemma well_formed_2: "2 \<le> y \<Longrightarrow> y < 32 \<Longrightarrow> z < 64 \<Longrightarrow> well_formed (y * 64 + z) (0xC0 + y) [0x80 + z]"
  by (simp add: well_formed_def sequence_length_def code_point_def continues_def second_ok_def)

lemma well_formed_3:
  "x < 16 \<Longrightarrow> y < 64 \<Longrightarrow> z < 64 \<Longrightarrow> (x = 0 \<longrightarrow> 32 \<le> y) \<Longrightarrow> (x = 13 \<longrightarrow> y \<le> 31)
    \<Longrightarrow> well_formed ((x * 64 + y) * 64 + z) (0xE0 + x) [0x80 + y, 0x80 + z]"
  by (simp add: well_formed_def sequence_length_def code_point_def continues_def second_ok_def)

lemma well_formed_4:
  "w < 5 \<Longrightarrow> x < 64 \<Longrightarrow> y < 64 \<Longrightarrow> z < 64 \<Longrightarrow> (w = 0 \<longrightarrow> 16 \<le> x) \<Longrightarrow> (w = 4 \<longrightarrow> x \<le> 15)
    \<Longrightarrow> well_formed (((w * 64 + x) * 64 + y) * 64 + z) (0xF0 + w) [0x80 + x, 0x80 + y, 0x80 + z]"
  by (simp add: well_formed_def sequence_length_def code_point_def continues_def second_ok_def)

lemma encode_char_Cons: "\<exists>b cs. encode_char n = b # cs"
  by (simp add: encode_char_def)

lemma encoded_well_formed:
  assumes "scalar_value n" "encode_char n = b # cs"
  shows "well_formed n b cs"
proof -
  obtain w x y z :: nat where d: "x < 64" "y < 64" "z < 64" "n = ((w * 64 + x) * 64 + y) * 64 + z"
    using base64_exists by blast
  note digits = base64_digits [OF d]
  have sum: "n = 262144 * w + 4096 * x + 64 * y + z" using d(4) by simp
  consider "n < 0x80" | "0x80 \<le> n" "n < 0x800" | "0x800 \<le> n" "n < 0x10000" | "0x10000 \<le> n" by linarith
  then show ?thesis
  proof cases
    case 1
    then show ?thesis
      using assms by (auto simp: encode_char_def well_formed_def sequence_length_def code_point_def)
  next
    case 2
    then have "w < 1" "x < 1" using d(1-3) sum by linarith+
    then have "w = 0" "x = 0" by simp_all
    moreover from this have "2 \<le> y" "y < 32" using 2 d(1-3) sum by linarith+
    ultimately show ?thesis using assms(2) 2 digits d(3,4) well_formed_2 [of y z] by (auto simp: encode_char_def)
  next
    case 3
    then have "w < 1" using d(1-3) sum by linarith
    then have "w = 0" by simp
    moreover from this have "x < 16" "x = 0 \<longrightarrow> 32 \<le> y" using 3 d(1-3) sum by linarith+
    moreover have "x = 13 \<longrightarrow> y \<le> 31" using d(1-3) sum assms(1) \<open>w = 0\<close> unfolding scalar_value_def by linarith
    ultimately show ?thesis using assms(2) 3 digits d well_formed_3 [of x y z] by (auto simp: encode_char_def)
  next
    case 4
    have "n < 0x110000" using assms(1) by (simp add: scalar_value_def)
    then have "w < 5" "w = 0 \<longrightarrow> 16 \<le> x" "w = 4 \<longrightarrow> x \<le> 15" using 4 d(1-3) sum by linarith+
    then show ?thesis using assms(2) 4 digits d well_formed_4 [of w x y z] by (auto simp: encode_char_def)
  qed
qed

lemma matched_beginning:
  assumes "well_formed n b cs" "m \<le> length cs" "m = length cs \<or> rest = []"
  shows "matched b (take m cs @ rest) = m"
proof -
  have "take (sequence_length b - 1) (take m cs @ rest) = take m cs"
    using assms by (auto simp: well_formed_def)
  then have t: "matched b (take m cs @ rest) = (case take m cs of
      [] \<Rightarrow> 0 | c # ds \<Rightarrow> if second_ok b c then 1 + length (takeWhile continues ds) else 0)"
    by (simp only: matched_def)
  show ?thesis
  proof (cases "take m cs")
    case Nil
    then show ?thesis using assms(2) t by auto
  next
    case (Cons c ds)
    have "list_all continues (take m cs)" using assms(1) by (simp add: well_formed_def list_all_iff) (meson in_set_takeD)
    then have "takeWhile continues ds = ds" using Cons by (simp add: takeWhile_eq_all_conv list_all_iff)
    then have "length (takeWhile continues ds) = length ds" by (rule arg_cong)
    moreover have "second_ok b c" using assms(1) Cons by (cases cs; cases m) (auto simp: well_formed_def)
    moreover have "length (c # ds) = m" using Cons assms(2) by (metis length_take min.absorb2)
    ultimately show ?thesis unfolding t by (simp add: Cons)
  qed
qed

text \<open>A character is decoded, and what is left of one that was cut off is one replacement character.\<close>

lemma decode_encoded:
  assumes "scalar_value n"
  shows "decode_replace (encode_char n @ rest) = n # decode_replace rest"
proof -
  obtain b cs where e: "encode_char n = b # cs" using encode_char_Cons by blast
  note w = encoded_well_formed [OF assms e]
  have "matched b (cs @ rest) = length cs" using matched_beginning [OF w, of "length cs" rest] by simp
  then show ?thesis using w e by (simp add: well_formed_def)
qed

lemma decode_cut:
  assumes "scalar_value n" "0 < m" "m < length (encode_char n)"
  shows "decode_replace (take m (encode_char n)) = [0xFFFD]"
proof -
  obtain b cs where e: "encode_char n = b # cs" using encode_char_Cons by blast
  note w = encoded_well_formed [OF assms(1) e]
  have "matched b (take (m - 1) cs) = m - 1" using matched_beginning [OF w, of "m - 1" "[]"] assms(3) e by simp
  moreover have "m - 1 \<noteq> length cs" using assms(2,3) e by simp
  ultimately show ?thesis using w e assms(2,3) by (simp add: well_formed_def take_Cons')
qed

text \<open>So the preview of a text shows its beginning: as many characters as fit, and a replacement character if
  the limit falls into one.\<close>

lemma decode_cut_text:
  assumes "list_all scalar_value chars"
  shows "\<exists>k. decode_replace (take limit (concat (map encode_char chars))) \<in> {take k chars, take k chars @ [0xFFFD]}"
  using assms
proof (induction chars arbitrary: limit)
  case (Cons n chars)
  let ?e = "encode_char n"
  show ?case
  proof (cases "length ?e \<le> limit")
    case True
    obtain k where "decode_replace (take (limit - length ?e) (concat (map encode_char chars))) \<in> {take k chars, take k chars @ [0xFFFD]}"
      using Cons by auto
    then show ?thesis
      using True Cons.prems decode_encoded [of n] by (intro exI [of _ "Suc k"]) auto
  next
    case False
    then show ?thesis
      using Cons.prems decode_cut [of n limit] by (cases "limit = 0") (auto intro!: exI [of _ 0])
  qed
qed simp

lemma preview_shows_the_beginning:
  assumes "list_all scalar_value chars" "map unat payload = concat (map encode_char chars)" "payload \<noteq> []"
  shows "\<exists>k. payload_preview (Some payload) \<in> {Some (take k chars), Some (take k chars @ [0xFFFD])}"
  using decode_cut_text [OF assms(1), of payload_log_limit] assms(2,3)
  by (simp add: payload_preview_def take_map [symmetric])

lemma preview_of_short_text:
  assumes "list_all scalar_value chars" "map unat payload = concat (map encode_char chars)" "payload \<noteq> []" "length payload \<le> 200"
  shows "payload_preview (Some payload) = Some chars"
proof -
  have "decode_replace (concat (map encode_char chars)) = chars"
    using assms(1) decode_encoded by (induction chars) auto
  then show ?thesis using assms(2-4) by (simp add: payload_preview_def payload_log_limit_def)
qed

end
