(* ===== verification/Spec2Isabelle.thy ===== *)
theory Spec2Isabelle
  imports Prelude Entities VersionedHistory Store Payments Verifier Verifier_Reference
    Verifier_Correct Verifier_Runs Verifier_Invariants Verifier_Properties
    Digests Request_Ids Version_Tokens Messaging Jobs
    Sessions Accounts Account_Edits Account_Properties Resolution Service
    Queries Listing Listing_Properties Auth Auth_Properties
    Schema_Ops Migrations Declared_Schema Migration_Properties Broker Processes
    History_Mapper Outbox Serial_Payments Repositories Observability Lifecycle Payload_Preview
begin

text \<open>
  A model of the \<open>statement\<close> service (\<open>src/src/statement\<close> and \<open>src/migrations\<close>): customer accounts with
  an append-only ledger whose rows carry a running balance, and a scheduled verification of that ledger.

  \<^bold>\<open>The program.\<close> Three processes share one PostgreSQL database. The API (\<open>main.py\<close>, \<open>app/routers\<close>) lets
  an administrator create, edit, delete and list accounts and resolve ledger discrepancies. The
  subscribers (\<open>subscribers_main.py\<close>, \<open>app/subscribers\<close>) take events from RabbitMQ and put jobs into a
  queue kept in the database. The consumers (\<open>consumers_main.py\<close>, \<open>app/consumers\<close>) run these jobs, which
  append payments to ledgers or publish messages, and every five minutes verify the ledgers. The tables
  are made by the revisions under \<open>migrations/versions\<close>.

  \<^bold>\<open>State.\<close> \<open>Entities\<close> has a record per mapped class and a datatype per \<open>StrEnum\<close>; \<open>Store.db\<close> holds the
  tables as lists of rows in insertion order. A query of a repository is a function on these lists, a
  write returns the changed database or the error of the violated constraint. A transaction is a function
  \<open>db \<Rightarrow> exc + db\<close>: an error leaves the database as it was. \<open>Prelude.exc\<close> has a constructor for every
  exception the code raises or lets pass.

  \<^bold>\<open>Theories and code.\<close>
  \<^item> \<open>Prelude\<close>: scalar types, exceptions, the SQL idioms and shared lemmas on lists.
  \<^item> \<open>Entities\<close>, \<open>Store\<close>: \<open>domain/entities\<close>, \<open>infra/models\<close>, \<open>infra/repository\<close>; the invariant \<open>db_ok\<close> says
    that all declared constraints hold.
  \<^item> \<open>VersionedHistory\<close>, \<open>History_Mapper\<close>: \<open>persistence/versioned_history.py\<close>. The locale \<open>attribute_history\<close> is the contract
    of SQLAlchemy's \<open>get_history\<close>; the history replays every state an object had.
    \<open>history_mapper_of\<close> is what becomes of a mapped class, with the cases of inheritance.
  \<^item> \<open>Payments\<close>: \<open>apply_payment\<close> of \<open>app/consumers/entrypoints/main.py\<close>, refined to a wallet with a balance
    and a set of operation ids; an intact ledger is a chain from number 1 and balance 0.
  \<^item> \<open>Serial_Payments\<close>: the same job as the statements it sends. Jobs run side by side under the row lock of
    \<open>lock_by_id\<close>, with other transactions in between; they have the effect of running one after the other,
    which is why the other theories may take a payment as one transaction.
  \<^item> \<open>Repositories\<close>: the protocols of \<open>domain/repository.py\<close> and \<open>app/repository.py\<close> as records, the code that
    uses them over any implementation, and the locale \<open>verification_contract\<close> the implementation meets.
  \<^item> \<open>Verifier\<close>, \<open>Verifier_Reference\<close>, \<open>Verifier_Correct\<close>, \<open>Verifier_Runs\<close>, \<open>Verifier_Invariants\<close>,
    \<open>Verifier_Properties\<close>: \<open>infra/repository/ledger_verification.py\<close> and the scheduled run of
    \<open>app/consumers/schedulers/main.py\<close>. The batch query is modelled one definition per CTE, shown equal to a
    scan of the window row by row. The query raises for limits and intervals PostgreSQL does not take and for a
    difference of ledger numbers past \<open>bigint\<close>; which expressions it evaluates is the \<open>query_plan\<close>, over
    which the properties quantify. From this follow what a checkpoint certifies, the quarantine of a
    broken ledger, the silence on intact ones, and that the verification catches up.
  \<^item> \<open>Digests\<close>, \<open>Version_Tokens\<close>: \<open>app/version_token.py\<close> with SHA-256, HMAC and base64 written out.
  \<^item> \<open>Request_Ids\<close>, \<open>Processes\<close>: \<open>infra/request_id.py\<close>, the middleware of \<open>main.py\<close>, the context of a job,
    \<open>infra/heartbeat.py\<close>, \<open>app/routers/system/health.py\<close>.
  \<^item> \<open>Observability\<close>, \<open>Lifecycle\<close>: \<open>infra/observability.py\<close>, every record of a process is written once with its
    service and request id; what the processes start and give back.
  \<^item> \<open>Messaging\<close>, \<open>Broker\<close>: \<open>app/events\<close>, \<open>app/commands\<close>, \<open>app/subscribers\<close>, the declarations of
    \<open>subscribers_main.py\<close>, routing and dead letters; how FastStream settles the message of a subscriber that
    raises is \<open>se_settle\<close>.
  \<^item> \<open>Jobs\<close>: the entrypoints and \<open>app/consumers/executor.py\<close>; the life of a job is a step relation in which
    other transactions run in between.
  \<^item> \<open>Payload_Preview\<close>: the beginning of an undecodable payload that goes to the log, with UTF-8 and its
    replacement of broken characters written out.
  \<^item> \<open>Sessions\<close>: the two functions of \<open>deps.py\<close> that open a session, what a session has written, and what the end
    of a request leaves of it. \<open>wired_sessions\<close> gives each function its own session, \<open>one_session\<close> both the
    same, as the tests do.
  \<^item> \<open>Accounts\<close>, \<open>Account_Edits\<close>, \<open>Account_Properties\<close>, \<open>Resolution\<close>: \<open>app/routers/admin/account.py\<close> over
    either of these wirings.
  \<^item> \<open>Outbox\<close>: the sessions of \<open>deps.py\<close> and the queue on their connections; the creation of an account step
    by step, which with one session is the atomic transaction the other theories use.
  \<^item> \<open>Service\<close>: all writing transactions as one step relation \<open>service_steps\<close> with the invariant
    \<open>service_ok\<close>, and edits that overlap.
  \<^item> \<open>Queries\<close>, \<open>Listing\<close>, \<open>Listing_Properties\<close>: \<open>app/schemas\<close>, \<open>read/repository/account.py\<close>. The locale
    \<open>collation\<close> is the contract of the database's text order and a sublocale of \<open>strict_order\<close>.
  \<^item> \<open>Auth\<close>, \<open>Auth_Properties\<close>: \<open>conf.py\<close>, \<open>infra/auth.py\<close>, \<open>infra/local_auth.py\<close>, \<open>app/auth.py\<close>,
    \<open>app/permissions.py\<close>, \<open>get_principal\<close> of \<open>fast_deps.py\<close>. The verifier is kept between requests, so its
    properties speak of a verifier that has seen any tokens before (\<open>after_tokens\<close>).
  \<^item> \<open>Schema_Ops\<close>, \<open>Migrations\<close>, \<open>Declared_Schema\<close>, \<open>Migration_Properties\<close>: Alembic's operations on
    tables with columns, constraints, indexes and rows; the six revisions; the tables the entity classes
    declare; where the chain leads, what a downgrade undoes, what becomes of the rows.

  \<^bold>\<open>Parameters.\<close> Code outside the repository is an argument of the definitions that use it, with what the
  service relies on as hypotheses: \<open>get_history\<close> (SQLAlchemy), the reading and writing of JSON (pydantic),
  the JWT and key libraries (\<open>decodes_minted\<close> are the checks PyJWT documents), the job queue's \<open>enqueue\<close>, the
  publishing to the broker, SQLAlchemy's refusal of an object of another session, the collation and the
  folding of case (PostgreSQL), the clock, \<open>uuid7\<close>. Which of the two statements of a flush is sent first
  is a parameter too.

  \<^bold>\<open>Bounds.\<close> Ledger numbers are integers with the range of \<open>bigint\<close> checked where a row is stored or a
  parameter is sent, money is an integer of hundredths with the range of \<open>numeric(16,2)\<close>, a UUID is a
  128-bit word, digests are words of their width. \<open>follow_pages\<close> takes a number of requests, for which
  one more than the number of accounts is enough; every other recursion is structural or has a measure.
  A page holds at most 100 accounts, a job is retried three times.

  \<^bold>\<open>What the model shows of the code.\<close> Besides the properties that hold, it shows where the code as wired
  does not do what it means to: edits and resolutions use sessions that are never committed or do not
  fit, the job that announces an account is not part of its transaction, new customers are never stored, a balance past \<open>numeric(16,2)\<close> stops every verification run, and a
  fresh database does not get past the third revision.

  \<^bold>\<open>Not modelled.\<close> \<open>db.py\<close> (engine and session factory), the command line of \<open>infra/local_auth.py\<close>, Alembic's
  offline mode: calls of libraries without decisions of their own. Log calls have no effect in the model.
  Edits of an account and payments on it exclude each other by the row, and two verification runs by the
  advisory lock, so outside \<open>Serial_Payments\<close> they are atomic steps; reads that precede a write in another
  session are separate.
\<close>

end
